(* ===== verification/Rust_Prelude.thy ===== *)
theory Rust_Prelude
  imports Main "HOL-Library.Word"
begin

text \<open>
  Shared vocabulary of the development: the machine integers the Rust code uses, panics as
  values, slice operations with the bounds checks of the language, little-endian encodings of
  integers, UTF-8 validity, and the generic lemmas on lists and words that the component
  theories rely on. Nothing here models a file of the repository; everything here models the
  language and its standard library.
\<close>

unbundle bit_operations_syntax

section \<open>Machine integers\<close>

type_synonym u8 = "8 word"
type_synonym u16 = "16 word"
type_synonym u32 = "32 word"
type_synonym u64 = "64 word"
type_synonym bytes = "8 word list"

text \<open>\<open>usize::MAX\<close> on the 64-bit targets; lengths and offsets (\<open>usize\<close>) are natural numbers.\<close>

definition usize_MAX :: nat where
  "usize_MAX = 2 ^ 64 - 1"

section \<open>Panics\<close>

text \<open>
  A function that may panic returns \<open>panic + 'a\<close>: \<open>Inl\<close> names the panic, \<open>Inr\<close> carries the
  value. The crate is built with overflow checks in the \<open>dev\<close> profile and without them in the
  \<open>release\<close> profile of \<open>src/Cargo.toml\<close>; where an addition or subtraction can leave its width
  the model takes the flag \<open>chk\<close> (are overflow checks on?) and covers both builds.
\<close>

datatype panic =
    IndexOutOfRange
  | SliceLengthMismatch
  | UnwrapNone
  | ArithmeticOverflow
  | AssertionFailed
  | Unreachable
  | Utf8Invalid
  | ExplicitPanic
  | DivisionByZero

type_synonym 'a may_panic = "panic + 'a"

named_theorems panic_simps \<open>equations for the operations of the panic monad\<close>
named_theorems slice_simps \<open>slices and writes that stay in range\<close>
named_theorems codec_simps \<open>sizes and round trips of the byte encodings\<close>

definition rbind :: "'e + 'a \<Rightarrow> ('a \<Rightarrow> 'e + 'b) \<Rightarrow> 'e + 'b" where
  "rbind m f = (case m of Inl e \<Rightarrow> Inl e | Inr x \<Rightarrow> f x)"

lemma rbind_Inl [simp, panic_simps]: "rbind (Inl e) f = Inl e"
  by (simp add: rbind_def)

lemma rbind_Inr [simp, panic_simps]: "rbind (Inr x) f = f x"
  by (simp add: rbind_def)

lemma rbind_eq_Inr_iff: "rbind m f = Inr y \<longleftrightarrow> (\<exists>x. m = Inr x \<and> f x = Inr y)"
  by (cases m) auto

lemma rbind_eq_Inl_iff: "rbind m f = Inl e \<longleftrightarrow> m = Inl e \<or> (\<exists>x. m = Inr x \<and> f x = Inl e)"
  by (cases m) auto

definition unwrap :: "'a option \<Rightarrow> 'a may_panic" where
  "unwrap x = (case x of None \<Rightarrow> Inl UnwrapNone | Some v \<Rightarrow> Inr v)"

lemma unwrap_Some [simp, panic_simps]: "unwrap (Some v) = Inr v"
  by (simp add: unwrap_def)

lemma unwrap_None [simp, panic_simps]: "unwrap None = Inl UnwrapNone"
  by (simp add: unwrap_def)

lemma unwrap_eq_Inr_iff: "unwrap x = Inr v \<longleftrightarrow> x = Some v"
  by (cases x) auto

definition rassert :: "bool \<Rightarrow> panic \<Rightarrow> unit may_panic" where
  "rassert b e = (if b then Inr () else Inl e)"

lemma rassert_True [simp, panic_simps]: "rassert True e = Inr ()"
  by (simp add: rassert_def)

lemma rassert_False [simp, panic_simps]: "rassert False e = Inl e"
  by (simp add: rassert_def)

lemma rassert_eq_Inr_iff: "rassert b e = Inr u \<longleftrightarrow> b"
  by (auto simp: rassert_def)

text \<open>\<open>a + b\<close>, \<open>a - b\<close> and \<open>a * b\<close> on unsigned words under the build's overflow policy.\<close>

definition uadd :: "bool \<Rightarrow> 'n::len word \<Rightarrow> 'n word \<Rightarrow> 'n word may_panic" where
  "uadd chk a b =
     (if chk \<and> 2 ^ LENGTH('n) \<le> unat a + unat b then Inl ArithmeticOverflow else Inr (a + b))"

definition usub :: "bool \<Rightarrow> 'n::len word \<Rightarrow> 'n word \<Rightarrow> 'n word may_panic" where
  "usub chk a b = (if chk \<and> unat a < unat b then Inl ArithmeticOverflow else Inr (a - b))"

definition umul :: "bool \<Rightarrow> 'n::len word \<Rightarrow> 'n word \<Rightarrow> 'n word may_panic" where
  "umul chk a b =
     (if chk \<and> 2 ^ LENGTH('n) \<le> unat a * unat b then Inl ArithmeticOverflow else Inr (a * b))"

lemma uadd_in_range:
  fixes a b :: "'n::len word"
  assumes "unat a + unat b < 2 ^ LENGTH('n)"
  shows "uadd chk a b = Inr (a + b)"
  using assms by (simp add: uadd_def)

lemma usub_in_range: "unat b \<le> unat a \<Longrightarrow> usub chk a b = Inr (a - b)"
  by (simp add: usub_def)

lemma umul_in_range:
  fixes a b :: "'n::len word"
  assumes "unat a * unat b < 2 ^ LENGTH('n)"
  shows "umul chk a b = Inr (a * b)"
  using assms by (simp add: umul_def)

text \<open>The same for \<open>usize\<close>, which is kept as a natural number below \<open>2 ^ 64\<close>.\<close>

definition usize_add :: "bool \<Rightarrow> nat \<Rightarrow> nat \<Rightarrow> nat may_panic" where
  "usize_add chk a b =
     (if a + b \<le> usize_MAX then Inr (a + b)
      else if chk then Inl ArithmeticOverflow else Inr ((a + b) mod (usize_MAX + 1)))"

definition usize_sub :: "bool \<Rightarrow> nat \<Rightarrow> nat \<Rightarrow> nat may_panic" where
  "usize_sub chk a b =
     (if b \<le> a then Inr (a - b)
      else if chk then Inl ArithmeticOverflow else Inr ((a + (usize_MAX + 1) - b) mod (usize_MAX + 1)))"

lemma usize_sub_in_range [panic_simps]: "b \<le> a \<Longrightarrow> usize_sub chk a b = Inr (a - b)"
  by (simp add: usize_sub_def)

lemma usize_add_in_range [panic_simps]: "a + b \<le> usize_MAX \<Longrightarrow> usize_add chk a b = Inr (a + b)"
  by (simp add: usize_add_def)

text \<open>\<open>usize::div_ceil\<close>.\<close>

definition div_ceil :: "nat \<Rightarrow> nat \<Rightarrow> nat" where
  "div_ceil a b = (if a mod b = 0 then a div b else a div b + 1)"

lemma less_div_ceil_iff:
  assumes "0 < b"
  shows "i < div_ceil a b \<longleftrightarrow> i * b < a"
proof (cases "a mod b = 0")
  case True
  then obtain q where "a = b * q" by auto
  with assms show ?thesis
    by (simp add: div_ceil_def mult.commute [of i])
next
  case False
  then have "i * b \<noteq> a" by auto
  with assms False show ?thesis
    by (auto simp: div_ceil_def less_Suc_eq_le less_eq_div_iff_mult_less_eq)
qed

section \<open>Slices\<close>

text \<open>\<open>&xs[i..]\<close>, \<open>&xs[a..b]\<close> and \<open>xs[a..b].copy_from_slice(data)\<close>.\<close>

definition slice_from :: "'a list \<Rightarrow> nat \<Rightarrow> 'a list may_panic" where
  "slice_from xs i = (if i \<le> length xs then Inr (drop i xs) else Inl IndexOutOfRange)"

definition subslice :: "'a list \<Rightarrow> nat \<Rightarrow> nat \<Rightarrow> 'a list may_panic" where
  "subslice xs a b = (if a \<le> b \<and> b \<le> length xs then Inr (take (b - a) (drop a xs)) else Inl IndexOutOfRange)"

definition copy_from_slice :: "'a list \<Rightarrow> nat \<Rightarrow> nat \<Rightarrow> 'a list \<Rightarrow> 'a list may_panic" where
  "copy_from_slice xs a b data =
     (if \<not> (a \<le> b \<and> b \<le> length xs) then Inl IndexOutOfRange
      else if length data \<noteq> b - a then Inl SliceLengthMismatch
      else Inr (take a xs @ data @ drop b xs))"

lemma slice_from_in_range [slice_simps]: "i \<le> length xs \<Longrightarrow> slice_from xs i = Inr (drop i xs)"
  by (simp add: slice_from_def)

lemma subslice_in_range [slice_simps]:
  "a \<le> b \<Longrightarrow> b \<le> length xs \<Longrightarrow> subslice xs a b = Inr (take (b - a) (drop a xs))"
  by (simp add: subslice_def)

lemma copy_from_slice_in_range [slice_simps]:
  "a \<le> b \<Longrightarrow> b \<le> length xs \<Longrightarrow> length data = b - a \<Longrightarrow>
   copy_from_slice xs a b data = Inr (take a xs @ data @ drop b xs)"
  by (simp add: copy_from_slice_def)

lemma copy_from_slice_length: "copy_from_slice xs a b data = Inr ys \<Longrightarrow> length ys = length xs"
  by (auto simp: copy_from_slice_def split: if_splits)

lemma copy_from_slice_nth:
  assumes "copy_from_slice xs a b data = Inr ys" and "i < length xs"
  shows "ys ! i = (if a \<le> i \<and> i < b then data ! (i - a) else xs ! i)"
  using assms by (auto simp: copy_from_slice_def nth_append split: if_splits)

section \<open>Little-endian integers\<close>

definition le16 :: "u16 \<Rightarrow> bytes" where
  "le16 w = [ucast w, ucast (drop_bit 8 w)]"

definition of_le16 :: "bytes \<Rightarrow> u16" where
  "of_le16 bs = ucast (bs ! 0) OR push_bit 8 (ucast (bs ! 1))"

definition le32 :: "u32 \<Rightarrow> bytes" where
  "le32 w = [ucast w, ucast (drop_bit 8 w), ucast (drop_bit 16 w), ucast (drop_bit 24 w)]"

definition of_le32 :: "bytes \<Rightarrow> u32" where
  "of_le32 bs = ucast (bs ! 0) OR push_bit 8 (ucast (bs ! 1)) OR
                push_bit 16 (ucast (bs ! 2)) OR push_bit 24 (ucast (bs ! 3))"

lemma length_le16 [simp, codec_simps]: "length (le16 w) = 2"
  by (simp add: le16_def)

lemma length_le32 [simp, codec_simps]: "length (le32 w) = 4"
  by (simp add: le32_def)

lemma of_le16_le16 [simp, codec_simps]: "of_le16 (le16 w @ rest) = w"
  unfolding le16_def of_le16_def
  by (rule bit_word_eqI) (auto simp: bit_simps)

lemma of_le32_le32 [simp, codec_simps]: "of_le32 (le32 w @ rest) = w"
proof (rule bit_word_eqI)
  fix n :: nat
  assume "n < LENGTH(32)"
  then consider "n < 8" | "8 \<le> n" "n < 16" | "16 \<le> n" "n < 24" | "24 \<le> n" "n < 32"
    by fastforce
  then show "bit (of_le32 (le32 w @ rest)) n = bit w n"
    by cases (auto simp: le32_def of_le32_def bit_simps less_diff_conv2)
qed

lemma bit_u8_bound: "bit (w :: u8) n \<Longrightarrow> n < 8"
  using bit_imp_le_length [of w n] by simp

lemma le16_of_le16 [codec_simps]: "le16 (of_le16 (a # b # rest)) = [a, b]"
  unfolding le16_def of_le16_def list.inject
  by (intro conjI refl bit_word_eqI) (auto simp: bit_simps dest: bit_u8_bound)

lemma le32_of_le32 [codec_simps]: "le32 (of_le32 (a # b # c # d # rest)) = [a, b, c, d]"
  unfolding le32_def of_le32_def list.inject
  by (intro conjI refl bit_word_eqI)
    (auto simp: bit_simps numeral_2_eq_2 numeral_3_eq_3 dest: bit_u8_bound)

text \<open>A list that is long enough, taken apart.\<close>

lemma length_ge_Cons: "Suc n \<le> length xs \<longleftrightarrow> (\<exists>y ys. xs = y # ys \<and> n \<le> length ys)"
  by (cases xs) auto

section \<open>Structures with a fixed byte layout\<close>

text \<open>
  A \<open>repr(C, packed)\<close> structure of byte-aligned little-endian fields is a codec: its bytes, and
  the structure read back from the front of a buffer. \<open>ref_from_prefix\<close> is a shared view of the
  front of a slice; \<open>header_at\<close> and \<open>update_header_at\<close> read and rewrite the structure that starts
  at an offset of a buffer, which is what a mutable view obtained from \<open>&mut buf[off..]\<close> is used
  for.
\<close>

definition ref_from_prefix :: "nat \<Rightarrow> (bytes \<Rightarrow> 'h) \<Rightarrow> bytes \<Rightarrow> 'h option" where
  "ref_from_prefix sz dec bs = (if length bs < sz then None else Some (dec bs))"

definition header_at :: "nat \<Rightarrow> (bytes \<Rightarrow> 'h) \<Rightarrow> nat \<Rightarrow> bytes \<Rightarrow> 'h option may_panic" where
  "header_at sz dec off buf = rbind (slice_from buf off) (\<lambda>s. Inr (ref_from_prefix sz dec s))"

definition update_header_at ::
  "nat \<Rightarrow> (bytes \<Rightarrow> 'h) \<Rightarrow> ('h \<Rightarrow> bytes) \<Rightarrow> nat \<Rightarrow> ('h \<Rightarrow> 'h) \<Rightarrow> bytes \<Rightarrow> bytes option may_panic" where
  "update_header_at sz dec enc off f buf =
     rbind (header_at sz dec off buf)
       (\<lambda>h. Inr (map_option (\<lambda>h. take off buf @ enc (f h) @ drop (off + sz) buf) h))"

locale wire_struct =
  fixes sz :: nat
    and dec :: "bytes \<Rightarrow> 'h"
    and enc :: "'h \<Rightarrow> bytes"
  assumes length_enc [simp]: "length (enc h) = sz"
    and dec_enc [simp]: "dec (enc h @ rest) = h"
    and enc_dec: "sz \<le> length bs \<Longrightarrow> enc (dec bs) = take sz bs"
begin

lemma buffer_split:
  "off + sz \<le> length buf \<Longrightarrow>
   buf = take off buf @ enc (dec (drop off buf)) @ drop (off + sz) buf"
  by (simp add: enc_dec add.commute flip: take_add append_assoc)

lemma ref_from_prefix_enc [simp]: "ref_from_prefix sz dec (enc h @ rest) = Some h"
  by (simp add: ref_from_prefix_def)

lemma header_at_in_range:
  "off + sz \<le> length buf \<Longrightarrow> header_at sz dec off buf = Inr (Some (dec (drop off buf)))"
  by (simp add: header_at_def slice_from_def ref_from_prefix_def)

lemma header_at_Some_iff:
  "header_at sz dec off buf = Inr (Some h) \<longleftrightarrow> off + sz \<le> length buf \<and> h = dec (drop off buf)"
  by (auto simp: header_at_def slice_from_def ref_from_prefix_def split: if_splits)

lemma header_at_middle: "length pre = off \<Longrightarrow> header_at sz dec off (pre @ enc h @ rest) = Inr (Some h)"
  by (simp add: header_at_in_range)

lemma update_header_at_in_range:
  "off + sz \<le> length buf \<Longrightarrow>
   update_header_at sz dec enc off f buf =
     Inr (Some (take off buf @ enc (f (dec (drop off buf))) @ drop (off + sz) buf))"
  by (simp add: update_header_at_def header_at_in_range)

lemma update_header_at_Some_iff:
  "update_header_at sz dec enc off f buf = Inr (Some buf') \<longleftrightarrow>
     off + sz \<le> length buf \<and> buf' = take off buf @ enc (f (dec (drop off buf))) @ drop (off + sz) buf"
  by (auto simp: update_header_at_def header_at_def slice_from_def ref_from_prefix_def split: if_splits)

lemma header_at_update:
  assumes "update_header_at sz dec enc off f buf = Inr (Some buf')"
  shows "header_at sz dec off buf' = Inr (Some (f (dec (drop off buf))))"
    and "length buf' = length buf"
    and "drop (off + sz) buf' = drop (off + sz) buf"
    and "take off buf' = take off buf"
  using assms by (auto simp: update_header_at_Some_iff header_at_middle)

end

section \<open>UTF-8\<close>

text \<open>
  \<open>std::str::from_utf8\<close> accepts exactly the well-formed sequences: no overlong forms, no
  surrogates, nothing above U+10FFFF. A \<open>str\<close> or \<open>String\<close> is a byte list that passes.
\<close>

definition utf8_cont :: "u8 \<Rightarrow> bool" where
  "utf8_cont b \<longleftrightarrow> 0x80 \<le> b \<and> b \<le> 0xBF"

definition utf8_second :: "u8 \<Rightarrow> u8 \<Rightarrow> bool" where
  "utf8_second a b =
     (if a = 0xE0 then 0xA0 \<le> b \<and> b \<le> 0xBF
      else if a = 0xED then 0x80 \<le> b \<and> b \<le> 0x9F
      else if a = 0xF0 then 0x90 \<le> b \<and> b \<le> 0xBF
      else if a = 0xF4 then 0x80 \<le> b \<and> b \<le> 0x8F
      else utf8_cont b)"

definition utf8_width :: "u8 \<Rightarrow> nat" where
  "utf8_width a =
     (if a < 0x80 then 1 else if a < 0xC2 then 0 else if a \<le> 0xDF then 2
      else if a \<le> 0xEF then 3 else if a \<le> 0xF4 then 4 else 0)"

fun valid_utf8 :: "bytes \<Rightarrow> bool" where
  "valid_utf8 [] = True"
| "valid_utf8 (a # rest) =
     (let w = utf8_width a in
      if w = 0 \<or> length rest < w - 1 then False
      else if w = 1 then valid_utf8 rest
      else utf8_second a (rest ! 0) \<and> list_all utf8_cont (take (w - 2) (drop 1 rest)) \<and>
           valid_utf8 (drop (w - 1) rest))"

definition from_utf8_unwrap :: "bytes \<Rightarrow> bytes may_panic" where
  "from_utf8_unwrap bs = (if valid_utf8 bs then Inr bs else Inl Utf8Invalid)"

end
