(* ===== verification/Packet_Def.thy ===== *)
theory Packet_Def
  imports Rust_Prelude
begin

text \<open>
  The packet layer, \<open>src/easytier/src/tunnel/packet_def.rs\<close>: the tunnel headers and their wire
  layout, the peer manager header with its flag bits, the header that wraps packets of foreign
  networks, and \<open>ZCPacket\<close>, a buffer whose packet type says where the headers sit. Memory that
  \<open>set_len\<close> exposes without writing it is the parameter \<open>garbage\<close>; what \<open>BytesMut::split_off\<close>
  does past the end of the buffer (the bytes crate decides by spare capacity) is the parameter
  \<open>past\<close>.
\<close>

section \<open>Headers\<close>

record TCPTunnelHeader =
  tcp_len :: u32

datatype UdpPacketType = UdpInvalid | Syn | Sack | UdpData | Fin | HolePunch | V6HolePunch

fun UdpPacketType_u8 :: "UdpPacketType \<Rightarrow> u8" where
  "UdpPacketType_u8 UdpInvalid = 0"
| "UdpPacketType_u8 Syn = 1"
| "UdpPacketType_u8 Sack = 2"
| "UdpPacketType_u8 UdpData = 3"
| "UdpPacketType_u8 Fin = 4"
| "UdpPacketType_u8 HolePunch = 5"
| "UdpPacketType_u8 V6HolePunch = 6"

record V6HolePunchPacket =
  dst_ipv6 :: bytes
  dst_port :: u16

record UDPTunnelHeader =
  conn_id :: u32
  msg_type :: u8
  padding :: u8
  udp_len :: u16

record WGTunnelHeader =
  ipv4_header :: bytes

datatype PacketType =
    Invalid | Data | HandShake | RoutePacket | Ping | Pong | TaRpc | Route
  | RpcReq | RpcResp | ForeignNetworkPacket | KcpSrc | KcpDst

fun PacketType_u8 :: "PacketType \<Rightarrow> u8" where
  "PacketType_u8 Invalid = 0"
| "PacketType_u8 Data = 1"
| "PacketType_u8 HandShake = 2"
| "PacketType_u8 RoutePacket = 3"
| "PacketType_u8 Ping = 4"
| "PacketType_u8 Pong = 5"
| "PacketType_u8 TaRpc = 6"
| "PacketType_u8 Route = 7"
| "PacketType_u8 RpcReq = 8"
| "PacketType_u8 RpcResp = 9"
| "PacketType_u8 ForeignNetworkPacket = 10"
| "PacketType_u8 KcpSrc = 11"
| "PacketType_u8 KcpDst = 12"

record PeerManagerHeader =
  from_peer_id :: u32
  to_peer_id :: u32
  hdr_packet_type :: u8
  flags :: u8
  forward_counter :: u8
  reserved :: u8
  pm_len :: u32

record ForeignNetworkPacketHeader =
  header_len :: u16
  dst_peer_id :: u32
  network_name_offset :: u16
  network_name_len :: u16

record AesGcmTail =
  tag :: bytes
  nonce :: bytes

datatype CompressorAlgo = CompressNone | ZstdDefault

fun CompressorAlgo_u8 :: "CompressorAlgo \<Rightarrow> u8" where
  "CompressorAlgo_u8 CompressNone = 0"
| "CompressorAlgo_u8 ZstdDefault = 1"

record CompressorTail =
  algo :: u8

text \<open>Sizes: \<open>std::mem::size_of\<close> of the packed structures.\<close>

definition TCP_TUNNEL_HEADER_SIZE :: nat where "TCP_TUNNEL_HEADER_SIZE = 4"
definition UDP_TUNNEL_HEADER_SIZE :: nat where "UDP_TUNNEL_HEADER_SIZE = 8"
definition WG_TUNNEL_HEADER_SIZE :: nat where "WG_TUNNEL_HEADER_SIZE = 20"
definition PEER_MANAGER_HEADER_SIZE :: nat where "PEER_MANAGER_HEADER_SIZE = 16"
definition FOREIGN_NETWORK_HEADER_SIZE :: nat where "FOREIGN_NETWORK_HEADER_SIZE = 10"
definition AES_GCM_ENCRYPTION_RESERVED :: nat where "AES_GCM_ENCRYPTION_RESERVED = 16 + 12"
definition COMPRESSOR_TAIL_SIZE :: nat where "COMPRESSOR_TAIL_SIZE = 1"

definition const_max :: "nat \<Rightarrow> nat \<Rightarrow> nat" where
  "const_max a b = [a, b] ! (if a < b then 1 else 0)"

definition TAIL_RESERVED_SIZE :: nat where
  "TAIL_RESERVED_SIZE = const_max AES_GCM_ENCRYPTION_RESERVED COMPRESSOR_TAIL_SIZE"

lemmas header_sizes =
  TCP_TUNNEL_HEADER_SIZE_def UDP_TUNNEL_HEADER_SIZE_def WG_TUNNEL_HEADER_SIZE_def
  PEER_MANAGER_HEADER_SIZE_def FOREIGN_NETWORK_HEADER_SIZE_def AES_GCM_ENCRYPTION_RESERVED_def
  COMPRESSOR_TAIL_SIZE_def

section \<open>Wire layout\<close>

definition TCPTunnelHeader_enc :: "TCPTunnelHeader \<Rightarrow> bytes" where
  "TCPTunnelHeader_enc h = le32 (tcp_len h)"

definition TCPTunnelHeader_dec :: "bytes \<Rightarrow> TCPTunnelHeader" where
  "TCPTunnelHeader_dec bs = \<lparr>tcp_len = of_le32 bs\<rparr>"

definition UDPTunnelHeader_enc :: "UDPTunnelHeader \<Rightarrow> bytes" where
  "UDPTunnelHeader_enc h = le32 (conn_id h) @ [msg_type h, padding h] @ le16 (udp_len h)"

definition UDPTunnelHeader_dec :: "bytes \<Rightarrow> UDPTunnelHeader" where
  "UDPTunnelHeader_dec bs =
     \<lparr>conn_id = of_le32 bs, msg_type = bs ! 4, padding = bs ! 5, udp_len = of_le16 (drop 6 bs)\<rparr>"

definition PeerManagerHeader_enc :: "PeerManagerHeader \<Rightarrow> bytes" where
  "PeerManagerHeader_enc h =
     le32 (from_peer_id h) @ le32 (to_peer_id h) @
     [hdr_packet_type h, flags h, forward_counter h, reserved h] @ le32 (pm_len h)"

definition PeerManagerHeader_dec :: "bytes \<Rightarrow> PeerManagerHeader" where
  "PeerManagerHeader_dec bs =
     \<lparr>from_peer_id = of_le32 bs, to_peer_id = of_le32 (drop 4 bs),
      hdr_packet_type = bs ! 8, flags = bs ! 9, forward_counter = bs ! 10, reserved = bs ! 11,
      pm_len = of_le32 (drop 12 bs)\<rparr>"

definition ForeignNetworkPacketHeader_enc :: "ForeignNetworkPacketHeader \<Rightarrow> bytes" where
  "ForeignNetworkPacketHeader_enc h =
     le16 (header_len h) @ le32 (dst_peer_id h) @ le16 (network_name_offset h) @
     le16 (network_name_len h)"

definition ForeignNetworkPacketHeader_dec :: "bytes \<Rightarrow> ForeignNetworkPacketHeader" where
  "ForeignNetworkPacketHeader_dec bs =
     \<lparr>header_len = of_le16 bs, dst_peer_id = of_le32 (drop 2 bs),
      network_name_offset = of_le16 (drop 6 bs), network_name_len = of_le16 (drop 8 bs)\<rparr>"

text \<open>\<open>WGTunnelHeader\<close> is an array of 20 bytes: its view is the bytes themselves.\<close>

definition WGTunnelHeader_enc :: "WGTunnelHeader \<Rightarrow> bytes" where
  "WGTunnelHeader_enc h = ipv4_header h"

definition WGTunnelHeader_dec :: "bytes \<Rightarrow> WGTunnelHeader" where
  "WGTunnelHeader_dec bs = \<lparr>ipv4_header = take WG_TUNNEL_HEADER_SIZE bs\<rparr>"

lemmas wire_defs =
  TCPTunnelHeader_enc_def TCPTunnelHeader_dec_def UDPTunnelHeader_enc_def UDPTunnelHeader_dec_def
  PeerManagerHeader_enc_def PeerManagerHeader_dec_def
  ForeignNetworkPacketHeader_enc_def ForeignNetworkPacketHeader_dec_def

lemma take_layout_4: "4 \<le> length bs \<Longrightarrow> \<exists>a b c d r. bs = a # b # c # d # r"
  by (auto simp: numeral_eq_Suc length_ge_Cons)

lemma take_layout_8: "8 \<le> length bs \<Longrightarrow> \<exists>a b c d e f g h r. bs = a # b # c # d # e # f # g # h # r"
  by (auto simp: numeral_eq_Suc length_ge_Cons)

lemma take_layout_10: "10 \<le> length bs \<Longrightarrow> \<exists>a b c d e f g h i j r. bs = a # b # c # d # e # f # g # h # i # j # r"
  by (auto simp: numeral_eq_Suc length_ge_Cons)

lemma take_layout_16:
  "16 \<le> length bs \<Longrightarrow>
   \<exists>a b c d e f g h i j k l m n p q r. bs = a # b # c # d # e # f # g # h # i # j # k # l # m # n # p # q # r"
  by (auto simp: numeral_eq_Suc length_ge_Cons)

interpretation tcp_hdr: wire_struct TCP_TUNNEL_HEADER_SIZE TCPTunnelHeader_dec TCPTunnelHeader_enc
  by unfold_locales (auto simp: wire_defs header_sizes codec_simps dest!: take_layout_4)

interpretation udp_hdr: wire_struct UDP_TUNNEL_HEADER_SIZE UDPTunnelHeader_dec UDPTunnelHeader_enc
  by unfold_locales (auto simp: wire_defs header_sizes nth_append codec_simps dest!: take_layout_8)

interpretation pm_hdr: wire_struct PEER_MANAGER_HEADER_SIZE PeerManagerHeader_dec PeerManagerHeader_enc
  by unfold_locales (auto simp: wire_defs header_sizes nth_append codec_simps dest!: take_layout_16)

interpretation foreign_hdr:
  wire_struct FOREIGN_NETWORK_HEADER_SIZE ForeignNetworkPacketHeader_dec ForeignNetworkPacketHeader_enc
  by unfold_locales (auto simp: wire_defs header_sizes codec_simps dest!: take_layout_10)

section \<open>Flags of the peer manager header\<close>

text \<open>
  The flag set is declared with \<open>const _ = !0\<close>, so every byte is a valid set and \<open>from_bits\<close>
  never fails; \<open>contains\<close>, \<open>insert\<close> and \<open>remove\<close> are the bit operations.
\<close>

definition ENCRYPTED :: u8 where "ENCRYPTED = 1"
definition LATENCY_FIRST :: u8 where "LATENCY_FIRST = 2"
definition EXIT_NODE :: u8 where "EXIT_NODE = 4"
definition NO_PROXY :: u8 where "NO_PROXY = 8"
definition COMPRESSED :: u8 where "COMPRESSED = 16"
definition KCP_SRC_MODIFIED :: u8 where "KCP_SRC_MODIFIED = 32"
definition NOT_SEND_TO_TUN :: u8 where "NOT_SEND_TO_TUN = 64"

lemmas flag_masks =
  ENCRYPTED_def LATENCY_FIRST_def EXIT_NODE_def NO_PROXY_def COMPRESSED_def KCP_SRC_MODIFIED_def
  NOT_SEND_TO_TUN_def

definition flags_contains :: "u8 \<Rightarrow> u8 \<Rightarrow> bool" where
  "flags_contains f m \<longleftrightarrow> f AND m = m"

definition flags_insert :: "u8 \<Rightarrow> u8 \<Rightarrow> u8" where
  "flags_insert f m = f OR m"

definition flags_remove :: "u8 \<Rightarrow> u8 \<Rightarrow> u8" where
  "flags_remove f m = f AND NOT m"

definition is_encrypted :: "PeerManagerHeader \<Rightarrow> bool" where
  "is_encrypted h = flags_contains (flags h) ENCRYPTED"

definition set_encrypted :: "PeerManagerHeader \<Rightarrow> bool \<Rightarrow> PeerManagerHeader" where
  "set_encrypted h encrypted =
     h\<lparr>flags := (if encrypted then flags_insert (flags h) ENCRYPTED else flags_remove (flags h) ENCRYPTED)\<rparr>"

definition is_latency_first :: "PeerManagerHeader \<Rightarrow> bool" where
  "is_latency_first h = flags_contains (flags h) LATENCY_FIRST"

definition is_exit_node :: "PeerManagerHeader \<Rightarrow> bool" where
  "is_exit_node h = flags_contains (flags h) EXIT_NODE"

definition is_no_proxy :: "PeerManagerHeader \<Rightarrow> bool" where
  "is_no_proxy h = flags_contains (flags h) NO_PROXY"

definition is_compressed :: "PeerManagerHeader \<Rightarrow> bool" where
  "is_compressed h = flags_contains (flags h) COMPRESSED"

definition set_latency_first :: "PeerManagerHeader \<Rightarrow> bool \<Rightarrow> PeerManagerHeader" where
  "set_latency_first h latency_first =
     h\<lparr>flags := (if latency_first then flags_insert (flags h) LATENCY_FIRST
                 else flags_remove (flags h) LATENCY_FIRST)\<rparr>"

definition set_exit_node :: "PeerManagerHeader \<Rightarrow> bool \<Rightarrow> PeerManagerHeader" where
  "set_exit_node h exit_node =
     h\<lparr>flags := (if exit_node then flags_insert (flags h) EXIT_NODE else flags_remove (flags h) EXIT_NODE)\<rparr>"

definition set_no_proxy :: "PeerManagerHeader \<Rightarrow> bool \<Rightarrow> PeerManagerHeader" where
  "set_no_proxy h no_proxy =
     h\<lparr>flags := (if no_proxy then flags_insert (flags h) NO_PROXY else flags_remove (flags h) NO_PROXY)\<rparr>"

definition set_compressed :: "PeerManagerHeader \<Rightarrow> bool \<Rightarrow> PeerManagerHeader" where
  "set_compressed h compressed =
     h\<lparr>flags := (if compressed then flags_insert (flags h) COMPRESSED else flags_remove (flags h) COMPRESSED)\<rparr>"

definition set_kcp_src_modified :: "PeerManagerHeader \<Rightarrow> bool \<Rightarrow> PeerManagerHeader" where
  "set_kcp_src_modified h modified =
     h\<lparr>flags := (if modified then flags_insert (flags h) KCP_SRC_MODIFIED
                 else flags_remove (flags h) KCP_SRC_MODIFIED)\<rparr>"

definition is_kcp_src_modified :: "PeerManagerHeader \<Rightarrow> bool" where
  "is_kcp_src_modified h = flags_contains (flags h) KCP_SRC_MODIFIED"

definition set_not_send_to_tun :: "PeerManagerHeader \<Rightarrow> bool \<Rightarrow> PeerManagerHeader" where
  "set_not_send_to_tun h not_send_to_tun =
     h\<lparr>flags := (if not_send_to_tun then flags_insert (flags h) NOT_SEND_TO_TUN
                 else flags_remove (flags h) NOT_SEND_TO_TUN)\<rparr>"

definition is_not_send_to_tun :: "PeerManagerHeader \<Rightarrow> bool" where
  "is_not_send_to_tun h = flags_contains (flags h) NOT_SEND_TO_TUN"

lemmas flag_ops_defs =
  is_encrypted_def set_encrypted_def is_latency_first_def set_latency_first_def
  is_exit_node_def set_exit_node_def is_no_proxy_def set_no_proxy_def
  is_compressed_def set_compressed_def is_kcp_src_modified_def set_kcp_src_modified_def
  is_not_send_to_tun_def set_not_send_to_tun_def

text \<open>One flag: a getter and a setter that work on bit \<open>i\<close> of the flag byte.\<close>

locale header_flag =
  fixes getf :: "PeerManagerHeader \<Rightarrow> bool"
    and setf :: "PeerManagerHeader \<Rightarrow> bool \<Rightarrow> PeerManagerHeader"
    and i :: nat
  assumes getf_bit: "getf h \<longleftrightarrow> bit (flags h) i"
    and setf_bit: "setf h b = h\<lparr>flags := (if b then flags h OR push_bit i 1 else flags h AND NOT (push_bit i 1))\<rparr>"
    and i_lt: "i < 8"
begin

lemma bit_flags_setf: "j < 8 \<Longrightarrow> bit (flags (setf h b)) j \<longleftrightarrow> (if j = i then b else bit (flags h) j)"
  by (auto simp: setf_bit bit_simps)

lemma getf_setf [simp]: "getf (setf h b) = b"
  using i_lt by (simp add: getf_bit bit_flags_setf)

lemma setf_frame: "setf h b = h\<lparr>flags := flags (setf h b)\<rparr>"
  by (simp add: setf_bit)

lemma setf_undo: "setf (setf h b) (getf h) = h"
proof -
  have "flags (setf (setf h b) (getf h)) = flags h"
    by (rule bit_word_eqI) (auto simp: bit_flags_setf getf_bit)
  then have "setf (setf h b) (getf h) = (setf h b)\<lparr>flags := flags h\<rparr>"
    by (subst setf_frame) simp
  then show ?thesis
    by (simp add: setf_bit)
qed

end

lemma flags_contains_bit: "i < 8 \<Longrightarrow> flags_contains f (push_bit i 1) \<longleftrightarrow> bit f i"
  unfolding flags_contains_def bit_eq_iff by (auto simp: bit_simps)

lemma header_flagI:
  assumes "\<And>h. getf h = flags_contains (flags h) m"
    and "\<And>h b. setf h b = h\<lparr>flags := (if b then flags_insert (flags h) m else flags_remove (flags h) m)\<rparr>"
    and "m = push_bit i 1" and "i < 8"
  shows "header_flag getf setf i"
  using assms
  by unfold_locales (simp_all only: flags_contains_bit flags_insert_def flags_remove_def)

interpretation f_enc: header_flag is_encrypted set_encrypted 0
  by (rule header_flagI [where m = ENCRYPTED]) (simp_all add: flag_ops_defs flag_masks)
interpretation f_lat: header_flag is_latency_first set_latency_first 1
  by (rule header_flagI [where m = LATENCY_FIRST]) (simp_all add: flag_ops_defs flag_masks)
interpretation f_exit: header_flag is_exit_node set_exit_node 2
  by (rule header_flagI [where m = EXIT_NODE]) (simp_all add: flag_ops_defs flag_masks)
interpretation f_nop: header_flag is_no_proxy set_no_proxy 3
  by (rule header_flagI [where m = NO_PROXY]) (simp_all add: flag_ops_defs flag_masks)
interpretation f_comp: header_flag is_compressed set_compressed 4
  by (rule header_flagI [where m = COMPRESSED]) (simp_all add: flag_ops_defs flag_masks)
interpretation f_kcp: header_flag is_kcp_src_modified set_kcp_src_modified 5
  by (rule header_flagI [where m = KCP_SRC_MODIFIED]) (simp_all add: flag_ops_defs flag_masks)
interpretation f_tun: header_flag is_not_send_to_tun set_not_send_to_tun 6
  by (rule header_flagI [where m = NOT_SEND_TO_TUN]) (simp_all add: flag_ops_defs flag_masks)

text \<open>The seven flags, in bit order, as pairs of getter and setter.\<close>

definition header_flags ::
  "((PeerManagerHeader \<Rightarrow> bool) \<times> (PeerManagerHeader \<Rightarrow> bool \<Rightarrow> PeerManagerHeader)) list" where
  "header_flags =
     [(is_encrypted, set_encrypted), (is_latency_first, set_latency_first),
      (is_exit_node, set_exit_node), (is_no_proxy, set_no_proxy), (is_compressed, set_compressed),
      (is_kcp_src_modified, set_kcp_src_modified), (is_not_send_to_tun, set_not_send_to_tun)]"

lemma header_flags_nth:
  assumes "i < 7"
  shows "header_flag (fst (header_flags ! i)) (snd (header_flags ! i)) i"
proof -
  from assms consider "i = 0" | "i = 1" | "i = 2" | "i = 3" | "i = 4" | "i = 5" | "i = 6"
    by linarith
  then show ?thesis
    by cases (simp_all add: header_flags_def f_enc.header_flag_axioms f_lat.header_flag_axioms
        f_exit.header_flag_axioms f_nop.header_flag_axioms f_comp.header_flag_axioms
        f_kcp.header_flag_axioms f_tun.header_flag_axioms del: One_nat_def)
qed

text \<open>
  The seven flag setters are independent. Setting a flag makes its own getter return the
  value set, leaves the value of each of the other six getters as it was, and changes no field
  of the header but the flag byte.
\<close>

theorem header_flags_independent:
  assumes "i < 7" and "j < 7"
  shows "fst (header_flags ! i) (snd (header_flags ! j) h b) =
           (if i = j then b else fst (header_flags ! i) h) \<and>
         snd (header_flags ! j) h b = h\<lparr>flags := flags (snd (header_flags ! j) h b)\<rparr>"
proof -
  note fi = header_flags_nth [OF assms(1)] and fj = header_flags_nth [OF assms(2)]
  have "bit (flags (snd (header_flags ! j) h b)) i \<longleftrightarrow> (if i = j then b else bit (flags h) i)"
    using header_flag.bit_flags_setf [OF fj] assms(1) by simp
  then show ?thesis
    using header_flag.getf_bit [OF fi] header_flag.setf_frame [OF fj] by simp
qed

theorem header_flags_independent_witness:
  "fst (header_flags ! 2) (snd (header_flags ! 4) \<lparr>from_peer_id = 1, to_peer_id = 2, hdr_packet_type = 1,
       flags = 4, forward_counter = 1, reserved = 0, pm_len = 3\<rparr> True) \<and>
   snd (header_flags ! 4) \<lparr>from_peer_id = 1, to_peer_id = 2, hdr_packet_type = 1,
       flags = 4, forward_counter = 1, reserved = 0, pm_len = 3\<rparr> True =
   \<lparr>from_peer_id = 1, to_peer_id = 2, hdr_packet_type = 1,
       flags = 20, forward_counter = 1, reserved = 0, pm_len = 3\<rparr>"
  using header_flags_independent
    [of 2 4 "\<lparr>from_peer_id = 1, to_peer_id = 2, hdr_packet_type = 1,
       flags = 4, forward_counter = 1, reserved = 0, pm_len = 3\<rparr>" True]
  by (simp add: header_flags_def is_exit_node_def set_compressed_def flags_contains_def
      flags_insert_def EXIT_NODE_def COMPRESSED_def)

section \<open>Foreign network header\<close>

text \<open>
  \<open>network_name\<close> is a string, so its bytes are valid UTF-8. \<open>as u16\<close> truncates the length; the
  sum of the two \<open>u16\<close> values is checked or wraps with the build.
\<close>

definition ForeignNetworkPacketHeader_new ::
  "bool \<Rightarrow> u32 \<Rightarrow> bytes \<Rightarrow> ForeignNetworkPacketHeader may_panic" where
  "ForeignNetworkPacketHeader_new chk dst network_name =
     (let name_offset = of_nat FOREIGN_NETWORK_HEADER_SIZE;
          name_len = of_nat (length network_name)
      in rbind (uadd chk name_offset name_len) (\<lambda>hlen.
           Inr \<lparr>header_len = hlen, dst_peer_id = dst,
                network_name_offset = name_offset, network_name_len = name_len\<rparr>))"

definition get_network_name :: "ForeignNetworkPacketHeader \<Rightarrow> bytes \<Rightarrow> bytes may_panic" where
  "get_network_name h zc_packet_payload =
     (let offset = unat (network_name_offset h); len = unat (network_name_len h)
      in rbind (subslice zc_packet_payload offset (offset + len)) from_utf8_unwrap)"

definition get_dst_peer_id_foreign :: "ForeignNetworkPacketHeader \<Rightarrow> u32" where
  "get_dst_peer_id_foreign h = dst_peer_id h"

definition get_header_len :: "ForeignNetworkPacketHeader \<Rightarrow> nat" where
  "get_header_len h = unat (header_len h)"

section \<open>Compressor tail\<close>

definition get_algo :: "CompressorTail \<Rightarrow> CompressorAlgo option" where
  "get_algo t = (if algo t = 1 then Some ZstdDefault else None)"

definition CompressorTail_new :: "CompressorAlgo \<Rightarrow> CompressorTail" where
  "CompressorTail_new a = \<lparr>algo = CompressorAlgo_u8 a\<rparr>"

section \<open>Packet types and offsets\<close>

record ZCPacketOffsets =
  off_payload :: nat
  off_peer_manager :: nat
  off_tcp :: nat
  off_udp :: nat
  off_wg :: nat
  off_dummy :: nat

datatype ZCPacketType = TCP | UDP | WG | NIC | DummyTunnel

definition PAYLOAD_OFFSET_FOR_NIC_PACKET :: nat where
  "PAYLOAD_OFFSET_FOR_NIC_PACKET =
     const_max (const_max TCP_TUNNEL_HEADER_SIZE UDP_TUNNEL_HEADER_SIZE) WG_TUNNEL_HEADER_SIZE +
     PEER_MANAGER_HEADER_SIZE"

definition INVALID_OFFSET :: nat where
  "INVALID_OFFSET = usize_MAX"

definition get_converted_offset :: "nat \<Rightarrow> nat \<Rightarrow> nat" where
  "get_converted_offset old_hdr_size new_hdr_size =
     (if old_hdr_size < new_hdr_size then INVALID_OFFSET else old_hdr_size - new_hdr_size)"

fun get_packet_offsets :: "ZCPacketType \<Rightarrow> ZCPacketOffsets" where
  "get_packet_offsets TCP =
     \<lparr>off_payload = TCP_TUNNEL_HEADER_SIZE + PEER_MANAGER_HEADER_SIZE,
      off_peer_manager = TCP_TUNNEL_HEADER_SIZE,
      off_tcp = 0,
      off_udp = get_converted_offset TCP_TUNNEL_HEADER_SIZE UDP_TUNNEL_HEADER_SIZE,
      off_wg = get_converted_offset TCP_TUNNEL_HEADER_SIZE WG_TUNNEL_HEADER_SIZE,
      off_dummy = get_converted_offset TCP_TUNNEL_HEADER_SIZE 0\<rparr>"
| "get_packet_offsets UDP =
     \<lparr>off_payload = UDP_TUNNEL_HEADER_SIZE + PEER_MANAGER_HEADER_SIZE,
      off_peer_manager = UDP_TUNNEL_HEADER_SIZE,
      off_tcp = get_converted_offset UDP_TUNNEL_HEADER_SIZE TCP_TUNNEL_HEADER_SIZE,
      off_udp = 0,
      off_wg = get_converted_offset UDP_TUNNEL_HEADER_SIZE WG_TUNNEL_HEADER_SIZE,
      off_dummy = get_converted_offset UDP_TUNNEL_HEADER_SIZE 0\<rparr>"
| "get_packet_offsets WG =
     \<lparr>off_payload = WG_TUNNEL_HEADER_SIZE + PEER_MANAGER_HEADER_SIZE,
      off_peer_manager = WG_TUNNEL_HEADER_SIZE,
      off_tcp = get_converted_offset WG_TUNNEL_HEADER_SIZE TCP_TUNNEL_HEADER_SIZE,
      off_udp = get_converted_offset WG_TUNNEL_HEADER_SIZE UDP_TUNNEL_HEADER_SIZE,
      off_wg = 0,
      off_dummy = get_converted_offset WG_TUNNEL_HEADER_SIZE 0\<rparr>"
| "get_packet_offsets NIC =
     \<lparr>off_payload = PAYLOAD_OFFSET_FOR_NIC_PACKET,
      off_peer_manager = PAYLOAD_OFFSET_FOR_NIC_PACKET - PEER_MANAGER_HEADER_SIZE,
      off_tcp = PAYLOAD_OFFSET_FOR_NIC_PACKET - PEER_MANAGER_HEADER_SIZE - TCP_TUNNEL_HEADER_SIZE,
      off_udp = PAYLOAD_OFFSET_FOR_NIC_PACKET - PEER_MANAGER_HEADER_SIZE - UDP_TUNNEL_HEADER_SIZE,
      off_wg = PAYLOAD_OFFSET_FOR_NIC_PACKET - PEER_MANAGER_HEADER_SIZE - WG_TUNNEL_HEADER_SIZE,
      off_dummy = PAYLOAD_OFFSET_FOR_NIC_PACKET - PEER_MANAGER_HEADER_SIZE\<rparr>"
| "get_packet_offsets DummyTunnel =
     \<lparr>off_payload = PEER_MANAGER_HEADER_SIZE,
      off_peer_manager = 0,
      off_tcp = get_converted_offset 0 TCP_TUNNEL_HEADER_SIZE,
      off_udp = get_converted_offset 0 UDP_TUNNEL_HEADER_SIZE,
      off_wg = get_converted_offset 0 WG_TUNNEL_HEADER_SIZE,
      off_dummy = 0\<rparr>"

lemma const_max_eq: "const_max a b = max a b"
  by (simp add: const_max_def)

lemma nic_offset: "PAYLOAD_OFFSET_FOR_NIC_PACKET = 36"
  by (simp add: PAYLOAD_OFFSET_FOR_NIC_PACKET_def const_max_eq header_sizes)

lemmas offset_defs = get_converted_offset_def nic_offset header_sizes

lemma payload_after_header:
  "off_payload (get_packet_offsets t) = off_peer_manager (get_packet_offsets t) + PEER_MANAGER_HEADER_SIZE"
  by (cases t) (simp_all add: offset_defs)

section \<open>The packet buffer\<close>

record ZCPacket =
  inner :: bytes
  packet_type :: ZCPacketType

abbreviation pm_offset :: "ZCPacket \<Rightarrow> nat" where
  "pm_offset p \<equiv> off_peer_manager (get_packet_offsets (packet_type p))"

definition uninit :: "(nat \<Rightarrow> u8) \<Rightarrow> nat \<Rightarrow> bytes" where
  "uninit garbage n = map garbage [0..<n]"

lemma length_uninit [simp]: "length (uninit garbage n) = n"
  by (simp add: uninit_def)

type_synonym split_past = "bytes \<Rightarrow> nat \<Rightarrow> bytes may_panic"

definition split_off :: "split_past \<Rightarrow> bytes \<Rightarrow> nat \<Rightarrow> bytes may_panic" where
  "split_off past buf at = (if at \<le> length buf then Inr (drop at buf) else past buf at)"

definition new_nic_packet :: ZCPacket where
  "new_nic_packet = \<lparr>inner = [], packet_type = NIC\<rparr>"

definition new_from_buf :: "bytes \<Rightarrow> ZCPacketType \<Rightarrow> ZCPacket" where
  "new_from_buf buf t = \<lparr>inner = buf, packet_type = t\<rparr>"

definition payload_offset :: "ZCPacket \<Rightarrow> nat" where
  "payload_offset p = off_payload (get_packet_offsets (packet_type p))"

definition payload :: "ZCPacket \<Rightarrow> bytes may_panic" where
  "payload p = slice_from (inner p) (payload_offset p)"

text \<open>
  Writing through \<open>mut_payload()[a..b].copy_from_slice(data)\<close>: the slice expression is checked
  against the payload, the bytes land behind the payload offset.
\<close>

definition mut_payload_copy :: "ZCPacket \<Rightarrow> nat \<Rightarrow> nat \<Rightarrow> bytes \<Rightarrow> ZCPacket may_panic" where
  "mut_payload_copy p a b data =
     rbind (payload p) (\<lambda>pl.
     rbind (copy_from_slice pl a b data) (\<lambda>pl'.
       Inr (p\<lparr>inner := take (payload_offset p) (inner p) @ pl'\<rparr>)))"

definition new_with_payload :: "(nat \<Rightarrow> u8) \<Rightarrow> bytes \<Rightarrow> ZCPacket may_panic" where
  "new_with_payload garbage data =
     (let total_len = off_payload (get_packet_offsets (packet_type new_nic_packet)) + length data;
          ret = new_nic_packet\<lparr>inner := uninit garbage total_len\<rparr>
      in mut_payload_copy ret 0 (length data) data)"

definition new_for_tun :: "bool \<Rightarrow> (nat \<Rightarrow> u8) \<Rightarrow> nat \<Rightarrow> ZCPacket may_panic" where
  "new_for_tun chk garbage packet_info_len =
     rbind (usize_sub chk (off_payload (get_packet_offsets (packet_type new_nic_packet))) packet_info_len)
       (\<lambda>total_len. Inr (new_nic_packet\<lparr>inner := uninit garbage total_len\<rparr>))"

definition tunnel_payload :: "ZCPacket \<Rightarrow> bytes may_panic" where
  "tunnel_payload p = slice_from (inner p) (pm_offset p)"

text \<open>
  \<open>mut_peer_manager_header()\<close> and its siblings hand out a mutable view; the model takes what the
  caller does with the view as the function \<open>f\<close> and returns the packet with the view written
  back (\<open>None\<close> where the source returns \<open>None\<close>).
\<close>

definition mut_peer_manager_header ::
  "(PeerManagerHeader \<Rightarrow> PeerManagerHeader) \<Rightarrow> ZCPacket \<Rightarrow> ZCPacket option may_panic" where
  "mut_peer_manager_header f p =
     rbind (update_header_at PEER_MANAGER_HEADER_SIZE PeerManagerHeader_dec PeerManagerHeader_enc
              (pm_offset p) f (inner p))
       (\<lambda>r. Inr (map_option (\<lambda>buf. p\<lparr>inner := buf\<rparr>) r))"

definition mut_tcp_tunnel_header ::
  "(TCPTunnelHeader \<Rightarrow> TCPTunnelHeader) \<Rightarrow> ZCPacket \<Rightarrow> ZCPacket option may_panic" where
  "mut_tcp_tunnel_header f p =
     rbind (update_header_at TCP_TUNNEL_HEADER_SIZE TCPTunnelHeader_dec TCPTunnelHeader_enc
              (off_tcp (get_packet_offsets (packet_type p))) f (inner p))
       (\<lambda>r. Inr (map_option (\<lambda>buf. p\<lparr>inner := buf\<rparr>) r))"

definition mut_udp_tunnel_header ::
  "(UDPTunnelHeader \<Rightarrow> UDPTunnelHeader) \<Rightarrow> ZCPacket \<Rightarrow> ZCPacket option may_panic" where
  "mut_udp_tunnel_header f p =
     rbind (update_header_at UDP_TUNNEL_HEADER_SIZE UDPTunnelHeader_dec UDPTunnelHeader_enc
              (off_udp (get_packet_offsets (packet_type p))) f (inner p))
       (\<lambda>r. Inr (map_option (\<lambda>buf. p\<lparr>inner := buf\<rparr>) r))"

definition mut_wg_tunnel_header ::
  "(WGTunnelHeader \<Rightarrow> WGTunnelHeader) \<Rightarrow> ZCPacket \<Rightarrow> ZCPacket option may_panic" where
  "mut_wg_tunnel_header f p =
     rbind (update_header_at WG_TUNNEL_HEADER_SIZE WGTunnelHeader_dec WGTunnelHeader_enc
              (off_wg (get_packet_offsets (packet_type p))) f (inner p))
       (\<lambda>r. Inr (map_option (\<lambda>buf. p\<lparr>inner := buf\<rparr>) r))"

definition payload_bytes :: "split_past \<Rightarrow> ZCPacket \<Rightarrow> bytes may_panic" where
  "payload_bytes past p = split_off past (inner p) (payload_offset p)"

definition peer_manager_header :: "ZCPacket \<Rightarrow> PeerManagerHeader option may_panic" where
  "peer_manager_header p =
     header_at PEER_MANAGER_HEADER_SIZE PeerManagerHeader_dec (pm_offset p) (inner p)"

definition tcp_tunnel_header :: "ZCPacket \<Rightarrow> TCPTunnelHeader option may_panic" where
  "tcp_tunnel_header p =
     header_at TCP_TUNNEL_HEADER_SIZE TCPTunnelHeader_dec
       (off_tcp (get_packet_offsets (packet_type p))) (inner p)"

definition udp_tunnel_header :: "ZCPacket \<Rightarrow> UDPTunnelHeader option may_panic" where
  "udp_tunnel_header p =
     header_at UDP_TUNNEL_HEADER_SIZE UDPTunnelHeader_dec
       (off_udp (get_packet_offsets (packet_type p))) (inner p)"

definition udp_payload :: "bool \<Rightarrow> ZCPacket \<Rightarrow> bytes may_panic" where
  "udp_payload chk p =
     rbind (usize_add chk (off_udp (get_packet_offsets (packet_type p))) UDP_TUNNEL_HEADER_SIZE)
       (slice_from (inner p))"

definition payload_len :: "bool \<Rightarrow> ZCPacket \<Rightarrow> nat may_panic" where
  "payload_len chk p = usize_sub chk (length (inner p)) (payload_offset p)"

definition buf_len :: "ZCPacket \<Rightarrow> nat" where
  "buf_len p = length (inner p)"

definition fill_peer_manager_hdr ::
  "bool \<Rightarrow> u32 \<Rightarrow> u32 \<Rightarrow> u8 \<Rightarrow> ZCPacket \<Rightarrow> ZCPacket may_panic" where
  "fill_peer_manager_hdr chk from to ptype p =
     rbind (payload_len chk p) (\<lambda>n.
     rbind (mut_peer_manager_header
              (\<lambda>hdr. hdr\<lparr>from_peer_id := from, to_peer_id := to, hdr_packet_type := ptype,
                         flags := 0, forward_counter := 1, pm_len := of_nat n\<rparr>) p)
       unwrap)"

definition tunnel_payload_bytes :: "split_past \<Rightarrow> ZCPacket \<Rightarrow> bytes may_panic" where
  "tunnel_payload_bytes past p = split_off past (inner p) (pm_offset p)"

definition new_for_foreign_network ::
  "bool \<Rightarrow> (nat \<Rightarrow> u8) \<Rightarrow> bytes \<Rightarrow> u32 \<Rightarrow> ZCPacket \<Rightarrow> ZCPacket may_panic" where
  "new_for_foreign_network chk garbage network_name dst foreign_zc_packet =
     rbind (ForeignNetworkPacketHeader_new chk dst network_name) (\<lambda>fhdr.
     rbind (tunnel_payload foreign_zc_packet) (\<lambda>tp.
     (let total_payload_len = get_header_len fhdr + length tp;
          payload_off = off_payload (get_packet_offsets (packet_type new_nic_packet));
          ret = new_nic_packet\<lparr>inner := uninit garbage (payload_off + total_payload_len)\<rparr>;
          fixed_hdr_len = FOREIGN_NETWORK_HEADER_SIZE;
          name_offset = unat (network_name_offset fhdr);
          name_len = unat (network_name_len fhdr)
      in rbind (mut_payload_copy ret 0 fixed_hdr_len (ForeignNetworkPacketHeader_enc fhdr)) (\<lambda>ret.
         rbind (mut_payload_copy ret name_offset (name_offset + name_len) network_name) (\<lambda>ret.
         rbind (mut_payload_copy ret (get_header_len fhdr) total_payload_len tp) (\<lambda>ret.
         rbind (mut_peer_manager_header
                  (\<lambda>hdr. hdr\<lparr>from_peer_id := 0, to_peer_id := 0,
                             hdr_packet_type := PacketType_u8 ForeignNetworkPacket,
                             pm_len := of_nat total_payload_len\<rparr>) ret)
           unwrap))))))"

fun target_offset :: "ZCPacketType \<Rightarrow> ZCPacketOffsets \<Rightarrow> nat may_panic" where
  "target_offset TCP offs = Inr (off_tcp offs)"
| "target_offset UDP offs = Inr (off_udp offs)"
| "target_offset WG offs = Inr (off_wg offs)"
| "target_offset DummyTunnel offs = Inr (off_dummy offs)"
| "target_offset NIC offs = Inl Unreachable"

definition convert_type ::
  "(nat \<Rightarrow> u8) \<Rightarrow> split_past \<Rightarrow> ZCPacketType \<Rightarrow> ZCPacket \<Rightarrow> ZCPacket may_panic" where
  "convert_type garbage past target p =
     (if target = packet_type p then Inr p
      else rbind (target_offset target (get_packet_offsets (packet_type p))) (\<lambda>new_offset.
        if new_offset = INVALID_OFFSET then
          rbind (tunnel_payload p) (\<lambda>tp.
            let new_pm_offset = off_peer_manager (get_packet_offsets target)
            in Inr (new_from_buf (uninit garbage new_pm_offset @ tp) target))
        else rbind (split_off past (inner p) new_offset) (\<lambda>buf. Inr (new_from_buf buf target))))"

definition into_bytes :: "ZCPacket \<Rightarrow> bytes" where
  "into_bytes p = inner p"

definition is_lossy :: "ZCPacket \<Rightarrow> bool may_panic" where
  "is_lossy p =
     rbind (peer_manager_header p) (\<lambda>h.
       Inr (case h of Some hdr \<Rightarrow> hdr_packet_type hdr = PacketType_u8 Data | None \<Rightarrow> False))"

definition foreign_network_hdr :: "ZCPacket \<Rightarrow> ForeignNetworkPacketHeader option may_panic" where
  "foreign_network_hdr p =
     rbind (peer_manager_header p) (\<lambda>h. rbind (unwrap h) (\<lambda>hdr.
       if hdr_packet_type hdr = PacketType_u8 ForeignNetworkPacket
       then rbind (payload p) (\<lambda>pl.
              Inr (ref_from_prefix FOREIGN_NETWORK_HEADER_SIZE ForeignNetworkPacketHeader_dec pl))
       else Inr None))"

definition foreign_network_packet :: "split_past \<Rightarrow> ZCPacket \<Rightarrow> ZCPacket may_panic" where
  "foreign_network_packet past p =
     rbind (foreign_network_hdr p) (\<lambda>h. rbind (unwrap h) (\<lambda>hdr.
     rbind (split_off past (inner p) (get_header_len hdr + payload_offset p)) (\<lambda>buf.
       Inr (new_from_buf buf DummyTunnel))))"

definition get_src_peer_id :: "ZCPacket \<Rightarrow> u32 option may_panic" where
  "get_src_peer_id p = rbind (peer_manager_header p) (\<lambda>h. Inr (map_option from_peer_id h))"

definition get_dst_peer_id :: "ZCPacket \<Rightarrow> u32 option may_panic" where
  "get_dst_peer_id p = rbind (peer_manager_header p) (\<lambda>h. Inr (map_option to_peer_id h))"

section \<open>Correctness of the packet buffer\<close>

text \<open>A packet is well formed when its buffer reaches at least to the payload offset.\<close>

definition wf_packet :: "ZCPacket \<Rightarrow> bool" where
  "wf_packet p \<longleftrightarrow> payload_offset p \<le> length (inner p)"

lemma payload_offset_pm: "payload_offset p = pm_offset p + PEER_MANAGER_HEADER_SIZE"
  by (simp add: payload_offset_def payload_after_header)

lemma wf_packet_views:
  assumes "wf_packet p"
  shows "payload p = Inr (drop (pm_offset p + PEER_MANAGER_HEADER_SIZE) (inner p))"
    and "tunnel_payload p = Inr (drop (pm_offset p) (inner p))"
    and "peer_manager_header p = Inr (Some (PeerManagerHeader_dec (drop (pm_offset p) (inner p))))"
  using assms
  by (auto simp: wf_packet_def payload_offset_pm payload_def tunnel_payload_def
      peer_manager_header_def slice_from_def pm_hdr.header_at_in_range)

text \<open>The three views of a packet that the rest of the program reads.\<close>

definition same_content :: "ZCPacket \<Rightarrow> ZCPacket \<Rightarrow> bool" where
  "same_content p q \<longleftrightarrow>
     tunnel_payload q = tunnel_payload p \<and> payload q = payload p \<and>
     peer_manager_header q = peer_manager_header p"

lemma same_contentI:
  assumes "wf_packet p" and "wf_packet q"
    and "drop (pm_offset q) (inner q) = drop (pm_offset p) (inner p)"
  shows "same_content p q"
  using assms(3) unfolding same_content_def wf_packet_views [OF assms(1)] wf_packet_views [OF assms(2)]
  by (simp add: add.commute flip: drop_drop)

lemma INVALID_OFFSET_big: "n < 2 ^ 32 \<Longrightarrow> n \<noteq> INVALID_OFFSET"
  by (simp add: INVALID_OFFSET_def usize_MAX_def)

lemma target_offset_cases:
  assumes "target \<noteq> t" and "target \<noteq> NIC"
  obtains (invalid) "target_offset target (get_packet_offsets t) = Inr INVALID_OFFSET"
  | (split) n where "target_offset target (get_packet_offsets t) = Inr n" and "n \<noteq> INVALID_OFFSET"
      and "off_peer_manager (get_packet_offsets t) = n + off_peer_manager (get_packet_offsets target)"
  using assms
  by (cases t; cases target) (simp_all add: offset_defs INVALID_OFFSET_big)

lemma convert_type_keeps:
  assumes wf: "wf_packet p" and target: "target \<noteq> NIC \<or> target = packet_type p"
  shows "\<exists>q. convert_type garbage past target p = Inr q \<and> packet_type q = target \<and>
             wf_packet q \<and> same_content p q"
proof (cases "target = packet_type p")
  case True
  then show ?thesis
    using wf by (simp add: convert_type_def same_content_def)
next
  case False
  with target have nn: "target \<noteq> NIC" by simp
  from False nn show ?thesis
  proof (cases rule: target_offset_cases [of target "packet_type p"])
    case invalid
    let ?q = "new_from_buf (uninit garbage (off_peer_manager (get_packet_offsets target)) @
                drop (pm_offset p) (inner p)) target"
    have "convert_type garbage past target p = Inr ?q"
      using False invalid by (simp add: convert_type_def wf_packet_views [OF wf])
    moreover have "wf_packet ?q"
      using wf by (simp add: wf_packet_def payload_offset_pm new_from_buf_def)
    moreover have "drop (pm_offset ?q) (inner ?q) = drop (pm_offset p) (inner p)"
      by (simp add: new_from_buf_def)
    ultimately show ?thesis
      using same_contentI [OF wf] by (simp add: new_from_buf_def)
  next
    case (split n)
    let ?q = "new_from_buf (drop n (inner p)) target"
    have "n \<le> length (inner p)"
      using wf split by (simp add: wf_packet_def payload_offset_pm)
    then have "convert_type garbage past target p = Inr ?q"
      using False split by (simp add: convert_type_def split_off_def)
    moreover have "wf_packet ?q"
      using wf split by (simp add: wf_packet_def payload_offset_pm new_from_buf_def)
    moreover have "drop (pm_offset ?q) (inner ?q) = drop (pm_offset p) (inner p)"
      using split by (simp add: new_from_buf_def add.commute)
    ultimately show ?thesis
      using same_contentI [OF wf] by (simp add: new_from_buf_def)
  qed
qed


text \<open>
  C1: converting a packet between tunnel types never loses content. For every well-formed packet
  and every target other than the type reserved for the local device (or the packet's own type),
  the conversion returns, the result has the target type and is well formed, and its peer manager
  header, payload and tunnel payload are those of the original, whether the buffer is split in
  place or copied because the new header does not fit.
\<close>

theorem convert_type_preserves:
  assumes wf: "wf_packet p" and target: "target \<noteq> NIC \<or> target = packet_type p"
  shows "\<exists>q. convert_type garbage past target p = Inr q \<and> packet_type q = target \<and>
             wf_packet q \<and> same_content p q"
  using assms by (rule convert_type_keeps)

theorem convert_type_preserves_witness:
  "\<exists>q. convert_type (\<lambda>_. 0) (\<lambda>_ _. Inl IndexOutOfRange) WG \<lparr>inner = replicate 24 7, packet_type = UDP\<rparr> = Inr q \<and>
       packet_type q = WG \<and> wf_packet q \<and>
       same_content \<lparr>inner = replicate 24 7, packet_type = UDP\<rparr> q"
  by (rule convert_type_preserves)
    (simp_all add: wf_packet_def payload_offset_def header_sizes)

lemma mut_peer_manager_header_in_range:
  "wf_packet p \<Longrightarrow>
   mut_peer_manager_header f p =
     Inr (Some (p\<lparr>inner := take (pm_offset p) (inner p) @
        PeerManagerHeader_enc (f (PeerManagerHeader_dec (drop (pm_offset p) (inner p)))) @
        drop (pm_offset p + PEER_MANAGER_HEADER_SIZE) (inner p)\<rparr>))"
  by (simp add: mut_peer_manager_header_def wf_packet_def payload_offset_pm
      pm_hdr.update_header_at_in_range)

lemma mut_payload_copy_in_range:
  assumes "inner p = pre @ pl" and "length pre = payload_offset p"
    and "a \<le> b" and "b \<le> length pl" and "length data = b - a"
  shows "mut_payload_copy p a b data = Inr (p\<lparr>inner := pre @ take a pl @ data @ drop b pl\<rparr>)"
  using assms by (simp add: mut_payload_copy_def payload_def slice_from_def copy_from_slice_def)

text \<open>
  Filling the peer manager header of a well-formed packet returns in both builds; the header
  then reads back exactly the given peers and packet type, no flag, one forward hop and the payload
  length (truncated to 32 bits); the payload and the tunnel header bytes in front are untouched.
\<close>

theorem fill_peer_manager_hdr_ok:
  assumes wf: "wf_packet p" and pl: "payload p = Inr data"
  shows "\<exists>q. fill_peer_manager_hdr chk from to ptype p = Inr q \<and>
     (\<exists>r. peer_manager_header q =
        Inr (Some \<lparr>from_peer_id = from, to_peer_id = to, hdr_packet_type = ptype, flags = 0,
                   forward_counter = 1, reserved = r, pm_len = of_nat (length data)\<rparr>)) \<and>
     payload q = Inr data \<and> packet_type q = packet_type p \<and> wf_packet q \<and>
     take (pm_offset p) (inner q) = take (pm_offset p) (inner p)"
proof -
  let ?h = "PeerManagerHeader_dec (drop (pm_offset p) (inner p))"
  let ?h' = "\<lparr>from_peer_id = from, to_peer_id = to, hdr_packet_type = ptype, flags = 0,
              forward_counter = 1, reserved = reserved ?h, pm_len = of_nat (length data)\<rparr>"
  let ?buf = "take (pm_offset p) (inner p) @ PeerManagerHeader_enc ?h' @
              drop (pm_offset p + PEER_MANAGER_HEADER_SIZE) (inner p)"
  let ?q = "p\<lparr>inner := ?buf\<rparr>"
  have d: "data = drop (pm_offset p + PEER_MANAGER_HEADER_SIZE) (inner p)"
    using pl wf_packet_views(1) [OF wf] by simp
  have len: "pm_offset p + PEER_MANAGER_HEADER_SIZE \<le> length (inner p)"
    using wf by (simp add: wf_packet_def payload_offset_pm)
  have h': "?h\<lparr>from_peer_id := from, to_peer_id := to, hdr_packet_type := ptype, flags := 0,
                forward_counter := 1, pm_len := of_nat (length data)\<rparr> = ?h'"
    by (rule PeerManagerHeader.equality) simp_all
  have "payload_len chk p = Inr (length data)"
    using len d by (simp add: payload_len_def payload_offset_pm panic_simps)
  then have fill: "fill_peer_manager_hdr chk from to ptype p = Inr ?q"
    by (simp add: fill_peer_manager_hdr_def mut_peer_manager_header_in_range [OF wf] h')
  have wfq: "wf_packet ?q"
    using len by (simp add: wf_packet_def payload_offset_pm)
  have "peer_manager_header ?q = Inr (Some ?h')"
    using len by (simp add: peer_manager_header_def pm_hdr.header_at_middle)
  moreover have "payload ?q = Inr data"
    using wf_packet_views(1) [OF wfq] d len by simp
  ultimately show ?thesis
    using fill wfq len by (intro exI [of _ ?q]) auto
qed

theorem fill_peer_manager_hdr_ok_witness:
  "\<exists>q. fill_peer_manager_hdr True 3 4 8 \<lparr>inner = replicate 16 0 @ [1, 2], packet_type = DummyTunnel\<rparr> = Inr q \<and>
     (\<exists>r. peer_manager_header q =
        Inr (Some \<lparr>from_peer_id = 3, to_peer_id = 4, hdr_packet_type = 8, flags = 0,
                   forward_counter = 1, reserved = r, pm_len = of_nat (length [1, 2 :: u8])\<rparr>)) \<and>
     payload q = Inr [1, 2] \<and> packet_type q = DummyTunnel \<and> wf_packet q \<and>
     take 0 (inner q) = take 0 (replicate 16 0 @ [1, 2 :: u8])"
  using fill_peer_manager_hdr_ok
    [of "\<lparr>inner = replicate 16 0 @ [1, 2], packet_type = DummyTunnel\<rparr>" "[1, 2]" True 3 4 8]
  by (simp add: wf_packet_def payload_def payload_offset_def slice_from_def header_sizes)

lemma new_with_payload_eq:
  "new_with_payload garbage data =
     Inr \<lparr>inner = uninit garbage PAYLOAD_OFFSET_FOR_NIC_PACKET @ data, packet_type = NIC\<rparr>"
proof -
  let ?n = "PAYLOAD_OFFSET_FOR_NIC_PACKET"
  let ?p = "\<lparr>inner = uninit garbage (?n + length data), packet_type = NIC\<rparr>"
  have split: "uninit garbage (?n + length data) =
      uninit garbage ?n @ map garbage [?n..<?n + length data]"
    unfolding uninit_def upt_add_eq_append [OF le0] map_append ..
  have "mut_payload_copy ?p 0 (length data) data =
      Inr (?p\<lparr>inner := uninit garbage ?n @ take 0 (map garbage [?n..<?n + length data]) @ data @
        drop (length data) (map garbage [?n..<?n + length data])\<rparr>)"
    by (rule mut_payload_copy_in_range) (simp_all add: split payload_offset_def)
  then show ?thesis
    by (simp add: new_with_payload_def new_nic_packet_def)
qed

section \<open>Foreign network encapsulation\<close>

abbreviation foreign_header :: "u32 \<Rightarrow> bytes \<Rightarrow> ForeignNetworkPacketHeader" where
  "foreign_header dst name \<equiv>
     \<lparr>header_len = 10 + of_nat (length name), dst_peer_id = dst,
      network_name_offset = 10, network_name_len = of_nat (length name)\<rparr>"

lemma unat_of_nat_u16: "n < 65536 \<Longrightarrow> unat (of_nat n :: u16) = n"
  by (simp add: unat_of_nat)

lemma unat_foreign_header_len: "10 + n < 65536 \<Longrightarrow> unat (10 + of_nat n :: u16) = 10 + n"
  using unat_of_nat_u16 [of "10 + n"] by simp

lemma ForeignNetworkPacketHeader_new_eq:
  assumes "10 + length name < 65536"
  shows "ForeignNetworkPacketHeader_new chk dst name = Inr (foreign_header dst name)"
  using assms
  by (simp add: ForeignNetworkPacketHeader_new_def uadd_def unat_of_nat_u16 header_sizes Let_def)

text \<open>The buffer of an encapsulated packet: 20 spare bytes, the four parts in order.\<close>

lemma new_for_foreign_network_buffer:
  assumes len: "10 + length name < 65536" and tp: "tunnel_payload fp = Inr tp"
  shows "\<exists>pre hdr. new_for_foreign_network chk garbage name dst fp =
      Inr \<lparr>inner = pre @ PeerManagerHeader_enc hdr @
             ForeignNetworkPacketHeader_enc (foreign_header dst name) @ name @ tp,
           packet_type = NIC\<rparr> \<and>
      length pre = 20 \<and> hdr_packet_type hdr = PacketType_u8 ForeignNetworkPacket \<and>
      pm_len hdr = of_nat (10 + length name + length tp)"
proof -
  let ?fh = "foreign_header dst name"
  let ?hl = "10 + length name"
  let ?pre = "uninit garbage 36"
  let ?n = "46 + (length name + length tp)"
  let ?g = "map garbage [36..<?n]"
  let ?pkt = "\<lambda>b. \<lparr>inner = ?pre @ b, packet_type = NIC\<rparr>"
  have un: "uninit garbage ?n = ?pre @ ?g"
    using upt_add_eq_append [OF le0, of 36 "10 + (length name + length tp)"]
    by (simp add: uninit_def)
  have hl: "get_header_len ?fh = ?hl" and nl: "unat (of_nat (length name) :: u16) = length name"
    using len by (simp_all add: get_header_len_def unat_of_nat_u16 unat_foreign_header_len)
  have c1: "mut_payload_copy (?pkt ?g) 0 10 (ForeignNetworkPacketHeader_enc ?fh) =
      Inr (?pkt (ForeignNetworkPacketHeader_enc ?fh @ drop 10 ?g))"
    by (subst mut_payload_copy_in_range [of _ ?pre ?g])
      (simp_all add: payload_offset_def nic_offset header_sizes(5))
  have c2: "mut_payload_copy (?pkt (ForeignNetworkPacketHeader_enc ?fh @ drop 10 ?g)) 10 ?hl name =
      Inr (?pkt (ForeignNetworkPacketHeader_enc ?fh @ name @ drop ?hl ?g))"
    by (subst mut_payload_copy_in_range [of _ ?pre "ForeignNetworkPacketHeader_enc ?fh @ drop 10 ?g"])
      (simp_all add: payload_offset_def nic_offset header_sizes(5) add.commute)
  have c3: "mut_payload_copy (?pkt (ForeignNetworkPacketHeader_enc ?fh @ name @ drop ?hl ?g)) ?hl
        (?hl + length tp) tp = Inr (?pkt (ForeignNetworkPacketHeader_enc ?fh @ name @ tp))"
    by (subst mut_payload_copy_in_range [of _ ?pre "ForeignNetworkPacketHeader_enc ?fh @ name @ drop ?hl ?g"])
      (simp_all add: payload_offset_def nic_offset header_sizes(5))
  have wf: "wf_packet (?pkt (ForeignNetworkPacketHeader_enc ?fh @ name @ tp))"
    by (simp add: wf_packet_def payload_offset_def nic_offset)
  show ?thesis
    unfolding new_for_foreign_network_def ForeignNetworkPacketHeader_new_eq [OF len] tp
    by (simp add: Let_def new_nic_packet_def hl nl header_sizes(5) nic_offset un c1 c2 c3
        mut_peer_manager_header_in_range [OF wf] header_sizes(4) del: of_nat_add)
      (rule exI, rule conjI [OF refl], simp)
qed

text \<open>
  C2: wrapping a packet for a foreign network and unwrapping it again is the identity on what
  the packet carries. For a valid UTF-8 network name whose header still fits 16 bits, the wrapped
  packet's foreign header yields the destination peer and the network name, and the unwrapped
  packet is a header-less tunnel packet whose bytes are the peer manager header and payload of the
  original.
\<close>

theorem foreign_network_roundtrip:
  assumes wf: "wf_packet fp" and len: "10 + length name < 65536" and utf: "valid_utf8 name"
  shows "\<exists>p fh pl q. new_for_foreign_network chk garbage name dst fp = Inr p \<and>
     foreign_network_hdr p = Inr (Some fh) \<and> get_dst_peer_id_foreign fh = dst \<and>
     payload p = Inr pl \<and> get_network_name fh pl = Inr name \<and>
     foreign_network_packet past p = Inr q \<and> packet_type q = DummyTunnel \<and>
     tunnel_payload fp = Inr (inner q) \<and> same_content fp q"
proof -
  obtain tp where tp: "tunnel_payload fp = Inr tp" and tpd: "tp = drop (pm_offset fp) (inner fp)"
    using wf_packet_views(2) [OF wf] by simp
  obtain pre hdr where new: "new_for_foreign_network chk garbage name dst fp =
      Inr \<lparr>inner = pre @ PeerManagerHeader_enc hdr @
             ForeignNetworkPacketHeader_enc (foreign_header dst name) @ name @ tp,
           packet_type = NIC\<rparr>" (is "_ = Inr ?p")
    and pre: "length pre = 20" and hdr: "hdr_packet_type hdr = PacketType_u8 ForeignNetworkPacket"
    using new_for_foreign_network_buffer [OF len tp] by blast
  let ?fh = "foreign_header dst name"
  let ?pl = "ForeignNetworkPacketHeader_enc ?fh @ name @ tp"
  have lens: "length (PeerManagerHeader_enc hdr) = 16" "length (ForeignNetworkPacketHeader_enc ?fh) = 10"
    using pm_hdr.length_enc foreign_hdr.length_enc by (simp_all add: header_sizes)
  have pl: "payload ?p = Inr ?pl"
    using pre lens by (simp add: payload_def payload_offset_def nic_offset slice_from_def)
  have pmo: "off_peer_manager (get_packet_offsets NIC) = 20"
    by (simp add: nic_offset header_sizes)
  have pm: "peer_manager_header ?p = Inr (Some hdr)"
    using pm_hdr.header_at_middle [OF pre] pmo by (simp add: peer_manager_header_def)
  have fh: "foreign_network_hdr ?p = Inr (Some ?fh)"
    by (simp add: foreign_network_hdr_def pm pl hdr foreign_hdr.ref_from_prefix_enc)
  have hl: "get_header_len ?fh = 10 + length name"
    using len by (simp add: get_header_len_def unat_foreign_header_len)
  have nm: "get_network_name ?fh ?pl = Inr name"
    using len utf
    by (simp add: get_network_name_def unat_of_nat_u16 subslice_def from_utf8_unwrap_def Let_def
        header_sizes(5))
  let ?q = "new_from_buf tp DummyTunnel"
  have unwrap: "foreign_network_packet past ?p = Inr ?q"
    using pre lens by (simp add: foreign_network_packet_def fh hl split_off_def payload_offset_def nic_offset)
  have "wf_packet ?q"
    using wf by (simp add: tpd wf_packet_def payload_offset_pm new_from_buf_def)
  then have "same_content fp ?q"
    by (intro same_contentI [OF wf]) (simp_all add: tpd new_from_buf_def)
  then show ?thesis
    using new fh pl nm unwrap tp by (auto simp: get_dst_peer_id_foreign_def new_from_buf_def)
qed

theorem foreign_network_roundtrip_witness:
  "\<exists>p fh pl q. new_for_foreign_network True (\<lambda>_. 9) [110, 101, 116] 7
       \<lparr>inner = replicate 40 1, packet_type = NIC\<rparr> = Inr p \<and>
     foreign_network_hdr p = Inr (Some fh) \<and> get_dst_peer_id_foreign fh = 7 \<and>
     payload p = Inr pl \<and> get_network_name fh pl = Inr [110, 101, 116] \<and>
     foreign_network_packet (\<lambda>_ _. Inl IndexOutOfRange) p = Inr q \<and> packet_type q = DummyTunnel \<and>
     tunnel_payload \<lparr>inner = replicate 40 1, packet_type = NIC\<rparr> = Inr (inner q) \<and>
     same_content \<lparr>inner = replicate 40 1, packet_type = NIC\<rparr> q"
  by (rule foreign_network_roundtrip)
    (simp_all add: wf_packet_def payload_offset_def nic_offset utf8_width_def)

section \<open>Packets taken apart\<close>

text \<open>
  Every well-formed packet is a tunnel header area, a peer manager header and a payload; the
  operations of the packet act on these three parts.
\<close>

definition mk_packet :: "ZCPacketType \<Rightarrow> bytes \<Rightarrow> PeerManagerHeader \<Rightarrow> bytes \<Rightarrow> ZCPacket" where
  "mk_packet t pre h pl = \<lparr>inner = pre @ PeerManagerHeader_enc h @ pl, packet_type = t\<rparr>"

named_theorems packet_simps \<open>operations on packets taken apart\<close>

lemma wf_packet_obtain:
  assumes "wf_packet p"
  obtains pre h pl where "p = mk_packet (packet_type p) pre h pl" and "length pre = pm_offset p"
    and "peer_manager_header p = Inr (Some h)" and "payload p = Inr pl"
proof -
  have le: "pm_offset p + PEER_MANAGER_HEADER_SIZE \<le> length (inner p)"
    using assms by (simp add: wf_packet_def payload_offset_pm)
  show thesis
    by (rule that [of "take (pm_offset p) (inner p)" "PeerManagerHeader_dec (drop (pm_offset p) (inner p))"
          "drop (pm_offset p + PEER_MANAGER_HEADER_SIZE) (inner p)"])
      (use pm_hdr.buffer_split [OF le] le wf_packet_views [OF assms] in \<open>simp_all add: mk_packet_def\<close>)
qed

abbreviation hdr_space :: "ZCPacketType \<Rightarrow> bytes \<Rightarrow> bool" where
  "hdr_space t pre \<equiv> length pre = off_peer_manager (get_packet_offsets t)"

lemma mk_payload_offset [packet_simps]:
  "hdr_space t pre \<Longrightarrow> payload_offset (mk_packet t pre h pl) = length pre + PEER_MANAGER_HEADER_SIZE"
  by (simp add: mk_packet_def payload_offset_pm)

lemma mk_payload [packet_simps]: "hdr_space t pre \<Longrightarrow> payload (mk_packet t pre h pl) = Inr pl"
  using mk_payload_offset by (simp add: payload_def slice_from_def) (simp add: mk_packet_def)

lemma mk_header [packet_simps]:
  "hdr_space t pre \<Longrightarrow> peer_manager_header (mk_packet t pre h pl) = Inr (Some h)"
  by (simp add: peer_manager_header_def mk_packet_def pm_hdr.header_at_middle)

lemma mk_wf [packet_simps]: "hdr_space t pre \<Longrightarrow> wf_packet (mk_packet t pre h pl)"
  by (simp add: wf_packet_def mk_payload_offset) (simp add: mk_packet_def)

lemma mk_packet_type [simp]: "packet_type (mk_packet t pre h pl) = t"
  by (simp add: mk_packet_def)

lemma mk_length [packet_simps]:
  "length (inner (mk_packet t pre h pl)) = length pre + PEER_MANAGER_HEADER_SIZE + length pl"
  by (simp add: mk_packet_def)

lemma mk_mut_header [packet_simps]:
  assumes "hdr_space t pre"
  shows "mut_peer_manager_header f (mk_packet t pre h pl) = Inr (Some (mk_packet t pre (f h) pl))"
proof -
  have "drop (length pre) (inner (mk_packet t pre h pl)) = PeerManagerHeader_enc h @ pl"
    and "take (length pre) (inner (mk_packet t pre h pl)) = pre"
    and "drop (length pre + PEER_MANAGER_HEADER_SIZE) (inner (mk_packet t pre h pl)) = pl"
    by (simp_all add: mk_packet_def)
  with mut_peer_manager_header_in_range [OF mk_wf [OF assms]] assms show ?thesis
    by (simp add: mk_packet_def)
qed

text \<open>Writing the whole payload, cutting the buffer behind the payload offset, appending to it.\<close>

definition put_payload :: "ZCPacket \<Rightarrow> bytes \<Rightarrow> ZCPacket" where
  "put_payload p pl = p\<lparr>inner := take (payload_offset p) (inner p) @ pl\<rparr>"

definition truncate_inner :: "ZCPacket \<Rightarrow> nat \<Rightarrow> ZCPacket" where
  "truncate_inner p n = p\<lparr>inner := take n (inner p)\<rparr>"

definition extend_inner :: "ZCPacket \<Rightarrow> bytes \<Rightarrow> ZCPacket" where
  "extend_inner p bs = p\<lparr>inner := inner p @ bs\<rparr>"

lemma mk_put_payload [packet_simps]:
  "hdr_space t pre \<Longrightarrow> put_payload (mk_packet t pre h pl) pl' = mk_packet t pre h pl'"
  by (simp add: put_payload_def mk_payload_offset) (simp add: mk_packet_def)

lemma mk_extend_inner [packet_simps]: "extend_inner (mk_packet t pre h pl) bs = mk_packet t pre h (pl @ bs)"
  by (simp add: extend_inner_def mk_packet_def)

lemma mk_truncate_inner [packet_simps]:
  "truncate_inner (mk_packet t pre h pl) (length pre + PEER_MANAGER_HEADER_SIZE + n) =
     mk_packet t pre h (take n pl)"
  by (simp add: truncate_inner_def mk_packet_def)

lemma mk_fill_hdr [packet_simps]:
  assumes "hdr_space t pre"
  shows "fill_peer_manager_hdr chk from to ptype (mk_packet t pre h pl) =
    Inr (mk_packet t pre (h\<lparr>from_peer_id := from, to_peer_id := to, hdr_packet_type := ptype,
                            flags := 0, forward_counter := 1, pm_len := of_nat (length pl)\<rparr>) pl)"
proof -
  have "payload_len chk (mk_packet t pre h pl) = Inr (length pl)"
    using assms by (simp add: payload_len_def mk_payload_offset mk_length panic_simps)
  then show ?thesis
    by (simp add: fill_peer_manager_hdr_def mk_mut_header [OF assms])
qed

lemma new_with_payload_parts:
  obtains pre h where "new_with_payload garbage data = Inr (mk_packet NIC pre h data)" and "hdr_space NIC pre"
proof -
  let ?p = "\<lparr>inner = uninit garbage PAYLOAD_OFFSET_FOR_NIC_PACKET @ data, packet_type = NIC\<rparr>"
  have off: "payload_offset ?p = PAYLOAD_OFFSET_FOR_NIC_PACKET"
    by (simp add: payload_offset_def PAYLOAD_OFFSET_FOR_NIC_PACKET_def)
  have "wf_packet ?p" and "payload ?p = Inr data"
    using off by (simp_all add: wf_packet_def payload_def slice_from_def uninit_def)
  from wf_packet_obtain [OF this(1)] this(2) obtain pre h
    where "?p = mk_packet NIC pre h data" and "length pre = pm_offset ?p"
    by (metis Inr_inject ZCPacket.select_convs(2))
  with that [of pre h] show ?thesis
    by (simp add: new_with_payload_eq)
qed

end
