(* ===== verification/Compressor.thy ===== *)
theory Compressor
  imports Packet_Def
begin

text \<open>
  Payload compression, \<open>src/easytier/src/common/compressor.rs\<close>. The zstd library is a pair of
  parameters: \<open>zc\<close> compresses a byte string or fails, \<open>zd\<close> decompresses into a buffer of a given
  capacity and either succeeds, reports that the buffer is too small, or fails. What the code
  relies on is the documented contract \<open>zstd_laws\<close>. Errors leave the packet as it was; the result
  of an operation is the returned value and the packet afterwards.
\<close>

datatype comp_error =
    CompressFailed
  | DecompressFailed
  | AttemptsExhausted
  | PacketTooShortC nat
  | UnknownAlgo u8
  | LengthMismatch nat u32

datatype zstd_result = DecOk bytes | DecTooSmall | DecErr

type_synonym zstd_compress = "bytes \<Rightarrow> comp_error + bytes"
type_synonym zstd_decompress = "bytes \<Rightarrow> nat \<Rightarrow> zstd_result"

definition compress_raw :: "zstd_compress \<Rightarrow> bytes \<Rightarrow> CompressorAlgo \<Rightarrow> comp_error + bytes" where
  "compress_raw zc data a = (case a of ZstdDefault \<Rightarrow> zc data | CompressNone \<Rightarrow> Inr data)"

text \<open>The capacity tried in round \<open>i\<close>, and the rounds in order.\<close>

definition decompress_cap :: "nat \<Rightarrow> bytes \<Rightarrow> nat" where
  "decompress_cap i data =
     (let len = length data * 2 ^ i in if i = 5 \<and> len < 64 * 1024 then 64 * 1024 else len)"

fun decompress_rounds :: "zstd_decompress \<Rightarrow> bytes \<Rightarrow> nat list \<Rightarrow> comp_error + bytes" where
  "decompress_rounds zd data [] = Inl AttemptsExhausted"
| "decompress_rounds zd data (i # is) =
     (case zd data (decompress_cap i data) of
        DecOk buf \<Rightarrow> Inr buf
      | DecTooSmall \<Rightarrow> decompress_rounds zd data is
      | DecErr \<Rightarrow> Inl DecompressFailed)"

definition decompress_raw :: "zstd_decompress \<Rightarrow> bytes \<Rightarrow> CompressorAlgo \<Rightarrow> comp_error + bytes" where
  "decompress_raw zd data a =
     (case a of ZstdDefault \<Rightarrow> decompress_rounds zd data [1, 2, 3, 4, 5] | CompressNone \<Rightarrow> Inr data)"

text \<open>\<open>CompressorTail\<close> is one byte; \<open>ref_from_suffix\<close> reads the last bytes of the payload.\<close>

definition CompressorTail_enc :: "CompressorTail \<Rightarrow> bytes" where
  "CompressorTail_enc t = [algo t]"

definition CompressorTail_from_suffix :: "bytes \<Rightarrow> CompressorTail option" where
  "CompressorTail_from_suffix bs =
     (if length bs < COMPRESSOR_TAIL_SIZE then None else Some \<lparr>algo = bs ! (length bs - 1)\<rparr>)"

type_synonym comp_result = "((comp_error + unit) \<times> ZCPacket) may_panic"

definition compress :: "zstd_compress \<Rightarrow> ZCPacket \<Rightarrow> CompressorAlgo \<Rightarrow> comp_result" where
  "compress zc p compress_algo =
     (if compress_algo = CompressNone then Inr (Inr (), p)
      else rbind (peer_manager_header p) (\<lambda>ho. rbind (unwrap ho) (\<lambda>pm_header.
        if is_compressed pm_header then Inr (Inr (), p)
        else rbind (payload p) (\<lambda>pl.
          case compress_raw zc pl compress_algo of
            Inl e \<Rightarrow> Inr (Inl e, p)
          | Inr buf \<Rightarrow>
              if length buf + COMPRESSOR_TAIL_SIZE > unat (pm_len pm_header) then Inr (Inr (), p)
              else rbind (mut_peer_manager_header (\<lambda>h. set_compressed h True) p) (\<lambda>po.
                   rbind (unwrap po) (\<lambda>p.
                   (let p = truncate_inner p (payload_offset p);
                        p = extend_inner p buf;
                        p = extend_inner p (CompressorTail_enc (CompressorTail_new compress_algo))
                    in Inr (Inr (), p))))))))"

definition decompress :: "zstd_decompress \<Rightarrow> ZCPacket \<Rightarrow> comp_result" where
  "decompress zd p =
     rbind (peer_manager_header p) (\<lambda>ho. rbind (unwrap ho) (\<lambda>pm_header.
     if \<not> is_compressed pm_header then Inr (Inr (), p)
     else rbind (payload p) (\<lambda>pl.
       let payload_len = length pl in
       if payload_len < COMPRESSOR_TAIL_SIZE then Inr (Inl (PacketTooShortC payload_len), p)
       else rbind (unwrap (CompressorTail_from_suffix pl)) (\<lambda>tail.
         case get_algo tail of
           None \<Rightarrow> Inr (Inl (UnknownAlgo (algo tail)), p)
         | Some a \<Rightarrow>
             (case decompress_raw zd (take (payload_len - COMPRESSOR_TAIL_SIZE) pl) a of
                Inl e \<Rightarrow> Inr (Inl e, p)
              | Inr buf \<Rightarrow>
                  if length buf \<noteq> unat (pm_len pm_header)
                  then Inr (Inl (LengthMismatch (length buf) (pm_len pm_header)), p)
                  else rbind (mut_peer_manager_header (\<lambda>h. set_compressed h False) p) (\<lambda>po.
                       rbind (unwrap po) (\<lambda>p.
                       (let p = truncate_inner p (payload_offset p)
                        in Inr (Inr (), extend_inner p buf)))))))))"

section \<open>The contract of the library and the reach of the retry loop\<close>

definition zstd_laws :: "zstd_compress \<Rightarrow> zstd_decompress \<Rightarrow> bool" where
  "zstd_laws zc zd \<longleftrightarrow>
     (\<forall>x y. zc x = Inr y \<longrightarrow> (\<forall>cap. zd y cap = (if length x \<le> cap then DecOk x else DecTooSmall)))"

lemma decompress_rounds_reach:
  assumes "\<And>cap. zd y cap = (if length x \<le> cap then DecOk x else DecTooSmall)"
  shows "decompress_rounds zd y is =
           (if \<exists>i\<in>set is. length x \<le> decompress_cap i y then Inr x else Inl AttemptsExhausted)"
  using assms by (induction "is") auto

lemma decompress_caps:
  "(\<exists>i\<in>set [1, 2, 3, 4, 5]. n \<le> decompress_cap i y) \<longleftrightarrow> n \<le> max (32 * length y) (64 * 1024)"
  by (auto simp: decompress_cap_def Let_def)

lemma decompress_raw_reach:
  assumes "zstd_laws zc zd" and "zc x = Inr y"
  shows "decompress_raw zd y ZstdDefault =
           (if length x \<le> max (32 * length y) (64 * 1024) then Inr x else Inl AttemptsExhausted)"
proof -
  have "\<And>cap. zd y cap = (if length x \<le> cap then DecOk x else DecTooSmall)"
    using assms by (auto simp: zstd_laws_def)
  from decompress_rounds_reach [of zd y x, OF this, of "[1, 2, 3, 4, 5]"] show ?thesis
    unfolding decompress_raw_def CompressorAlgo.case decompress_caps .
qed

section \<open>Compression is undone by decompression\<close>

lemma truncate_to_payload [packet_simps]:
  "hdr_space t pre \<Longrightarrow>
   truncate_inner (mk_packet t pre h pl) (payload_offset (mk_packet t pre h pl)) = mk_packet t pre h []"
  using mk_truncate_inner [of t pre h pl 0] by (simp add: mk_payload_offset)

text \<open>What a compression that returns without error has done.\<close>

lemma compress_cases:
  assumes sp: "hdr_space t pre" and nc: "\<not> is_compressed h"
    and run: "compress zc (mk_packet t pre h pl) a = Inr (Inr (), q)"
  obtains (unchanged) "q = mk_packet t pre h pl"
  | (compressed) buf where "a = ZstdDefault" and "zc pl = Inr buf"
      and "q = mk_packet t pre (set_compressed h True) (buf @ [1])"
  using run nc
  by (cases a)
    (auto simp: compress_def compress_raw_def mk_header [OF sp] mk_payload [OF sp] mk_mut_header [OF sp]
      truncate_to_payload [OF sp] mk_extend_inner CompressorTail_enc_def CompressorTail_new_def Let_def
      split: sum.splits if_splits)

text \<open>
  C23: decompression undoes compression. Take a well-formed packet that is not compressed, whose
  header records its payload length and whose payload is at most 64 KiB, and a zstd that satisfies
  its documented contract: whenever \<open>compress\<close> returns without error, \<open>decompress\<close> of the result
  returns the original packet bit for bit, whether the payload was really compressed or left alone
  because compression did not pay.
\<close>

theorem compress_decompress:
  assumes wf: "wf_packet p" and pl: "payload p = Inr pl" and h: "peer_manager_header p = Inr (Some h)"
    and nc: "\<not> is_compressed h" and len: "pm_len h = of_nat (length pl)" and small: "length pl \<le> 64 * 1024"
    and laws: "zstd_laws zc zd" and run: "compress zc p a = Inr (Inr (), q)"
  shows "decompress zd q = Inr (Inr (), p)"
proof -
  obtain pre where p: "p = mk_packet (packet_type p) pre h pl" and sp: "hdr_space (packet_type p) pre"
    using wf_packet_obtain [OF wf] pl h by (metis Inr_inject option.inject)
  let ?t = "packet_type p"
  have ulen: "unat (pm_len h) = length pl"
    using small by (simp add: len unat_of_nat)
  from run have run': "compress zc (mk_packet ?t pre h pl) a = Inr (Inr (), q)"
    using p by simp
  from sp nc run' show ?thesis
  proof (cases rule: compress_cases)
    case unchanged
    then show ?thesis
      using nc p h by (simp add: decompress_def)
  next
    case (compressed buf)
    have undo: "set_compressed (set_compressed h True) False = h"
      using f_comp.setf_undo [of h True] nc by simp
    have "decompress_raw zd buf ZstdDefault = Inr pl"
      using decompress_raw_reach [OF laws compressed(2)] small by simp
    moreover have "pm_len (set_compressed h True) = pm_len h"
      by (subst f_comp.setf_frame) simp
    ultimately have "decompress zd q = Inr (Inr (), mk_packet ?t pre h pl)"
      using compressed(3) ulen
      by (simp add: decompress_def mk_header [OF sp] mk_payload [OF sp] mk_mut_header [OF sp]
          truncate_to_payload [OF sp] mk_extend_inner CompressorTail_from_suffix_def get_algo_def
          undo header_sizes Let_def)
    then show ?thesis using p by simp
  qed
qed

theorem compress_decompress_witness:
  defines "h \<equiv> \<lparr>from_peer_id = 1, to_peer_id = 2, hdr_packet_type = 1, flags = 0, forward_counter = 1,
                reserved = 0, pm_len = 20\<rparr>"
  defines "zc \<equiv> (\<lambda>x :: bytes. if x = replicate 20 7 then Inr [9 :: u8] else Inl CompressFailed)"
  defines "zd \<equiv> (\<lambda>(y :: bytes) cap. if 20 \<le> cap then DecOk (replicate 20 7) else DecTooSmall)"
  shows "decompress zd (mk_packet DummyTunnel [] (set_compressed h True) [9, 1]) =
           Inr (Inr (), mk_packet DummyTunnel [] h (replicate 20 7))"
proof -
  have sp: "hdr_space DummyTunnel []" by simp
  have nc: "\<not> is_compressed h"
    by (simp add: h_def is_compressed_def flags_contains_def COMPRESSED_def)
  show ?thesis
  proof (rule compress_decompress [OF mk_wf [OF sp] mk_payload [OF sp] mk_header [OF sp] nc])
    show "zstd_laws zc zd" by (auto simp: zstd_laws_def zc_def zd_def split: if_splits)
    show "compress zc (mk_packet DummyTunnel [] h (replicate 20 7)) ZstdDefault =
        Inr (Inr (), mk_packet DummyTunnel [] (set_compressed h True) [9, 1])"
      using nc
      by (simp add: compress_def mk_header [OF sp] mk_payload [OF sp] mk_mut_header [OF sp]
          truncate_to_payload [OF sp] mk_extend_inner compress_raw_def CompressorTail_enc_def
          CompressorTail_new_def zc_def Let_def header_sizes) (simp add: h_def)
  qed (simp_all add: h_def)
qed

end
