(* ===== verification/Encrypt.thy ===== *)
theory Encrypt
  imports Packet_Def
begin

text \<open>
  Packet encryption, \<open>src/easytier/src/peers/encrypt/\<close>: the null cipher, the XOR cipher, the
  AES-GCM and ChaCha20-Poly1305 ciphers on the ring library, AES-GCM on the aes-gcm crate, and the
  OpenSSL ciphers. The cryptographic libraries are parameters (sealing and opening in place, each
  with the bytes it leaves in the buffer), and so are the random nonces. An operation returns the
  result of the source function together with the packet afterwards, which on an error may already
  have been modified.
\<close>

datatype encrypt_error =
    PacketTooShort nat
  | DecryptionFailed
  | EncryptionFailed
  | InvalidTag bytes

type_synonym enc_result = "((encrypt_error + unit) \<times> ZCPacket) may_panic"

definition header_unwrap :: "ZCPacket \<Rightarrow> PeerManagerHeader may_panic" where
  "header_unwrap p = rbind (peer_manager_header p) unwrap"

definition mark_encrypted :: "bool \<Rightarrow> ZCPacket \<Rightarrow> ZCPacket may_panic" where
  "mark_encrypted b p = rbind (mut_peer_manager_header (\<lambda>h. set_encrypted h b) p) unwrap"

section \<open>Null cipher\<close>

definition NullCipher_encrypt :: "ZCPacket \<Rightarrow> enc_result" where
  "NullCipher_encrypt p = Inr (Inr (), p)"

definition NullCipher_decrypt :: "ZCPacket \<Rightarrow> enc_result" where
  "NullCipher_decrypt p =
     rbind (header_unwrap p) (\<lambda>pm_header.
       if is_encrypted pm_header then Inr (Inl DecryptionFailed, p) else Inr (Inr (), p))"

section \<open>XOR cipher\<close>

definition XorCipher_new :: "bytes \<Rightarrow> bytes may_panic" where
  "XorCipher_new key = (if key = [] then Inl ExplicitPanic else Inr key)"

definition xor_data :: "bytes \<Rightarrow> bytes \<Rightarrow> bytes may_panic" where
  "xor_data key data =
     (if key = [] \<and> data \<noteq> [] then Inl DivisionByZero
      else Inr (map (\<lambda>i. data ! i XOR key ! (i mod length key)) [0..<length data]))"

definition XorCipher_decrypt :: "bytes \<Rightarrow> ZCPacket \<Rightarrow> enc_result" where
  "XorCipher_decrypt key p =
     rbind (header_unwrap p) (\<lambda>pm_header.
     if \<not> is_encrypted pm_header then Inr (Inr (), p)
     else rbind (payload p) (\<lambda>pl.
          rbind (xor_data key pl) (\<lambda>pl'.
          rbind (mark_encrypted False (put_payload p pl')) (\<lambda>p. Inr (Inr (), p)))))"

definition XorCipher_encrypt :: "bytes \<Rightarrow> ZCPacket \<Rightarrow> enc_result" where
  "XorCipher_encrypt key p =
     rbind (header_unwrap p) (\<lambda>pm_header.
     if is_encrypted pm_header then Inr (Inr (), p)
     else rbind (payload p) (\<lambda>pl.
          rbind (xor_data key pl) (\<lambda>pl'.
          rbind (mark_encrypted True (put_payload p pl')) (\<lambda>p. Inr (Inr (), p)))))"

section \<open>Authenticated ciphers on the ring library\<close>

datatype AesGcmEnum = AesGCM128 bytes | AesGCM256 bytes

definition AesGcmCipher_new_128 :: "bytes \<Rightarrow> AesGcmEnum" where
  "AesGcmCipher_new_128 key = AesGCM128 key"

definition AesGcmCipher_new_256 :: "bytes \<Rightarrow> AesGcmEnum" where
  "AesGcmCipher_new_256 key = AesGCM256 key"

text \<open>
  \<open>AesGcmTail\<close> is a 16-byte tag followed by a 12-byte nonce; the tail of the ring ChaCha20 cipher
  has the same layout. \<open>seal c nonce data\<close> is the data after sealing in place and the tag, if the
  library succeeded; \<open>opn c nonce in_out\<close> is the buffer (ciphertext followed by tag) after opening
  in place and whether the tag was accepted.
\<close>

type_synonym 'c seal_in_place = "'c \<Rightarrow> bytes \<Rightarrow> bytes \<Rightarrow> bytes \<times> bytes option"
type_synonym 'c open_in_place = "'c \<Rightarrow> bytes \<Rightarrow> bytes \<Rightarrow> bytes \<times> bool"

definition AesGcmTail_enc :: "AesGcmTail \<Rightarrow> bytes" where
  "AesGcmTail_enc t = tag t @ nonce t"

definition AesGcmTail_from_suffix :: "bytes \<Rightarrow> AesGcmTail option" where
  "AesGcmTail_from_suffix bs =
     (if length bs < AES_GCM_ENCRYPTION_RESERVED then None
      else let t = drop (length bs - AES_GCM_ENCRYPTION_RESERVED) bs
           in Some \<lparr>tag = take 16 t, nonce = drop 16 t\<rparr>)"

definition AesGcm_decrypt :: "AesGcmEnum open_in_place \<Rightarrow> AesGcmEnum \<Rightarrow> ZCPacket \<Rightarrow> enc_result" where
  "AesGcm_decrypt opn cipher p =
     rbind (header_unwrap p) (\<lambda>pm_header.
     if \<not> is_encrypted pm_header then Inr (Inr (), p)
     else rbind (payload p) (\<lambda>pl.
       let payload_len = length pl in
       if payload_len < AES_GCM_ENCRYPTION_RESERVED then Inr (Inl (PacketTooShort payload_len), p)
       else
         let text_and_tag_len = payload_len - AES_GCM_ENCRYPTION_RESERVED + 16 in
         rbind (unwrap (AesGcmTail_from_suffix pl)) (\<lambda>aes_tail.
         let rs = opn cipher (nonce aes_tail) (take text_and_tag_len pl);
             p = put_payload p (fst rs @ drop text_and_tag_len pl)
         in if \<not> snd rs then Inr (Inl DecryptionFailed, p)
            else rbind (mark_encrypted False p) (\<lambda>p.
                   Inr (Inr (), truncate_inner p (buf_len p - AES_GCM_ENCRYPTION_RESERVED))))))"

definition AesGcm_encrypt ::
  "AesGcmEnum seal_in_place \<Rightarrow> bytes \<Rightarrow> AesGcmEnum \<Rightarrow> ZCPacket \<Rightarrow> enc_result" where
  "AesGcm_encrypt seal rnd cipher p =
     rbind (header_unwrap p) (\<lambda>pm_header.
     if is_encrypted pm_header then Inr (Inr (), p)
     else rbind (payload p) (\<lambda>pl.
       let rs = seal cipher rnd pl; p = put_payload p (fst rs)
       in case snd rs of
            Some tg \<Rightarrow>
              if length tg \<noteq> 16 then Inr (Inl (InvalidTag tg), p)
              else rbind (mark_encrypted True p) (\<lambda>p.
                     Inr (Inr (), extend_inner p (AesGcmTail_enc \<lparr>tag = tg, nonce = rnd\<rparr>)))
          | None \<Rightarrow> Inr (Inl EncryptionFailed, p)))"

text \<open>
  The ChaCha20 cipher has the same shape; a tag of the wrong size panics in \<open>copy_from_slice\<close>
  instead of being reported.
\<close>

definition RingChaCha20_decrypt :: "bytes open_in_place \<Rightarrow> bytes \<Rightarrow> ZCPacket \<Rightarrow> enc_result" where
  "RingChaCha20_decrypt opn key p =
     rbind (header_unwrap p) (\<lambda>pm_header.
     if \<not> is_encrypted pm_header then Inr (Inr (), p)
     else rbind (payload p) (\<lambda>pl.
       let payload_len = length pl in
       if payload_len < AES_GCM_ENCRYPTION_RESERVED then Inr (Inl (PacketTooShort payload_len), p)
       else
         let text_and_tag_len = payload_len - AES_GCM_ENCRYPTION_RESERVED + 16 in
         rbind (unwrap (AesGcmTail_from_suffix pl)) (\<lambda>chacha20_tail.
         let rs = opn key (nonce chacha20_tail) (take text_and_tag_len pl);
             p = put_payload p (fst rs @ drop text_and_tag_len pl)
         in if \<not> snd rs then Inr (Inl DecryptionFailed, p)
            else rbind (mark_encrypted False p) (\<lambda>p.
                   Inr (Inr (), truncate_inner p (buf_len p - AES_GCM_ENCRYPTION_RESERVED))))))"

definition RingChaCha20_encrypt ::
  "bytes seal_in_place \<Rightarrow> bytes \<Rightarrow> bytes \<Rightarrow> ZCPacket \<Rightarrow> enc_result" where
  "RingChaCha20_encrypt seal rnd key p =
     rbind (header_unwrap p) (\<lambda>pm_header.
     if is_encrypted pm_header then Inr (Inr (), p)
     else rbind (payload p) (\<lambda>pl.
       let rs = seal key rnd pl; p = put_payload p (fst rs)
       in case snd rs of
            Some tg \<Rightarrow>
              if length tg \<noteq> 16 then Inl SliceLengthMismatch
              else rbind (mark_encrypted True p) (\<lambda>p.
                     Inr (Inr (), extend_inner p (AesGcmTail_enc \<lparr>tag = tg, nonce = rnd\<rparr>)))
          | None \<Rightarrow> Inr (Inl EncryptionFailed, p)))"

section \<open>AES-GCM on the aes-gcm crate\<close>

text \<open>Here the tag is passed separately: \<open>opn c nonce data tag\<close>.\<close>

definition AesGcmCrate_decrypt ::
  "(AesGcmEnum \<Rightarrow> bytes \<Rightarrow> bytes \<Rightarrow> bytes \<Rightarrow> bytes \<times> bool) \<Rightarrow> AesGcmEnum \<Rightarrow> ZCPacket \<Rightarrow> enc_result" where
  "AesGcmCrate_decrypt opn cipher p =
     rbind (header_unwrap p) (\<lambda>pm_header.
     if \<not> is_encrypted pm_header then Inr (Inr (), p)
     else rbind (payload p) (\<lambda>pl.
       let payload_len = length pl in
       if payload_len < AES_GCM_ENCRYPTION_RESERVED then Inr (Inl (PacketTooShort payload_len), p)
       else
         let text_len = payload_len - AES_GCM_ENCRYPTION_RESERVED in
         rbind (unwrap (AesGcmTail_from_suffix pl)) (\<lambda>aes_tail.
         let rs = opn cipher (nonce aes_tail) (take text_len pl) (tag aes_tail);
             p = put_payload p (fst rs @ drop text_len pl)
         in if \<not> snd rs then Inr (Inl DecryptionFailed, p)
            else rbind (mark_encrypted False p) (\<lambda>p.
                   Inr (Inr (), truncate_inner p (buf_len p - AES_GCM_ENCRYPTION_RESERVED))))))"

definition AesGcmCrate_encrypt ::
  "AesGcmEnum seal_in_place \<Rightarrow> bytes \<Rightarrow> AesGcmEnum \<Rightarrow> ZCPacket \<Rightarrow> enc_result" where
  "AesGcmCrate_encrypt seal rnd cipher p =
     rbind (header_unwrap p) (\<lambda>pm_header.
     if is_encrypted pm_header then Inr (Inr (), p)
     else rbind (payload p) (\<lambda>pl.
       let rs = seal cipher rnd pl; p = put_payload p (fst rs)
       in case snd rs of
            Some tg \<Rightarrow>
              if length tg \<noteq> 16 then Inl SliceLengthMismatch
              else rbind (mark_encrypted True p) (\<lambda>p.
                     Inr (Inr (), extend_inner p (AesGcmTail_enc \<lparr>tag = tg, nonce = rnd\<rparr>)))
          | None \<Rightarrow> Inr (Inl EncryptionFailed, p)))"

section \<open>OpenSSL ciphers\<close>

datatype OpenSslEnum = Aes128Gcm bytes | Aes256Gcm bytes | Chacha20 bytes

definition OPENSSL_ENCRYPTION_RESERVED :: nat where
  "OPENSSL_ENCRYPTION_RESERVED = 16"

fun is_aead_cipher :: "OpenSslEnum \<Rightarrow> bool" where
  "is_aead_cipher (Aes128Gcm _) = True"
| "is_aead_cipher (Aes256Gcm _) = True"
| "is_aead_cipher (Chacha20 _) = True"

fun get_nonce_size :: "OpenSslEnum \<Rightarrow> nat" where
  "get_nonce_size (Aes128Gcm _) = 12"
| "get_nonce_size (Aes256Gcm _) = 12"
| "get_nonce_size (Chacha20 _) = 12"

text \<open>
  The calls into the OpenSSL binding: \<open>new_ok c nonce\<close> is whether \<open>Crypter::new\<close> succeeds;
  \<open>dec c nonce tag text\<close> is what \<open>set_tag\<close>, \<open>update\<close> and \<open>finalize\<close> leave in the first
  \<open>count\<close> bytes of the output, if none of them fails; \<open>enc c nonce data\<close> is the same for encryption,
  together with the tag of \<open>get_tag\<close>.
\<close>

record openssl_lib =
  new_ok :: "OpenSslEnum \<Rightarrow> bytes \<Rightarrow> bool"
  ossl_dec :: "OpenSslEnum \<Rightarrow> bytes \<Rightarrow> bytes option \<Rightarrow> bytes \<Rightarrow> bytes option"
  ossl_enc :: "OpenSslEnum \<Rightarrow> bytes \<Rightarrow> bytes \<Rightarrow> (bytes \<times> bytes) option"

definition OpenSsl_decrypt :: "bool \<Rightarrow> openssl_lib \<Rightarrow> OpenSslEnum \<Rightarrow> ZCPacket \<Rightarrow> enc_result" where
  "OpenSsl_decrypt chk lib cipher p =
     rbind (header_unwrap p) (\<lambda>pm_header.
     if \<not> is_encrypted pm_header then Inr (Inr (), p)
     else rbind (payload p) (\<lambda>pl.
       let payload_len = length pl in
       if payload_len < OPENSSL_ENCRYPTION_RESERVED then Inr (Inl (PacketTooShort payload_len), p)
       else
         let iv = take (get_nonce_size cipher) (drop (payload_len - OPENSSL_ENCRYPTION_RESERVED) pl) in
         rbind (if is_aead_cipher cipher
                then usize_sub chk (payload_len - OPENSSL_ENCRYPTION_RESERVED) 16
                else Inr (payload_len - OPENSSL_ENCRYPTION_RESERVED)) (\<lambda>text_len.
         if \<not> new_ok lib cipher iv then Inr (Inl DecryptionFailed, p)
         else
         rbind (if is_aead_cipher cipher
                then rbind (usize_add chk text_len 16) (\<lambda>tag_end.
                     rbind (subslice pl text_len tag_end) (\<lambda>tg. Inr (Some tg)))
                else Inr None) (\<lambda>tg.
         rbind (subslice pl 0 text_len) (\<lambda>text.
         case ossl_dec lib cipher iv tg text of
           None \<Rightarrow> Inr (Inl DecryptionFailed, p)
         | Some out \<Rightarrow>
             rbind (mut_payload_copy p 0 (length out) out) (\<lambda>p.
             rbind (mark_encrypted False p) (\<lambda>p.
             rbind (usize_sub chk payload_len (length out)) (\<lambda>cut.
             rbind (usize_sub chk (buf_len p) cut) (\<lambda>new_len.
               Inr (Inr (), truncate_inner p new_len))))))))))"

definition OpenSsl_encrypt :: "openssl_lib \<Rightarrow> bytes \<Rightarrow> OpenSslEnum \<Rightarrow> ZCPacket \<Rightarrow> enc_result" where
  "OpenSsl_encrypt lib rnd cipher p =
     rbind (header_unwrap p) (\<lambda>pm_header.
     if is_encrypted pm_header then Inr (Inr (), p)
     else if \<not> new_ok lib cipher rnd then Inr (Inl EncryptionFailed, p)
     else rbind (payload p) (\<lambda>pl.
       case ossl_enc lib cipher rnd pl of
         None \<Rightarrow> Inr (Inl EncryptionFailed, p)
       | Some (out, tg) \<Rightarrow>
           rbind (mut_payload_copy p 0 (length out) out) (\<lambda>p.
           let p = (if is_aead_cipher cipher then extend_inner p tg else p);
               p = extend_inner p (rnd @ replicate (OPENSSL_ENCRYPTION_RESERVED - length rnd) 0)
           in rbind (mark_encrypted True p) (\<lambda>p. Inr (Inr (), p)))))"

section \<open>The contract of an encryptor\<close>

text \<open>
  The trait \<open>Encryptor\<close>: what the peer layer relies on. Decryption undoes encryption of a packet
  that is not yet encrypted, and decryption looks only at the peer manager header and the payload,
  so a packet may change its tunnel type in between.
\<close>

locale encryptor =
  fixes encrypt :: "ZCPacket \<Rightarrow> enc_result"
    and decrypt :: "ZCPacket \<Rightarrow> enc_result"
  assumes decrypt_encrypt:
    "hdr_space t pre \<Longrightarrow> \<not> is_encrypted h \<Longrightarrow> encrypt (mk_packet t pre h pl) = Inr (Inr (), q) \<Longrightarrow>
     \<exists>h' pl'. q = mk_packet t pre h' pl' \<and> decrypt q = Inr (Inr (), mk_packet t pre h pl)"
    and decrypt_uniform:
    "hdr_space t pre \<Longrightarrow> hdr_space t' pre' \<Longrightarrow>
     decrypt (mk_packet t pre h pl) = Inr (Inr (), mk_packet t pre h' pl') \<Longrightarrow>
     decrypt (mk_packet t' pre' h pl) = Inr (Inr (), mk_packet t' pre' h' pl')"
begin

lemma roundtrip:
  assumes "wf_packet p" and "peer_manager_header p = Inr (Some h)" and "\<not> is_encrypted h"
    and "encrypt p = Inr (Inr (), q)"
  shows "decrypt q = Inr (Inr (), p)"
proof -
  obtain pre pl where p: "p = mk_packet (packet_type p) pre h pl" and sp: "hdr_space (packet_type p) pre"
    using wf_packet_obtain [OF assms(1)] assms(2) by (metis Inr_inject option.inject)
  show ?thesis
    using decrypt_encrypt [OF sp assms(3), of pl q] assms(4) p by auto
qed

lemma transport:
  assumes wf: "wf_packet p" and h: "peer_manager_header p = Inr (Some h)" and ne: "\<not> is_encrypted h"
    and enc: "encrypt p = Inr (Inr (), q)"
    and conv: "convert_type garbage past target q = Inr q'" and tgt: "target \<noteq> NIC \<or> target = packet_type p"
  shows "\<exists>r. decrypt q' = Inr (Inr (), r) \<and> packet_type r = target \<and> same_content p r"
proof -
  obtain pre pl where p: "p = mk_packet (packet_type p) pre h pl" and sp: "hdr_space (packet_type p) pre"
    using wf_packet_obtain [OF wf] h by (metis Inr_inject option.inject)
  obtain h' pl' where q: "q = mk_packet (packet_type p) pre h' pl'" and dq: "decrypt q = Inr (Inr (), p)"
    using decrypt_encrypt [OF sp ne, of pl q] enc p by auto
  have wfq: "wf_packet q" and tq: "packet_type q = packet_type p"
    using q mk_wf [OF sp] by simp_all
  have "packet_type q' = target \<and> wf_packet q' \<and> same_content q q'"
    using convert_type_keeps [OF wfq, of target garbage past] conv tgt tq by auto
  then obtain pre' where q': "q' = mk_packet target pre' h' pl'" and sp': "hdr_space target pre'"
    by (metis (no_types, opaque_lifting) wf_packet_obtain same_content_def mk_header [OF sp]
        mk_payload [OF sp] q Inr_inject option.inject)
  have "decrypt q' = Inr (Inr (), mk_packet target pre' h pl)"
    unfolding q' by (rule decrypt_uniform [OF sp sp']) (use dq q p in simp)
  moreover have "same_content p (mk_packet target pre' h pl)"
    by (subst p, rule same_contentI [OF mk_wf [OF sp] mk_wf [OF sp']])
      (use sp sp' in \<open>simp add: mk_packet_def\<close>)
  ultimately show ?thesis by auto
qed

end

section \<open>The ciphers meet the contract\<close>

lemma PeerManagerHeader_enc_inject [simp]: "PeerManagerHeader_enc a = PeerManagerHeader_enc b \<longleftrightarrow> a = b"
  by (metis append_Nil2 pm_hdr.dec_enc)

lemma mk_packet_inject [simp]: "mk_packet t pre h pl = mk_packet t pre h' pl' \<longleftrightarrow> h = h' \<and> pl = pl'"
  by (auto simp: mk_packet_def append_eq_append_conv)

lemma mk_header_unwrap [packet_simps]: "hdr_space t pre \<Longrightarrow> header_unwrap (mk_packet t pre h pl) = Inr h"
  by (simp add: header_unwrap_def mk_header)

lemma mk_mark_encrypted [packet_simps]:
  "hdr_space t pre \<Longrightarrow> mark_encrypted b (mk_packet t pre h pl) = Inr (mk_packet t pre (set_encrypted h b) pl)"
  by (simp add: mark_encrypted_def mk_mut_header)

lemma mk_cut_tail [packet_simps]:
  assumes "n \<le> length pl"
  shows "truncate_inner (mk_packet t pre h pl) (buf_len (mk_packet t pre h pl) - n) =
           mk_packet t pre h (take (length pl - n) pl)"
proof -
  have "buf_len (mk_packet t pre h pl) - n = length pre + PEER_MANAGER_HEADER_SIZE + (length pl - n)"
    using assms by (simp add: buf_len_def mk_length)
  then show ?thesis by (simp only: mk_truncate_inner)
qed

lemma unmark_encrypted: "\<not> is_encrypted h \<Longrightarrow> set_encrypted (set_encrypted h True) False = h"
  using f_enc.setf_undo [of h True] by simp

interpretation null: encryptor NullCipher_encrypt NullCipher_decrypt
  by unfold_locales
    (auto simp: NullCipher_encrypt_def NullCipher_decrypt_def mk_header_unwrap split: if_splits)

lemma xor_data_length: "xor_data key data = Inr out \<Longrightarrow> length out = length data"
  by (auto simp: xor_data_def split: if_splits)

lemma xor_data_involutive:
  assumes "xor_data key data = Inr out"
  shows "xor_data key out = Inr data"
  using assms
  by (auto simp: xor_data_def xor.assoc split: if_splits intro: nth_equalityI)

interpretation xorc: encryptor "XorCipher_encrypt key" "XorCipher_decrypt key" for key
proof unfold_locales
  fix t pre h pl q
  assume sp: "hdr_space t pre" and ne: "\<not> is_encrypted h"
    and run: "XorCipher_encrypt key (mk_packet t pre h pl) = Inr (Inr (), q)"
  then obtain pl' where x: "xor_data key pl = Inr pl'" and q: "q = mk_packet t pre (set_encrypted h True) pl'"
    by (auto simp: XorCipher_encrypt_def packet_simps rbind_eq_Inr_iff)
  have "XorCipher_decrypt key q = Inr (Inr (), mk_packet t pre h pl)"
    using sp ne xor_data_involutive [OF x] q
    by (simp add: XorCipher_decrypt_def packet_simps unmark_encrypted)
  with q show "\<exists>h' pl'. q = mk_packet t pre h' pl' \<and> XorCipher_decrypt key q = Inr (Inr (), mk_packet t pre h pl)"
    by blast
next
  fix t pre t' pre' h pl h' pl'
  assume "hdr_space t pre" "hdr_space t' pre'"
    and "XorCipher_decrypt key (mk_packet t pre h pl) = Inr (Inr (), mk_packet t pre h' pl')"
  then show "XorCipher_decrypt key (mk_packet t' pre' h pl) = Inr (Inr (), mk_packet t' pre' h' pl')"
    by (auto simp: XorCipher_decrypt_def packet_simps rbind_eq_Inr_iff split: if_splits)
qed

text \<open>
  What the AEAD code relies on: sealing keeps the length, and opening the sealed data followed by
  its tag under the same key and nonce succeeds and leaves the plaintext at the front of the buffer.
\<close>

definition aead_laws :: "'c seal_in_place \<Rightarrow> 'c open_in_place \<Rightarrow> bool" where
  "aead_laws seal opn \<longleftrightarrow>
     (\<forall>c n d ct tg. seal c n d = (ct, Some tg) \<longrightarrow> length ct = length d \<and>
        (\<exists>junk. length junk = length tg \<and> opn c n (ct @ tg) = (d @ junk, True)))"

lemma AesGcm_encrypt_shape:
  assumes "hdr_space t pre" and "\<not> is_encrypted h"
    and "AesGcm_encrypt seal rnd c (mk_packet t pre h pl) = Inr (Inr (), q)"
  obtains ct tg where "seal c rnd pl = (ct, Some tg)" and "length tg = 16"
    and "q = mk_packet t pre (set_encrypted h True) (ct @ tg @ rnd)"
  using assms
  by (auto simp: AesGcm_encrypt_def packet_simps AesGcmTail_enc_def Let_def
      split: option.splits if_splits prod.splits intro: that [of "fst (seal c rnd pl)"])
     (metis prod.collapse)

text \<open>Decryption of an encrypted packet taken apart, shared by the two ring ciphers.\<close>

lemma AesGcm_decrypt_encrypted:
  assumes sp: "hdr_space t pre" and e: "is_encrypted h" and b: "16 \<le> length body" and n: "length nn = 12"
    and len: "length (fst (opn c nn body)) = length body"
  shows "AesGcm_decrypt opn c (mk_packet t pre h (body @ nn)) =
     (if snd (opn c nn body)
      then Inr (Inr (), mk_packet t pre (set_encrypted h False) (take (length body - 16) (fst (opn c nn body))))
      else Inr (Inl DecryptionFailed, mk_packet t pre h (fst (opn c nn body) @ nn)))"
proof -
  have r: "AES_GCM_ENCRYPTION_RESERVED = 28"
    by (simp add: header_sizes)
  have tail: "AesGcmTail_from_suffix (body @ nn) = Some \<lparr>tag = drop (length body - 16) body, nonce = nn\<rparr>"
    using b n by (simp add: AesGcmTail_from_suffix_def r)
  have cut: "truncate_inner (mk_packet t pre h' (x @ nn)) (buf_len (mk_packet t pre h' (x @ nn)) - 28) =
      mk_packet t pre h' (take (length body - 16) x)" if "length x = length body" for h' x
    using that b n by (simp add: mk_cut_tail)
  have bl: "length (body @ nn) - 28 + 16 = length body" and ge: "\<not> length (body @ nn) < 28"
    using b n by simp_all
  show ?thesis
    using sp e b n
    by (simp add: AesGcm_decrypt_def packet_simps tail r Let_def len cut bl ge del: length_append)
qed

lemma payload_tail_split:
  assumes "AES_GCM_ENCRYPTION_RESERVED \<le> length pl"
  obtains body nn where "pl = body @ nn" and "16 \<le> length body" and "length nn = 12"
  using that [of "take (length pl - 12) pl" "drop (length pl - 12) pl"] assms
  by (simp add: header_sizes)

lemma AesGcm_encryptor:
  assumes laws: "aead_laws seal opn" and len: "\<And>c n b. length (fst (opn c n b)) = length b"
    and rnd: "length rnd = 12"
  shows "encryptor (AesGcm_encrypt seal rnd c) (AesGcm_decrypt opn c)"
proof unfold_locales
  fix t pre h pl q
  assume sp: "hdr_space t pre" and ne: "\<not> is_encrypted h"
    and run: "AesGcm_encrypt seal rnd c (mk_packet t pre h pl) = Inr (Inr (), q)"
  obtain ct tg where s: "seal c rnd pl = (ct, Some tg)" and tg: "length tg = 16"
    and q: "q = mk_packet t pre (set_encrypted h True) (ct @ tg @ rnd)"
    by (rule AesGcm_encrypt_shape [OF sp ne run])
  obtain junk where ct: "length ct = length pl" and o: "opn c rnd (ct @ tg) = (pl @ junk, True)"
    using laws s unfolding aead_laws_def by blast
  have "AesGcm_decrypt opn c q = Inr (Inr (), mk_packet t pre h pl)"
    using AesGcm_decrypt_encrypted [OF sp, of "set_encrypted h True" "ct @ tg" rnd opn c] tg rnd ct o
      len [of c rnd "ct @ tg"] q
    by (simp add: unmark_encrypted [OF ne])
  with q show "\<exists>h' pl'. q = mk_packet t pre h' pl' \<and>
      AesGcm_decrypt opn c q = Inr (Inr (), mk_packet t pre h pl)"
    by blast
next
  fix t pre t' pre' h pl h' pl'
  assume sp: "hdr_space t pre" "hdr_space t' pre'"
    and run: "AesGcm_decrypt opn c (mk_packet t pre h pl) = Inr (Inr (), mk_packet t pre h' pl')"
  show "AesGcm_decrypt opn c (mk_packet t' pre' h pl) = Inr (Inr (), mk_packet t' pre' h' pl')"
  proof (cases "is_encrypted h \<and> AES_GCM_ENCRYPTION_RESERVED \<le> length pl")
    case True
    then obtain body nn where "pl = body @ nn" and "16 \<le> length body" and "length nn = 12"
      using payload_tail_split by blast
    then show ?thesis
      using run True by (auto simp: AesGcm_decrypt_encrypted [OF sp(1) _ _ _ len]
          AesGcm_decrypt_encrypted [OF sp(2) _ _ _ len] split: if_splits)
  next
    case False
    then show ?thesis
      using run sp by (auto simp: AesGcm_decrypt_def packet_simps Let_def)
  qed
qed

text \<open>The ring ChaCha20 cipher and the aes-gcm crate are the same machine over other libraries.\<close>

lemma RingChaCha20_decrypt_eq: "RingChaCha20_decrypt opn key p = AesGcm_decrypt (\<lambda>_. opn key) c p"
  by (simp add: RingChaCha20_decrypt_def AesGcm_decrypt_def)

lemma RingChaCha20_encrypt_ok:
  "RingChaCha20_encrypt seal rnd key p = Inr (Inr (), q) \<Longrightarrow>
   AesGcm_encrypt (\<lambda>_. seal key) rnd c p = Inr (Inr (), q)"
  by (auto simp: RingChaCha20_encrypt_def AesGcm_encrypt_def Let_def rbind_def
      split: if_splits option.splits sum.splits)

lemma RingChaCha20_encryptor:
  assumes "aead_laws seal opn" and "\<And>c n b. length (fst (opn c n b)) = length b" and "length rnd = 12"
  shows "encryptor (RingChaCha20_encrypt seal rnd key) (RingChaCha20_decrypt opn key)"
proof -
  have "aead_laws (\<lambda>_ :: AesGcmEnum. seal key) (\<lambda>_. opn key)"
    using assms(1) unfolding aead_laws_def by blast
  then have "encryptor (AesGcm_encrypt (\<lambda>_. seal key) rnd c) (AesGcm_decrypt (\<lambda>_. opn key) c)" for c
    by (rule AesGcm_encryptor) (use assms in simp_all)
  then show ?thesis
    unfolding encryptor_def RingChaCha20_decrypt_eq [of opn key _ "AesGCM128 []"]
    using RingChaCha20_encrypt_ok [of seal rnd key] by blast
qed

section \<open>Guarantees\<close>

text \<open>
  C3: a packet encrypted with the default AES-GCM cipher, carried in any tunnel type and decrypted
  with the same key arrives unchanged. For a well-formed packet that is not yet encrypted, a 12-byte
  nonce and a sealing library that meets its contract: if encryption returns without error, then
  after conversion to any tunnel type decryption succeeds and yields a packet of that type with the
  peer manager header, payload and tunnel payload of the original.
\<close>

theorem aes_gcm_transport:
  assumes laws: "aead_laws seal opn" and len: "\<forall>c n b. length (fst (opn c n b)) = length b"
    and rnd: "length rnd = 12"
    and p: "wf_packet p" "peer_manager_header p = Inr (Some h)" "\<not> is_encrypted h"
    and enc: "AesGcm_encrypt seal rnd c p = Inr (Inr (), q)"
    and conv: "convert_type garbage past target q = Inr q'" "target \<noteq> NIC \<or> target = packet_type p"
  shows "\<exists>r. AesGcm_decrypt opn c q' = Inr (Inr (), r) \<and> packet_type r = target \<and> same_content p r"
proof -
  have "encryptor (AesGcm_encrypt seal rnd c) (AesGcm_decrypt opn c)"
    by (rule AesGcm_encryptor) (use laws len rnd in simp_all)
  then show ?thesis
    using p enc conv by (rule encryptor.transport)
qed

definition demo_header :: PeerManagerHeader where
  "demo_header = \<lparr>from_peer_id = 1, to_peer_id = 2, hdr_packet_type = 1, flags = 0,
                  forward_counter = 1, reserved = 0, pm_len = 3\<rparr>"

lemma demo_header_plain: "\<not> is_encrypted demo_header"
  by (simp add: demo_header_def is_encrypted_def flags_contains_def ENCRYPTED_def)

theorem aes_gcm_transport_witness:
  "\<exists>r. AesGcm_decrypt (\<lambda>_ _ b. (b, True)) (AesGCM128 [])
        (mk_packet DummyTunnel [] (set_encrypted demo_header True) ([5, 6, 7] @ replicate 28 0)) = Inr (Inr (), r) \<and>
       packet_type r = DummyTunnel \<and> same_content (mk_packet DummyTunnel [] demo_header [5, 6, 7]) r"
proof -
  have sp: "hdr_space DummyTunnel []" by simp
  have r28: "replicate 28 (0 :: u8) = replicate 16 0 @ replicate 12 0"
    by (simp flip: replicate_add)
  show ?thesis
  proof (rule aes_gcm_transport [OF _ _ _ mk_wf [OF sp] mk_header [OF sp] demo_header_plain])
    show "aead_laws (\<lambda>_ _ d. (d, Some (replicate 16 0))) (\<lambda>_ _ b. (b, True))"
      by (auto simp: aead_laws_def)
    show "AesGcm_encrypt (\<lambda>_ _ d. (d, Some (replicate 16 0))) (replicate 12 0) (AesGCM128 [])
            (mk_packet DummyTunnel [] demo_header [5, 6, 7]) =
          Inr (Inr (), mk_packet DummyTunnel [] (set_encrypted demo_header True) ([5, 6, 7] @ replicate 28 0))"
      using demo_header_plain
      by (simp add: AesGcm_encrypt_def packet_simps AesGcmTail_enc_def Let_def r28)
    show "convert_type (\<lambda>_. 0) (\<lambda>_ _. Inl IndexOutOfRange) DummyTunnel
            (mk_packet DummyTunnel [] (set_encrypted demo_header True) ([5, 6, 7] @ replicate 28 0)) =
          Inr (mk_packet DummyTunnel [] (set_encrypted demo_header True) ([5, 6, 7] @ replicate 28 0))"
      by (simp add: convert_type_def)
  qed simp_all
qed

text \<open>
  The XOR cipher is total and its own inverse: with a non-empty key, encrypting a well-formed
  packet that is not encrypted succeeds, marks the packet encrypted, keeps the payload length, and
  decrypting the result restores the packet exactly.
\<close>

theorem xor_cipher_roundtrip:
  assumes wf: "wf_packet p" and h: "peer_manager_header p = Inr (Some h)" and ne: "\<not> is_encrypted h"
    and pl: "payload p = Inr pl" and key: "key \<noteq> []"
  shows "\<exists>q pl'. XorCipher_encrypt key p = Inr (Inr (), q) \<and>
     peer_manager_header q = Inr (Some (set_encrypted h True)) \<and>
     payload q = Inr pl' \<and> length pl' = length pl \<and> XorCipher_decrypt key q = Inr (Inr (), p)"
proof -
  obtain pre where p: "p = mk_packet (packet_type p) pre h pl" and sp: "hdr_space (packet_type p) pre"
    using wf_packet_obtain [OF wf] pl h by (metis Inr_inject option.inject)
  obtain pl' where x: "xor_data key pl = Inr pl'"
    using key by (simp add: xor_data_def)
  let ?q = "mk_packet (packet_type p) pre (set_encrypted h True) pl'"
  have "XorCipher_encrypt key (mk_packet (packet_type p) pre h pl) = Inr (Inr (), ?q)"
    using sp ne x by (simp add: XorCipher_encrypt_def packet_simps)
  then have e: "XorCipher_encrypt key p = Inr (Inr (), ?q)"
    using p by simp
  have "XorCipher_decrypt key ?q = Inr (Inr (), p)"
    by (rule xorc.roundtrip [OF wf h ne e])
  with e show ?thesis
    using sp xor_data_length [OF x] by (auto simp: packet_simps)
qed

theorem xor_cipher_roundtrip_witness:
  "\<exists>q pl'. XorCipher_encrypt [1, 2] (mk_packet UDP (replicate 8 0) demo_header [5, 6, 7]) = Inr (Inr (), q) \<and>
     peer_manager_header q = Inr (Some (set_encrypted demo_header True)) \<and>
     payload q = Inr pl' \<and> length pl' = length [5, 6, 7 :: u8] \<and>
     XorCipher_decrypt [1, 2] q = Inr (Inr (), mk_packet UDP (replicate 8 0) demo_header [5, 6, 7])"
proof -
  have sp: "hdr_space UDP (replicate 8 0)" by (simp add: header_sizes)
  show ?thesis
    by (rule xor_cipher_roundtrip [OF mk_wf [OF sp] mk_header [OF sp] demo_header_plain mk_payload [OF sp]]) simp
qed

text \<open>
  the OpenSSL cipher does not check that an encrypted payload is long enough for nonce and
  tag. A well-formed packet marked encrypted whose payload is 16 to 31 bytes long makes decryption
  panic as soon as the cipher context can be created: an arithmetic overflow in a checked build, an
  out-of-range slice in a release build.
\<close>

theorem openssl_decrypt_short_packet_panics:
  assumes wf: "wf_packet p" and h: "peer_manager_header p = Inr (Some h)" and e: "is_encrypted h"
    and pl: "payload p = Inr pl" and len: "16 \<le> length pl" "length pl < 32"
    and lib: "\<forall>c iv. new_ok lib c iv"
  shows "OpenSsl_decrypt chk lib cipher p = Inl (if chk then ArithmeticOverflow else IndexOutOfRange)"
proof -
  have aead: "is_aead_cipher cipher" by (cases cipher) simp_all
  have hu: "header_unwrap p = Inr h" by (simp add: header_unwrap_def h)
  let ?k = "length pl - 16"
  have "usize_sub chk ?k 16 = (if chk then Inl ArithmeticOverflow else Inr (?k + usize_MAX + 1 - 16))"
    using len by (simp add: usize_sub_def usize_MAX_def)
  moreover have "usize_add False (?k + usize_MAX + 1 - 16) 16 = Inr ?k"
    using len by (simp add: usize_add_def usize_MAX_def le_mod_geq)
  moreover have "subslice pl (?k + usize_MAX + 1 - 16) ?k = Inl IndexOutOfRange"
    using len by (simp add: subslice_def usize_MAX_def)
  ultimately show ?thesis
    using e len lib aead
    by (simp add: OpenSsl_decrypt_def hu pl Let_def OPENSSL_ENCRYPTION_RESERVED_def)
qed

theorem openssl_decrypt_short_packet_panics_witness:
  "OpenSsl_decrypt False \<lparr>new_ok = \<lambda>_ _. True, ossl_dec = \<lambda>_ _ _ _. None, ossl_enc = \<lambda>_ _ _. None\<rparr>
     (Aes128Gcm []) (mk_packet DummyTunnel [] (set_encrypted demo_header True) (replicate 20 0)) =
   Inl (if False then ArithmeticOverflow else IndexOutOfRange)"
proof -
  have sp: "hdr_space DummyTunnel []" by simp
  show ?thesis
    by (rule openssl_decrypt_short_packet_panics [OF mk_wf [OF sp] mk_header [OF sp] _ mk_payload [OF sp]])
      simp_all
qed

end
