(* ===== verification/Rpc_Packet.thy ===== *)
theory Rpc_Packet
  imports Compressor
begin

text \<open>
  RPC framing, \<open>src/easytier/src/proto/rpc_impl/packet.rs\<close>: splitting a message into pieces that
  fit a packet, merging the pieces on the other side, and compressing the message. The message
  types are those of \<open>src/easytier/src/proto/common.proto\<close>; their protobuf encoding is the
  parameter \<open>encode\<close>. Instants are natural numbers.
\<close>

section \<open>Messages\<close>

record RpcDescriptor =
  domain_name :: string
  proto_name :: string
  service_name :: string
  method_index :: u32

datatype CompressionAlgoPb = AlgoInvalid | AlgoNone | AlgoZstd

fun CompressionAlgoPb_i32 :: "CompressionAlgoPb \<Rightarrow> u32" where
  "CompressionAlgoPb_i32 AlgoInvalid = 0"
| "CompressionAlgoPb_i32 AlgoNone = 1"
| "CompressionAlgoPb_i32 AlgoZstd = 2"

record RpcCompressionInfo =
  ci_algo :: u32
  accepted_algo :: u32

record RpcPacket =
  from_peer :: u32
  to_peer :: u32
  transaction_id :: u64
  descriptor :: "RpcDescriptor option"
  body :: bytes
  is_request :: bool
  total_pieces :: u32
  piece_idx :: u32
  trace_id :: u32
  compression_info :: "RpcCompressionInfo option"

definition RpcPacket_default :: RpcPacket where
  "RpcPacket_default =
     \<lparr>from_peer = 0, to_peer = 0, transaction_id = 0, descriptor = None, body = [],
      is_request = False, total_pieces = 0, piece_idx = 0, trace_id = 0, compression_info = None\<rparr>"

datatype rpc_error = DescriptorMissing | TotalPiecesInvalid u32 | PieceIdxTooLarge | RpcCompression comp_error
  | InvalidCompressionAlgo

section \<open>Compression of a message\<close>

fun CompressorAlgo_try_from :: "CompressionAlgoPb \<Rightarrow> CompressorAlgo option" where
  "CompressorAlgo_try_from AlgoZstd = Some ZstdDefault"
| "CompressorAlgo_try_from AlgoNone = Some CompressNone"
| "CompressorAlgo_try_from AlgoInvalid = None"

fun CompressionAlgoPb_try_from :: "CompressorAlgo \<Rightarrow> CompressionAlgoPb option" where
  "CompressionAlgoPb_try_from ZstdDefault = Some AlgoZstd"
| "CompressionAlgoPb_try_from CompressNone = Some AlgoNone"

definition compress_packet ::
  "zstd_compress \<Rightarrow> CompressionAlgoPb \<Rightarrow> bytes \<Rightarrow> (rpc_error + bytes \<times> CompressionAlgoPb) may_panic" where
  "compress_packet zc accepted content =
     (let a = (case CompressorAlgo_try_from accepted of Some a \<Rightarrow> a | None \<Rightarrow> CompressNone)
      in case compress_raw zc content a of
           Inl e \<Rightarrow> Inr (Inl (RpcCompression e))
         | Inr compressed \<Rightarrow>
             if length compressed \<ge> length content then Inr (Inr (content, AlgoNone))
             else rbind (unwrap (CompressionAlgoPb_try_from a)) (\<lambda>pb. Inr (Inr (compressed, pb))))"

definition decompress_packet ::
  "zstd_decompress \<Rightarrow> CompressionAlgoPb \<Rightarrow> bytes \<Rightarrow> rpc_error + bytes" where
  "decompress_packet zd compression_algo content =
     (case CompressorAlgo_try_from compression_algo of
        None \<Rightarrow> Inl InvalidCompressionAlgo
      | Some a \<Rightarrow> (case decompress_raw zd content a of
                     Inl e \<Rightarrow> Inl (RpcCompression e)
                   | Inr out \<Rightarrow> Inr out))"

section \<open>Merging pieces\<close>

record PacketMerger =
  first_piece :: "RpcPacket option"
  pieces :: "RpcPacket list"
  last_updated :: nat

definition PacketMerger_new :: "nat \<Rightarrow> PacketMerger" where
  "PacketMerger_new now = \<lparr>first_piece = None, pieces = [], last_updated = now\<rparr>"

definition try_merge_pieces :: "PacketMerger \<Rightarrow> RpcPacket option" where
  "try_merge_pieces m =
     (if first_piece m = None \<or> pieces m = [] then None
      else if list_ex (\<lambda>p. total_pieces p = 0) (pieces m) then None
      else Some ((pieces m ! 0)\<lparr>total_pieces := 1, piece_idx := 0,
                                body := concat (map body (pieces m))\<rparr>))"

text \<open>\<open>Vec::resize\<close>: cut to \<open>n\<close> elements or fill up with clones of \<open>x\<close>.\<close>

definition vec_resize :: "nat \<Rightarrow> 'a \<Rightarrow> 'a list \<Rightarrow> 'a list" where
  "vec_resize n x xs = take n xs @ replicate (n - length xs) x"

definition starts_over :: "PacketMerger \<Rightarrow> RpcPacket \<Rightarrow> bool" where
  "starts_over m p \<longleftrightarrow>
     (case first_piece m of
        None \<Rightarrow> True
      | Some f \<Rightarrow> transaction_id f \<noteq> transaction_id p \<or> from_peer f \<noteq> from_peer p)"

definition feed :: "nat \<Rightarrow> RpcPacket \<Rightarrow> PacketMerger \<Rightarrow> (rpc_error + RpcPacket option) \<times> PacketMerger" where
  "feed now rpc_packet m =
     (let total = total_pieces rpc_packet; idx = piece_idx rpc_packet in
      if total = 0 \<and> idx = 0 then (Inr (Some rpc_packet), m)
      else if idx = 0 \<and> descriptor rpc_packet = None then (Inl DescriptorMissing, m)
      else if total > 32 * 1024 \<or> total = 0 then (Inl (TotalPiecesInvalid total), m)
      else if idx \<ge> total then (Inl PieceIdxTooLarge, m)
      else
        let m = (if starts_over m rpc_packet then m\<lparr>first_piece := Some rpc_packet, pieces := []\<rparr> else m);
            ps = vec_resize (unat total) RpcPacket_default (pieces m);
            m = m\<lparr>pieces := ps[unat idx := rpc_packet], last_updated := now\<rparr>
        in (Inr (try_merge_pieces m), m))"

text \<open>Feeding a sequence of packets at the given instants; the results in order.\<close>

fun feed_all :: "(nat \<times> RpcPacket) list \<Rightarrow> PacketMerger \<Rightarrow> (rpc_error + RpcPacket option) list \<times> PacketMerger" where
  "feed_all [] m = ([], m)"
| "feed_all ((now, p) # ps) m =
     (let (r, m') = feed now p m; (rs, m'') = feed_all ps m' in (r # rs, m''))"

section \<open>Building pieces\<close>

definition RPC_PACKET_CONTENT_MTU :: nat where
  "RPC_PACKET_CONTENT_MTU = 1300"

record BuildRpcPacketArgs =
  arg_from_peer :: u32
  arg_to_peer :: u32
  rpc_desc :: RpcDescriptor
  arg_transaction_id :: u64
  is_req :: bool
  content :: bytes
  arg_trace_id :: u32
  arg_compression_info :: RpcCompressionInfo

definition cur_len_at :: "BuildRpcPacketArgs \<Rightarrow> nat \<Rightarrow> nat" where
  "cur_len_at args cur_offset =
     (if cur_offset + RPC_PACKET_CONTENT_MTU > length (content args) then length (content args) - cur_offset
      else RPC_PACKET_CONTENT_MTU)"

definition rpc_piece_at :: "BuildRpcPacketArgs \<Rightarrow> nat \<Rightarrow> RpcPacket" where
  "rpc_piece_at args cur_offset =
     \<lparr>from_peer = arg_from_peer args, to_peer = arg_to_peer args,
      transaction_id = arg_transaction_id args,
      descriptor =
        (if cur_offset = 0 \<or> ci_algo (arg_compression_info args) = CompressionAlgoPb_i32 AlgoNone
         then Some (rpc_desc args) else None),
      body = take (cur_len_at args cur_offset) (drop cur_offset (content args)),
      is_request = is_req args,
      total_pieces = of_nat (div_ceil (length (content args)) RPC_PACKET_CONTENT_MTU),
      piece_idx = of_nat (cur_offset div RPC_PACKET_CONTENT_MTU),
      trace_id = arg_trace_id args,
      compression_info = (if cur_offset = 0 then Some (arg_compression_info args) else None)\<rparr>"

definition rpc_zc_packet ::
  "bool \<Rightarrow> (RpcPacket \<Rightarrow> bytes) \<Rightarrow> (nat \<Rightarrow> u8) \<Rightarrow> BuildRpcPacketArgs \<Rightarrow> RpcPacket \<Rightarrow> ZCPacket may_panic" where
  "rpc_zc_packet chk encode garbage args cur_packet =
     rbind (new_with_payload garbage (encode cur_packet))
       (fill_peer_manager_hdr chk (arg_from_peer args) (arg_to_peer args)
          (PacketType_u8 (if is_req args then RpcReq else RpcResp)))"

function build_rpc_packet_from ::
  "bool \<Rightarrow> (RpcPacket \<Rightarrow> bytes) \<Rightarrow> (nat \<Rightarrow> nat \<Rightarrow> u8) \<Rightarrow> BuildRpcPacketArgs \<Rightarrow> nat \<Rightarrow> ZCPacket list may_panic" where
  "build_rpc_packet_from chk encode garbage args cur_offset =
     (if cur_offset < length (content args) \<or> content args = [] then
        rbind (rpc_zc_packet chk encode (garbage cur_offset) args (rpc_piece_at args cur_offset)) (\<lambda>zc.
        if content args = [] then Inr [zc]
        else rbind (build_rpc_packet_from chk encode garbage args (cur_offset + cur_len_at args cur_offset))
               (\<lambda>rest. Inr (zc # rest)))
      else Inr [])"
  by pat_completeness auto
termination
  by (relation "measure (\<lambda>(chk, encode, garbage, args, cur_offset). length (content args) - cur_offset)")
    (auto simp: cur_len_at_def RPC_PACKET_CONTENT_MTU_def)

definition build_rpc_packet ::
  "bool \<Rightarrow> (RpcPacket \<Rightarrow> bytes) \<Rightarrow> (nat \<Rightarrow> nat \<Rightarrow> u8) \<Rightarrow> BuildRpcPacketArgs \<Rightarrow> ZCPacket list may_panic" where
  "build_rpc_packet chk encode garbage args = build_rpc_packet_from chk encode garbage args 0"

declare build_rpc_packet_from.simps [simp del]

text \<open>What a receiver reads from a packet: the payload, decoded.\<close>

definition rpc_decoded :: "(bytes \<Rightarrow> RpcPacket option) \<Rightarrow> ZCPacket \<Rightarrow> RpcPacket option" where
  "rpc_decoded decode zc = (case payload zc of Inl e \<Rightarrow> None | Inr bs \<Rightarrow> decode bs)"

section \<open>Shape of the built packets\<close>

lemma rpc_zc_packet_ok:
  "\<exists>zc h. rpc_zc_packet chk encode garbage args p = Inr zc \<and> wf_packet zc \<and> packet_type zc = NIC \<and>
     payload zc = Inr (encode p) \<and> peer_manager_header zc = Inr (Some h) \<and>
     from_peer_id h = arg_from_peer args \<and> to_peer_id h = arg_to_peer args \<and>
     hdr_packet_type h = PacketType_u8 (if is_req args then RpcReq else RpcResp) \<and>
     pm_len h = of_nat (length (encode p))"
proof -
  obtain pre h where new: "new_with_payload garbage (encode p) = Inr (mk_packet NIC pre h (encode p))"
    and sp: "hdr_space NIC pre"
    by (rule new_with_payload_parts)
  show ?thesis
    by (simp add: rpc_zc_packet_def new mk_fill_hdr [OF sp] mk_payload [OF sp] mk_wf [OF sp] mk_header [OF sp])
qed

text \<open>A packet that carries the piece \<open>p\<close> to the addressee of \<open>args\<close>.\<close>

definition carries :: "(RpcPacket \<Rightarrow> bytes) \<Rightarrow> BuildRpcPacketArgs \<Rightarrow> RpcPacket \<Rightarrow> ZCPacket \<Rightarrow> bool" where
  "carries encode args p zc \<longleftrightarrow>
     wf_packet zc \<and> packet_type zc = NIC \<and> payload zc = Inr (encode p) \<and>
     (\<exists>h. peer_manager_header zc = Inr (Some h) \<and>
       from_peer_id h = arg_from_peer args \<and> to_peer_id h = arg_to_peer args \<and>
       hdr_packet_type h = PacketType_u8 (if is_req args then RpcReq else RpcResp) \<and>
       pm_len h = of_nat (length (encode p)))"

lemma rpc_zc_packet_carries: "\<exists>zc. rpc_zc_packet chk encode garbage args p = Inr zc \<and> carries encode args p zc"
  using rpc_zc_packet_ok [of chk encode garbage args p] unfolding carries_def by metis

definition num_pieces :: "BuildRpcPacketArgs \<Rightarrow> nat" where
  "num_pieces args = div_ceil (length (content args)) RPC_PACKET_CONTENT_MTU"

definition nth_piece :: "BuildRpcPacketArgs \<Rightarrow> nat \<Rightarrow> RpcPacket" where
  "nth_piece args i = rpc_piece_at args (i * RPC_PACKET_CONTENT_MTU)"

lemma div_ceil_mtu: "i < num_pieces args \<longleftrightarrow> i * RPC_PACKET_CONTENT_MTU < length (content args)"
  unfolding num_pieces_def by (rule less_div_ceil_iff) (simp add: RPC_PACKET_CONTENT_MTU_def)

lemma cur_offset_next:
  "i < num_pieces args \<Longrightarrow>
   i * RPC_PACKET_CONTENT_MTU + cur_len_at args (i * RPC_PACKET_CONTENT_MTU) =
     min (Suc i * RPC_PACKET_CONTENT_MTU) (length (content args))"
  by (auto simp: div_ceil_mtu cur_len_at_def min_def)

lemma num_pieces_step:
  "\<not> Suc i < num_pieces args \<longleftrightarrow> length (content args) \<le> Suc i * RPC_PACKET_CONTENT_MTU"
  by (simp add: div_ceil_mtu not_less)

lemma build_from_carries:
  assumes "content args \<noteq> []" and "i \<le> num_pieces args"
  shows "\<exists>zcs. build_rpc_packet_from chk encode garbage args
                  (min (i * RPC_PACKET_CONTENT_MTU) (length (content args))) = Inr zcs \<and>
     list_all2 (carries encode args) (map (nth_piece args) [i..<num_pieces args]) zcs"
  using assms(2)
proof (induction "num_pieces args - i" arbitrary: i)
  case 0
  then have "length (content args) \<le> i * RPC_PACKET_CONTENT_MTU"
    using div_ceil_mtu [of i args] by simp
  with 0 assms(1) show ?case
    by (simp add: build_rpc_packet_from.simps [of _ _ _ args "length (content args)"] min_def)
next
  case (Suc n)
  then have i: "i < num_pieces args" by simp
  then have lt: "i * RPC_PACKET_CONTENT_MTU < length (content args)"
    by (simp add: div_ceil_mtu)
  obtain zcs where rest: "build_rpc_packet_from chk encode garbage args
        (min (Suc i * RPC_PACKET_CONTENT_MTU) (length (content args))) = Inr zcs"
    and car: "list_all2 (carries encode args) (map (nth_piece args) [Suc i..<num_pieces args]) zcs"
    using Suc.hyps(1) [of "Suc i"] Suc.hyps(2) i by (metis Suc_diff_Suc Suc_leI nat.inject)
  obtain zc where zc: "rpc_zc_packet chk encode (garbage (i * RPC_PACKET_CONTENT_MTU)) args (nth_piece args i) = Inr zc"
    and carzc: "carries encode args (nth_piece args i) zc"
    using rpc_zc_packet_carries by metis
  have "build_rpc_packet_from chk encode garbage args (i * RPC_PACKET_CONTENT_MTU) = Inr (zc # zcs)"
    using lt rest zc assms(1) cur_offset_next [OF i]
    by (subst build_rpc_packet_from.simps) (simp add: nth_piece_def)
  with lt car carzc i show ?case
    by (auto simp: upt_conv_Cons min_def)
qed

lemma build_rpc_packet_carries:
  assumes "content args \<noteq> []"
  obtains zcs where "build_rpc_packet chk encode garbage args = Inr zcs"
    and "list_all2 (carries encode args) (map (nth_piece args) [0..<num_pieces args]) zcs"
  using build_from_carries [OF assms, of 0 chk encode garbage] by (auto simp: build_rpc_packet_def)

lemma build_rpc_packet_empty:
  assumes "content args = []"
  obtains zc where "build_rpc_packet chk encode garbage args = Inr [zc]"
    and "carries encode args (nth_piece args 0) zc"
proof -
  obtain zc where "rpc_zc_packet chk encode (garbage 0) args (nth_piece args 0) = Inr zc"
    and "carries encode args (nth_piece args 0) zc"
    using rpc_zc_packet_carries by metis
  with that assms show ?thesis
    by (simp add: build_rpc_packet_def build_rpc_packet_from.simps [of _ _ _ args 0] nth_piece_def)
qed

lemma bodies_upto:
  "i \<le> num_pieces args \<Longrightarrow>
   concat (map (body \<circ> nth_piece args) [0..<i]) = take (i * RPC_PACKET_CONTENT_MTU) (content args)"
proof (induction i)
  case (Suc i)
  then have "take (cur_len_at args (i * RPC_PACKET_CONTENT_MTU)) (drop (i * RPC_PACKET_CONTENT_MTU) (content args)) =
      take RPC_PACKET_CONTENT_MTU (drop (i * RPC_PACKET_CONTENT_MTU) (content args))"
    by (auto simp: cur_len_at_def)
  with Suc show ?case
    by (simp add: nth_piece_def rpc_piece_at_def take_add add.commute [of RPC_PACKET_CONTENT_MTU])
qed simp

lemma bodies_all: "concat (map (body \<circ> nth_piece args) [0..<num_pieces args]) = content args"
  using bodies_upto [of "num_pieces args" args] div_ceil_mtu [of "num_pieces args" args] by simp

section \<open>Reassembly\<close>

text \<open>
  The merger holds exactly the pieces of \<open>args\<close> with an index in \<open>S\<close>; before the first of them
  it holds nothing or the remains of another transaction.
\<close>

definition kept_pieces :: "BuildRpcPacketArgs \<Rightarrow> nat set \<Rightarrow> RpcPacket list" where
  "kept_pieces args S =
     map (\<lambda>i. if i \<in> S then nth_piece args i else RpcPacket_default) [0..<num_pieces args]"

definition collected :: "BuildRpcPacketArgs \<Rightarrow> nat set \<Rightarrow> PacketMerger \<Rightarrow> bool" where
  "collected args S m \<longleftrightarrow>
     (if S = {} then starts_over m (nth_piece args 0)
      else \<not> starts_over m (nth_piece args 0) \<and>
           pieces m = kept_pieces args S)"

definition merged_packet :: "BuildRpcPacketArgs \<Rightarrow> RpcPacket" where
  "merged_packet args = (nth_piece args 0)\<lparr>total_pieces := 1, piece_idx := 0, body := content args\<rparr>"

lemma nth_piece_ids [simp]:
  "from_peer (nth_piece args i) = arg_from_peer args"
  "transaction_id (nth_piece args i) = arg_transaction_id args"
  by (simp_all add: nth_piece_def rpc_piece_at_def)

lemma starts_over_nth_piece: "starts_over m (nth_piece args i) = starts_over m (nth_piece args 0)"
  by (simp add: starts_over_def split: option.splits)

lemma piece_numbers:
  assumes "i < num_pieces args" and "num_pieces args \<le> 32 * 1024"
  shows "unat (total_pieces (nth_piece args i)) = num_pieces args"
    and "unat (piece_idx (nth_piece args i)) = i"
    and "i = 0 \<Longrightarrow> descriptor (nth_piece args i) \<noteq> None"
  using assms
  by (simp_all add: nth_piece_def rpc_piece_at_def num_pieces_def RPC_PACKET_CONTENT_MTU_def unat_of_nat)

lemma kept_pieces_length [simp]: "length (kept_pieces args S) = num_pieces args"
  by (simp add: kept_pieces_def)

lemma kept_pieces_nth:
  "k < num_pieces args \<Longrightarrow> kept_pieces args S ! k = (if k \<in> S then nth_piece args k else RpcPacket_default)"
  by (simp add: kept_pieces_def)

lemma kept_pieces_missing:
  assumes "num_pieces args \<le> 32 * 1024"
  shows "list_ex (\<lambda>p. total_pieces p = 0) (kept_pieces args S) \<longleftrightarrow> \<not> {..<num_pieces args} \<subseteq> S"
proof -
  have "total_pieces (kept_pieces args S ! k) = 0 \<longleftrightarrow> k \<notin> S" if "k < num_pieces args" for k
    using piece_numbers(1) [OF that assms] that
    by (auto simp: kept_pieces_nth RpcPacket_default_def unat_eq_zero)
  then show ?thesis
    by (auto simp: list_ex_length)
qed

lemma kept_pieces_all: "{..<num_pieces args} \<subseteq> S \<Longrightarrow> kept_pieces args S = map (nth_piece args) [0..<num_pieces args]"
  by (auto simp: kept_pieces_def)

lemma resize_update:
  assumes "ps = kept_pieces args S \<or> S = {} \<and> ps = []" and "i < num_pieces args"
  shows "(vec_resize (num_pieces args) RpcPacket_default ps)[i := nth_piece args i] = kept_pieces args (insert i S)"
  (is "?l = _")
proof (rule nth_equalityI)
  show "length ?l = length (kept_pieces args (insert i S))"
    using assms(1) by (auto simp: vec_resize_def)
  fix k
  assume "k < length ?l"
  then have "k < num_pieces args"
    using assms(1) by (auto simp: vec_resize_def)
  then show "?l ! k = kept_pieces args (insert i S) ! k"
    using assms by (cases "k = i") (auto simp: vec_resize_def kept_pieces_nth)
qed

lemma feed_piece:
  assumes col: "collected args S m" and i: "i < num_pieces args" and n: "num_pieces args \<le> 32 * 1024"
  shows "\<exists>m'. feed now (nth_piece args i) m =
                (Inr (if insert i S \<supseteq> {..<num_pieces args} then Some (merged_packet args) else None), m') \<and>
              collected args (insert i S) m'"
proof -
  let ?p = "nth_piece args i" and ?n = "num_pieces args" and ?ps = "kept_pieces args (insert i S)"
  define m0 where "m0 = (if starts_over m ?p then m\<lparr>first_piece := Some ?p, pieces := []\<rparr> else m)"
  let ?m' = "m0\<lparr>pieces := ?ps, last_updated := now\<rparr>"
  have nums: "unat (total_pieces ?p) = ?n" "unat (piece_idx ?p) = i"
    using piece_numbers i n by simp_all
  have guards: "\<not> (total_pieces ?p = 0 \<and> piece_idx ?p = 0)" "\<not> (piece_idx ?p = 0 \<and> descriptor ?p = None)"
      "\<not> (total_pieces ?p > 32 * 1024 \<or> total_pieces ?p = 0)" "\<not> piece_idx ?p \<ge> total_pieces ?p"
    using nums i n piece_numbers(3) [OF i n] by (auto simp: word_less_nat_alt word_le_nat_alt unat_eq_zero)
  have "pieces m0 = kept_pieces args S \<or> S = {} \<and> pieces m0 = []"
    using col starts_over_nth_piece [of m args i] by (auto simp: collected_def m0_def split: if_splits)
  note ps = resize_update [OF this i]
  have so: "\<not> starts_over ?m' (nth_piece args 0)" and first: "first_piece ?m' \<noteq> None"
    using starts_over_nth_piece [of m args i] by (auto simp: starts_over_def m0_def split: option.splits)
  have "?ps \<noteq> []"
    using i kept_pieces_length [of args "insert i S"] by fastforce
  then have "try_merge_pieces ?m' = (if {..<?n} \<subseteq> insert i S then Some (merged_packet args) else None)"
    using first i bodies_all [of args] kept_pieces_all [of args "insert i S"]
      kept_pieces_missing [OF n, of "insert i S"]
    by (cases "{..<?n} \<subseteq> insert i S") (auto simp: try_merge_pieces_def merged_packet_def)
  moreover have "feed now ?p m = (Inr (try_merge_pieces ?m'), ?m')"
    using guards ps unfolding feed_def Let_def nums m0_def [symmetric] by simp
  moreover have "collected args (insert i S) ?m'"
    using so by (simp add: collected_def)
  ultimately show ?thesis
    by simp
qed

lemma feed_pieces:
  assumes "collected args S m" and "set is \<subseteq> {..<num_pieces args}" and "num_pieces args \<le> 32 * 1024"
    and "length ts = length is" and "k < length is"
  shows "fst (feed_all (zip ts (map (nth_piece args) is)) m) ! k =
     Inr (if {..<num_pieces args} \<subseteq> set (take (Suc k) is) \<union> S then Some (merged_packet args) else None)"
  using assms
proof (induction "is" arbitrary: S m ts k)
  case (Cons i "is")
  then obtain t ts' where ts: "ts = t # ts'" "length ts' = length is"
    by (cases ts) auto
  obtain m' where m': "feed t (nth_piece args i) m =
        (Inr (if {..<num_pieces args} \<subseteq> insert i S then Some (merged_packet args) else None), m')"
      "collected args (insert i S) m'"
    using feed_piece [of args S m i t] Cons.prems by auto
  show ?case
  proof (cases k)
    case 0
    then show ?thesis
      using m' by (simp add: ts case_prod_beta)
  next
    case (Suc k')
    then show ?thesis
      using m' Cons.IH [OF m'(2), of ts' k'] Cons.prems ts by (simp add: case_prod_beta)
  qed
qed simp

lemma new_merger_starts_over [simp]: "starts_over (PacketMerger_new now) p"
  by (simp add: starts_over_def PacketMerger_new_def)

lemma carries_decoded:
  "carries encode args p zc \<Longrightarrow> decode (encode p) = Some p \<Longrightarrow> rpc_decoded decode zc = Some p"
  by (simp add: carries_def rpc_decoded_def)

lemma recv_pieces:
  assumes "list_all2 (carries encode args) (map (nth_piece args) [0..<num_pieces args]) zcs"
    and "\<And>i. i < num_pieces args \<Longrightarrow> decode (encode (nth_piece args i)) = Some (nth_piece args i)"
  shows "i < length zcs \<Longrightarrow> rpc_decoded decode (zcs ! i) = Some (nth_piece args i)"
    and "length zcs = num_pieces args"
proof -
  show len: "length zcs = num_pieces args"
    using assms(1) by (auto dest: list_all2_lengthD)
  have "carries encode args (nth_piece args i) (zcs ! i)" if "i < length zcs" for i
    using list_all2_nthD2 [OF assms(1) that] that len by simp
  then show "i < length zcs \<Longrightarrow> rpc_decoded decode (zcs ! i) = Some (nth_piece args i)"
    using carries_decoded len assms(2) by metis
qed

text \<open>
  C20: An RPC message of 1 byte to 32768 pieces is delivered whole. \<open>build_rpc_packet\<close> never
  panics. Whatever subsequence of the built packets arrives, in whatever order and however often
  each arrives, a merger that is fresh or busy with another transaction returns \<open>Ok(None)\<close> for
  every packet until each piece has arrived once, and from then on the packet with the complete
  message as its body, the descriptor and the compression information of the sender.
\<close>

theorem rpc_reassembly:
  assumes ne: "content args \<noteq> []" and small: "length (content args) \<le> 32 * 1024 * 1300"
    and codec: "\<forall>i<num_pieces args. decode (encode (nth_piece args i)) = Some (nth_piece args i)"
    and fresh: "starts_over m (nth_piece args 0)"
  shows "\<exists>zcs. build_rpc_packet chk encode garbage args = Inr zcs \<and> length zcs = num_pieces args \<and>
     (\<forall>i<length zcs. rpc_decoded decode (zcs ! i) = Some (nth_piece args i)) \<and>
     (\<forall>is ts k. set is \<subseteq> {..<length zcs} \<longrightarrow> length ts = length is \<longrightarrow> k < length is \<longrightarrow>
        fst (feed_all (zip ts (map (\<lambda>i. the (rpc_decoded decode (zcs ! i))) is)) m) ! k =
          Inr (if set (take (Suc k) is) = {..<length zcs}
               then Some \<lparr>from_peer = arg_from_peer args, to_peer = arg_to_peer args,
                          transaction_id = arg_transaction_id args, descriptor = Some (rpc_desc args),
                          body = content args, is_request = is_req args, total_pieces = 1, piece_idx = 0,
                          trace_id = arg_trace_id args, compression_info = Some (arg_compression_info args)\<rparr>
               else None))"
proof -
  let ?n = "num_pieces args"
  have n: "?n \<le> 32 * 1024"
    using small div_ceil_mtu [of "32 * 1024" args] by (simp add: RPC_PACKET_CONTENT_MTU_def)
  obtain zcs where zcs: "build_rpc_packet chk encode garbage args = Inr zcs"
    and car: "list_all2 (carries encode args) (map (nth_piece args) [0..<?n]) zcs"
    by (rule build_rpc_packet_carries [OF ne])
  have col: "collected args {} m"
    using fresh by (simp add: collected_def)
  note recv = recv_pieces [OF car codec [rule_format]]
  have "fst (feed_all (zip ts (map (\<lambda>i. the (rpc_decoded decode (zcs ! i))) is)) m) ! k =
      Inr (if set (take (Suc k) is) = {..<length zcs} then Some (merged_packet args) else None)"
    if "set is \<subseteq> {..<length zcs}" "length ts = length is" "k < length is" for "is" ts k
  proof -
    have eq: "map (\<lambda>i. the (rpc_decoded decode (zcs ! i))) is = map (nth_piece args) is"
      using that(1) recv(1) by auto
    have "{..<?n} \<subseteq> set (take (Suc k) is) \<longleftrightarrow> set (take (Suc k) is) = {..<?n}"
      using that(1) recv(2) set_take_subset [of "Suc k" "is"] by auto
    then show ?thesis
      unfolding eq using feed_pieces [OF col _ n that(2,3)] that(1) recv(2) by simp
  qed
  then show ?thesis
    using zcs recv by (intro exI [of _ zcs]) (auto simp: merged_packet_def nth_piece_def rpc_piece_at_def)
qed

theorem rpc_reassembly_witness:
  defines "args \<equiv> \<lparr>arg_from_peer = 1, arg_to_peer = 2,
     rpc_desc = \<lparr>domain_name = ''net'', proto_name = ''p'', service_name = ''s'', method_index = 3\<rparr>,
     arg_transaction_id = 77, is_req = True, content = replicate 1301 7, arg_trace_id = 0,
     arg_compression_info = \<lparr>ci_algo = 2, accepted_algo = 2\<rparr>\<rparr>"
  shows "num_pieces args = 2 \<and>
    fst (feed_all [(10, nth_piece args 1), (11, nth_piece args 0)] (PacketMerger_new 5)) ! 0 = Inr None \<and>
    fst (feed_all [(10, nth_piece args 1), (11, nth_piece args 0)] (PacketMerger_new 5)) ! 1 =
      Inr (Some \<lparr>from_peer = 1, to_peer = 2, transaction_id = 77, descriptor = Some (rpc_desc args),
                 body = replicate 1301 7, is_request = True, total_pieces = 1, piece_idx = 0,
                 trace_id = 0, compression_info = Some (arg_compression_info args)\<rparr>)"
proof -
  let ?m = "PacketMerger_new 5"
  let ?enc = "\<lambda>p. [ucast (piece_idx p) :: u8]" and ?dec = "\<lambda>bs :: bytes. Some (nth_piece args (unat (bs ! 0)))"
  have n: "num_pieces args = 2"
    by (simp add: args_def num_pieces_def div_ceil_def RPC_PACKET_CONTENT_MTU_def)
  have c: "content args = replicate 1301 7"
    by (simp add: args_def)
  have codec: "\<forall>i<num_pieces args. ?dec (?enc (nth_piece args i)) = Some (nth_piece args i)"
    unfolding n less_2_cases_iff by (auto simp: nth_piece_def rpc_piece_at_def RPC_PACKET_CONTENT_MTU_def)
  have "content args \<noteq> []" and "length (content args) \<le> 32 * 1024 * 1300" and "starts_over ?m (nth_piece args 0)"
    by (simp_all add: c)
  note main = rpc_reassembly [OF this(1,2) codec this(3), of True "\<lambda>_ _. 0"]
  obtain zcs where len: "length zcs = num_pieces args"
    and recv: "\<forall>i<length zcs. rpc_decoded ?dec (zcs ! i) = Some (nth_piece args i)"
    and all: "\<forall>is ts k. set is \<subseteq> {..<length zcs} \<longrightarrow> length ts = length is \<longrightarrow> k < length is \<longrightarrow>
      fst (feed_all (zip ts (map (\<lambda>i. the (rpc_decoded ?dec (zcs ! i))) is)) ?m) ! k =
          Inr (if set (take (Suc k) is) = {..<length zcs}
               then Some \<lparr>from_peer = arg_from_peer args, to_peer = arg_to_peer args,
                          transaction_id = arg_transaction_id args, descriptor = Some (rpc_desc args),
                          body = content args, is_request = is_req args, total_pieces = 1, piece_idx = 0,
                          trace_id = arg_trace_id args, compression_info = Some (arg_compression_info args)\<rparr>
               else None)"
    using main by (elim exE conjE)
  note inst = all [rule_format, of "[1, 0]" "[10, 11]"]
  have two: "length zcs = 2"
    using len n by simp
  have r: "map (\<lambda>i. the (rpc_decoded ?dec (zcs ! i))) [1, 0] = [nth_piece args 1, nth_piece args 0]"
    using recv two by simp
  have sets: "{1} \<noteq> {..<2::nat}" "{1, 0} = {..<2::nat}"
    by (simp_all add: numeral_2_eq_2 lessThan_Suc)
  have "fst (feed_all [(10, nth_piece args 1), (11, nth_piece args 0)] ?m) ! 0 = Inr None"
    using inst [of 0] sets unfolding r two by simp
  moreover have "fst (feed_all [(10, nth_piece args 1), (11, nth_piece args 0)] ?m) ! 1 =
      Inr (Some \<lparr>from_peer = arg_from_peer args, to_peer = arg_to_peer args,
                 transaction_id = arg_transaction_id args, descriptor = Some (rpc_desc args),
                 body = content args, is_request = is_req args, total_pieces = 1, piece_idx = 0,
                 trace_id = arg_trace_id args, compression_info = Some (arg_compression_info args)\<rparr>)"
    using inst [of 1] sets unfolding r two by simp
  ultimately show ?thesis
    unfolding n by (simp only: c) (simp add: args_def)
qed

section \<open>Compression of messages\<close>

lemma compress_packet_eq:
  assumes "zc msg = Inr small"
  shows "compress_packet zc accepted msg =
    Inr (Inr (if accepted = AlgoZstd \<and> length small < length msg then (small, AlgoZstd) else (msg, AlgoNone)))"
  using assms by (cases accepted) (auto simp: compress_packet_def compress_raw_def)

lemma compress_packet_inverse:
  assumes "zstd_laws zc zd" and "zc msg = Inr small" and "length msg \<le> 64 * 1024"
  obtains out a where "compress_packet zc accepted msg = Inr (Inr (out, a))"
    and "decompress_packet zd a out = Inr msg"
  using that compress_packet_eq [of zc msg small accepted, OF assms(2)] decompress_raw_reach [OF assms(1,2)] assms(3)
  by (auto simp: decompress_packet_def decompress_raw_def split: if_splits)

text \<open>
  C22: Compressing a message for a peer that accepts the given algorithm never panics, and the
  algorithm sent along is the one to decompress with. Decompression restores the message exactly
  when it is at most 64 KiB long or at most 32 times as long as what was sent; any other message
  is lost with an error although compression succeeded.
\<close>

theorem rpc_compression_roundtrip:
  assumes laws: "zstd_laws zc zd" and zc: "zc msg = Inr small"
  shows "\<exists>out a. compress_packet zc accepted msg = Inr (Inr (out, a)) \<and> length out \<le> length msg \<and>
     decompress_packet zd a out =
       (if a = AlgoZstd \<and> max (32 * length out) (64 * 1024) < length msg
        then Inl (RpcCompression AttemptsExhausted) else Inr msg)"
  using compress_packet_eq [of zc msg small accepted, OF zc] decompress_raw_reach [OF laws zc]
  by (auto simp: decompress_packet_def decompress_raw_def)

theorem rpc_compression_roundtrip_witness:
  defines "zc \<equiv> (\<lambda>x :: bytes. if x = replicate 70000 7 then Inr [9 :: u8] else Inl CompressFailed)"
  defines "zd \<equiv> (\<lambda>(y :: bytes) cap. if 70000 \<le> cap then DecOk (replicate 70000 7) else DecTooSmall)"
  shows "\<exists>out a. compress_packet zc AlgoZstd (replicate 70000 7) = Inr (Inr (out, a)) \<and>
     length out \<le> 70000 \<and>
     decompress_packet zd a out =
       (if a = AlgoZstd \<and> max (32 * length out) (64 * 1024) < 70000
        then Inl (RpcCompression AttemptsExhausted) else Inr (replicate 70000 7))"
proof -
  have "zstd_laws zc zd"
    by (auto simp: zstd_laws_def zc_def zd_def)
  moreover have "zc (replicate 70000 7) = Inr [9]"
    by (simp add: zc_def)
  ultimately show ?thesis
    using rpc_compression_roundtrip [of zc zd "replicate 70000 7" "[9]" AlgoZstd] by (simp only: length_replicate)
qed

section \<open>Merger invariant\<close>

text \<open>
  Every slot of the merger is empty (the default packet) or holds a packet that was accepted for
  that slot: its index is the slot, and at slot 0 it has a descriptor.
\<close>

definition merger_inv :: "PacketMerger \<Rightarrow> bool" where
  "merger_inv m \<longleftrightarrow>
     length (pieces m) \<le> 32 * 1024 \<and>
     (\<forall>i<length (pieces m). let p = pieces m ! i in
        p = RpcPacket_default \<or> total_pieces p \<noteq> 0 \<and> unat (piece_idx p) = i \<and> (i = 0 \<longrightarrow> descriptor p \<noteq> None))"

lemma merger_inv_new [simp]: "merger_inv (PacketMerger_new now)"
  by (simp add: merger_inv_def PacketMerger_new_def)

lemma vec_resize_nth:
  "i < n \<Longrightarrow> vec_resize n x xs ! i = (if i < length xs then xs ! i else x)"
  by (auto simp: vec_resize_def nth_append)

lemma length_vec_resize [simp]: "length (vec_resize n x xs) = n"
  by (simp add: vec_resize_def)

lemma feed_accepts:
  assumes "feed now p m = (r, m')"
  obtains (kept) "m' = m"
  | (stored) m0 where "m' = m0\<lparr>pieces := (vec_resize (unat (total_pieces p)) RpcPacket_default (pieces m0))
                                            [unat (piece_idx p) := p], last_updated := now\<rparr>"
      and "pieces m0 = [] \<or> m0 = m" and "r = Inr (try_merge_pieces m')"
      and "total_pieces p \<noteq> 0" and "total_pieces p \<le> 32 * 1024" and "piece_idx p < total_pieces p"
      and "piece_idx p = 0 \<Longrightarrow> descriptor p \<noteq> None"
proof (cases "total_pieces p = 0 \<and> piece_idx p = 0 \<or> piece_idx p = 0 \<and> descriptor p = None \<or>
              total_pieces p > 32 * 1024 \<or> total_pieces p = 0 \<or> piece_idx p \<ge> total_pieces p")
  case True
  then have "m' = m"
    using assms by (auto simp: feed_def Let_def split: if_splits)
  then show ?thesis by (rule kept)
next
  case False
  let ?m0 = "if starts_over m p then m\<lparr>first_piece := Some p, pieces := []\<rparr> else m"
  have "feed now p m = (let m' = ?m0\<lparr>pieces := (vec_resize (unat (total_pieces p)) RpcPacket_default (pieces ?m0))
                                                [unat (piece_idx p) := p], last_updated := now\<rparr>
                        in (Inr (try_merge_pieces m'), m'))"
    using False unfolding feed_def Let_def by simp
  with assms False show ?thesis
    by (intro stored [of ?m0]) (auto simp: Let_def not_le not_less)
qed

lemma merger_inv_feed:
  assumes inv: "merger_inv m" and "feed now p m = (r, m')"
  shows "merger_inv m'"
  using assms(2)
proof (cases rule: feed_accepts)
  case (stored m0)
  let ?n = "unat (total_pieces p)" and ?i = "unat (piece_idx p)"
  have n: "?n \<le> 32 * 1024" and i: "?i < ?n"
    using stored(5,6) by (simp_all add: word_le_nat_alt word_less_nat_alt)
  have inv0: "merger_inv m0"
    using inv stored(2) by (auto simp: merger_inv_def)
  have "let q = (vec_resize ?n RpcPacket_default (pieces m0))[?i := p] ! k in
      q = RpcPacket_default \<or> total_pieces q \<noteq> 0 \<and> unat (piece_idx q) = k \<and> (k = 0 \<longrightarrow> descriptor q \<noteq> None)"
    if "k < ?n" for k
    using inv0 stored(4,7) that
    by (cases "k = ?i") (auto simp: merger_inv_def vec_resize_nth Let_def unat_eq_zero)
  then show ?thesis
    using n by (simp add: merger_inv_def stored(1))
qed (use inv in simp)

text \<open>
  Whatever packets a merger is fed, however malformed, it never holds more than 32768 slots,
  and a packet it hands out has a descriptor, except the old-style packet (no pieces, index 0)
  that is passed through unchanged.
\<close>

theorem feed_result_described:
  assumes "merger_inv m" and "feed now p m = (Inr (Some q), m')"
  shows "merger_inv m' \<and> (descriptor q \<noteq> None \<or> q = p \<and> total_pieces p = 0 \<and> piece_idx p = 0)"
proof -
  have "descriptor q \<noteq> None" if merge: "try_merge_pieces m'' = Some q" and inv: "merger_inv m''" for m''
  proof -
    have "pieces m'' \<noteq> []" and all: "\<forall>x\<in>set (pieces m''). total_pieces x \<noteq> 0"
      and q: "descriptor q = descriptor (pieces m'' ! 0)"
      using merge by (auto simp: try_merge_pieces_def list_ex_iff split: if_splits)
    then have len: "0 < length (pieces m'')" by simp
    then have "total_pieces (pieces m'' ! 0) \<noteq> 0"
      using all nth_mem by blast
    then have "pieces m'' ! 0 \<noteq> RpcPacket_default"
      by (auto simp: RpcPacket_default_def)
    then show ?thesis
      using inv q len by (auto simp: merger_inv_def Let_def)
  qed
  moreover have "merger_inv m'"
    using merger_inv_feed assms by blast
  ultimately show ?thesis
    using assms(2) unfolding feed_def Let_def by (auto split: if_splits)
qed

theorem feed_result_described_witness:
  defines "p \<equiv> RpcPacket_default\<lparr>total_pieces := 1, body := [5], descriptor := Some
     \<lparr>domain_name = ''net'', proto_name = ''p'', service_name = ''s'', method_index = 3\<rparr>\<rparr>"
  defines "m \<equiv> \<lparr>first_piece = Some p, pieces = [p], last_updated = 4\<rparr>"
  shows "merger_inv m \<and> descriptor p \<noteq> None"
proof -
  have "feed 4 p (PacketMerger_new 0) = (Inr (Some p), m)"
    by (simp add: feed_def PacketMerger_new_def starts_over_def vec_resize_def try_merge_pieces_def
          p_def m_def RpcPacket_default_def)
  moreover have "total_pieces p \<noteq> 0"
    by (simp add: p_def)
  ultimately show ?thesis
    using feed_result_described [of "PacketMerger_new 0" 4 p p m] by simp
qed

end
