(* ===== verification/Keyed_Sessions.thy ===== *)
theory Keyed_Sessions
  imports Rust_Prelude
begin

text \<open>
  The interface shared by the tables that collect the parts of many transfers at once: the
  \<open>packet_mergers\<close> of the RPC server and the \<open>packets\<close> of the IP reassembler are both a map from a
  key to the state of one transfer; a part goes to the entry of its key, which is created on
  demand and removed when the transfer completes, and a periodic sweep drops stale entries. The
  locale states that contract; its lemma shows once, for every provider, that transfers do not
  disturb each other however their parts interleave.
\<close>

datatype 'p session_event = Recv nat 'p | Sweep nat

fun run_sessions ::
  "(nat \<Rightarrow> 'p \<Rightarrow> 'st \<Rightarrow> 'out \<times> 'st) \<Rightarrow> (nat \<Rightarrow> 'st \<Rightarrow> 'st) \<Rightarrow> 'p session_event list \<Rightarrow> 'st \<Rightarrow>
     ('p \<times> 'out) list \<times> 'st" where
  "run_sessions recv sweep [] st = ([], st)"
| "run_sessions recv sweep (Recv now p # evs) st =
     (let (out, st') = recv now p st; (outs, st'') = run_sessions recv sweep evs st' in ((p, out) # outs, st''))"
| "run_sessions recv sweep (Sweep now # evs) st = run_sessions recv sweep evs (sweep now st)"

fun concerns :: "('p \<Rightarrow> 'k option) \<Rightarrow> 'k \<Rightarrow> 'p session_event \<Rightarrow> bool" where
  "concerns key k (Recv now p) = (key p = Some k)"
| "concerns key k (Sweep now) = True"

lemma run_sessions_Recv:
  "recv now p st = (out, st') \<Longrightarrow>
   run_sessions recv sweep (Recv now p # evs) st =
     ((p, out) # fst (run_sessions recv sweep evs st'), snd (run_sessions recv sweep evs st'))"
  by (simp add: case_prod_beta)

locale keyed_sessions =
  fixes key :: "'p \<Rightarrow> 'k option"
    and start :: "nat \<Rightarrow> 'p \<Rightarrow> 's"
    and step :: "nat \<Rightarrow> 'p \<Rightarrow> 's \<Rightarrow> 'out \<times> 's option"
    and stale :: "nat \<Rightarrow> 's \<Rightarrow> bool"
    and recv :: "nat \<Rightarrow> 'p \<Rightarrow> ('k \<Rightarrow> 's option) \<Rightarrow> 'out \<times> ('k \<Rightarrow> 's option)"
    and sweep :: "nat \<Rightarrow> ('k \<Rightarrow> 's option) \<Rightarrow> 'k \<Rightarrow> 's option"
  assumes recv_keyed: "key p = Some k \<Longrightarrow>
      recv now p st =
        (fst (step now p (case st k of Some s \<Rightarrow> s | None \<Rightarrow> start now p)),
         st(k := snd (step now p (case st k of Some s \<Rightarrow> s | None \<Rightarrow> start now p))))"
    and recv_unkeyed: "key p = None \<Longrightarrow> snd (recv now p st) = st"
    and sweep_entry: "sweep now st k = (case st k of Some s \<Rightarrow> if stale now s then None else Some s | None \<Rightarrow> None)"
begin

lemma recv_other: "key p \<noteq> Some k \<Longrightarrow> snd (recv now p st) k = st k"
  by (cases "key p") (auto simp: recv_keyed recv_unkeyed)

lemma recv_same:
  assumes "key p = Some k" and "st k = st' k"
  shows "fst (recv now p st) = fst (recv now p st')"
    and "snd (recv now p st) k = snd (recv now p st') k"
  using assms by (simp_all add: recv_keyed)

lemma isolation:
  assumes "st k = st' k"
  shows "filter (\<lambda>(p, out). key p = Some k) (fst (run_sessions recv sweep evs st)) =
           fst (run_sessions recv sweep (filter (concerns key k) evs) st') \<and>
         snd (run_sessions recv sweep evs st) k =
           snd (run_sessions recv sweep (filter (concerns key k) evs) st') k"
  using assms
proof (induction evs arbitrary: st st')
  case (Cons e evs)
  show ?case
  proof (cases e)
    case (Recv now p)
    show ?thesis
    proof (cases "key p = Some k")
      case True
      with Cons.IH [of "snd (recv now p st)" "snd (recv now p st')"] recv_same [of p k st st' now] Cons.prems
      show ?thesis
        by (simp add: Recv Let_def case_prod_beta)
    next
      case False
      with Cons.IH [of "snd (recv now p st)" st'] recv_other [OF False, of now st] Cons.prems
      show ?thesis
        by (simp add: Recv Let_def case_prod_beta)
    qed
  next
    case (Sweep now)
    then show ?thesis
      using Cons.IH [of "sweep now st" "sweep now st'"] Cons.prems by (simp add: sweep_entry)
  qed
qed simp

end

text \<open>
  Entries carry a time stamp, and a sweep drops an entry only when its stamp is at least \<open>ttl\<close>
  old. Within a window of \<open>ttl\<close> the sweeps cannot touch a transfer that starts in the window.
\<close>

fun event_time :: "'p session_event \<Rightarrow> nat" where
  "event_time (Recv now p) = now"
| "event_time (Sweep now) = now"

fun is_recv :: "'p session_event \<Rightarrow> bool" where
  "is_recv (Recv now p) = True"
| "is_recv (Sweep now) = False"

definition recv_only :: "('p \<Rightarrow> 'k option) \<Rightarrow> 'k \<Rightarrow> 'p session_event list \<Rightarrow> 'p session_event list" where
  "recv_only key k evs = filter (\<lambda>e. is_recv e \<and> concerns key k e) evs"

locale timed_sessions = keyed_sessions +
  fixes stamp :: "'s \<Rightarrow> nat" and ttl :: nat
  assumes stale_old: "stale now s \<Longrightarrow> ttl \<le> now - stamp s"
    and stamp_start: "stamp (start now p) = now"
    and stamp_step: "snd (step now p s) = Some s' \<Longrightarrow> stamp s' = now \<or> stamp s' = stamp s"
begin

lemma recv_stamp:
  assumes "key p = Some k" and "t0 \<le> now" and "\<And>s. st k = Some s \<Longrightarrow> t0 \<le> stamp s"
    and "snd (recv now p st) k = Some s'"
  shows "t0 \<le> stamp s'"
  using assms stamp_step [of now p "case st k of Some s \<Rightarrow> s | None \<Rightarrow> start now p" s'] stamp_start [of now p]
  by (cases "st k") (auto simp: recv_keyed)

lemma sweep_young:
  assumes "\<And>s. st k = Some s \<Longrightarrow> t0 \<le> stamp s" and "t0 \<le> now" and "now < t0 + ttl"
  shows "sweep now st k = st k"
  using assms stale_old [of now] by (fastforce simp: sweep_entry split: option.splits)

lemma unswept_transfer:
  assumes "st k = st' k" and "\<And>s. st k = Some s \<Longrightarrow> t0 \<le> stamp s"
    and "\<forall>e\<in>set evs. t0 \<le> event_time e \<and> event_time e < t0 + ttl"
  shows "filter (\<lambda>(p, out). key p = Some k) (fst (run_sessions recv sweep evs st)) =
           fst (run_sessions recv sweep (recv_only key k evs) st')"
  using assms
proof (induction evs arbitrary: st st')
  case (Cons e evs)
  show ?case
  proof (cases e)
    case (Recv now p)
    show ?thesis
    proof (cases "key p = Some k")
      case True
      have "t0 \<le> stamp s" if "snd (recv now p st) k = Some s" for s
        using recv_stamp [OF True, of t0 now st s] Cons.prems(2,3) that Recv by auto
      with Cons.IH [of "snd (recv now p st)" "snd (recv now p st')"] recv_same [of p k st st' now] True
        Cons.prems(1,3)
      show ?thesis
        by (simp add: Recv recv_only_def Let_def case_prod_beta)
    next
      case False
      with Cons.IH [of "snd (recv now p st)" st'] recv_other [OF False, of now st] Cons.prems
      show ?thesis
        by (simp add: Recv recv_only_def Let_def case_prod_beta)
    qed
  next
    case (Sweep now)
    then have "sweep now st k = st k"
      using sweep_young [of st k t0 now] Cons.prems(2,3) by auto
    then show ?thesis
      using Cons.IH [of "sweep now st" st'] Cons.prems by (simp add: Sweep recv_only_def)
  qed
qed (simp add: recv_only_def)

end

end
