(* ===== verification/Rpc_Server.thy ===== *)
theory Rpc_Server
  imports Rpc_Packet Keyed_Sessions
begin

text \<open>
  RPC endpoints, \<open>src/easytier/src/proto/rpc_impl/server.rs\<close>, \<open>client.rs\<close> and
  \<open>service_registry.rs\<close>: the server's table of mergers, the handling of a complete request, the
  registry of services, the client's table of requests in flight. Protobuf encodings of the inner
  messages and the registered services are parameters; instants are in milliseconds. Counters are
  returned as the list of updates that the handler makes.
\<close>

section \<open>Messages\<close>

record RpcRequest =
  request :: bytes
  timeout_ms :: u32

record 'x RpcResponse =
  response :: bytes
  resp_error :: "'x option"
  runtime_us :: u64

datatype call_error =
    PacketError rpc_error
  | DecodeError
  | InvalidServiceKey string string
  | InvalidMethodIndex u8
  | ExecutionError nat
  | TimedOut

definition CompressionAlgoPb_of_i32 :: "u32 \<Rightarrow> CompressionAlgoPb" where
  "CompressionAlgoPb_of_i32 n = (if n = 1 then AlgoNone else if n = 2 then AlgoZstd else AlgoInvalid)"

section \<open>Service registry\<close>

record ServiceKey =
  key_domain_name :: string
  key_service_name :: string
  key_proto_name :: string

definition ServiceKey_from :: "RpcDescriptor \<Rightarrow> ServiceKey" where
  "ServiceKey_from d =
     \<lparr>key_domain_name = domain_name d, key_service_name = service_name d, key_proto_name = proto_name d\<rparr>"

text \<open>
  A service: its descriptor's names, the names of its methods, and a call, which takes some time
  and returns the output, and the raw output if the controller was given one.
\<close>

record service =
  svc_name :: string
  svc_proto_name :: string
  svc_method_name :: "u8 \<Rightarrow> string option"
  svc_call :: "u8 \<Rightarrow> bytes \<Rightarrow> nat \<times> (call_error + bytes \<times> bytes option)"

type_synonym registry = "ServiceKey \<rightharpoonup> service"

definition svc_key :: "service \<Rightarrow> string \<Rightarrow> ServiceKey" where
  "svc_key h dmn =
     \<lparr>key_domain_name = dmn, key_service_name = svc_name h, key_proto_name = svc_proto_name h\<rparr>"

definition register :: "service \<Rightarrow> string \<Rightarrow> registry \<Rightarrow> registry" where
  "register h dmn reg = reg(svc_key h dmn \<mapsto> h)"

definition unregister :: "service \<Rightarrow> string \<Rightarrow> registry \<Rightarrow> unit option \<times> registry" where
  "unregister h dmn reg = (map_option (\<lambda>_. ()) (reg (svc_key h dmn)), reg(svc_key h dmn := None))"

definition unregister_by_domain :: "string \<Rightarrow> registry \<Rightarrow> registry" where
  "unregister_by_domain dmn reg = (\<lambda>k. if key_domain_name k \<noteq> dmn then reg k else None)"

definition unregister_all :: "registry \<Rightarrow> registry" where
  "unregister_all reg = Map.empty"

definition replace_registry :: "registry \<Rightarrow> registry \<Rightarrow> registry" where
  "replace_registry other reg = Map.empty ++ other"

definition get_method_name :: "registry \<Rightarrow> RpcDescriptor \<Rightarrow> string option" where
  "get_method_name reg d =
     Option.bind (reg (ServiceKey_from d)) (\<lambda>e. svc_method_name e (ucast (method_index d)))"

definition call_method :: "registry \<Rightarrow> RpcDescriptor \<Rightarrow> bytes \<Rightarrow> nat \<times> (call_error + bytes \<times> bytes option)" where
  "call_method reg d input =
     (case reg (ServiceKey_from d) of
        None \<Rightarrow> (0, Inl (InvalidServiceKey (service_name d) (proto_name d)))
      | Some e \<Rightarrow> svc_call e (ucast (method_index d)) input)"

section \<open>Server\<close>

type_synonym PacketMergerKey = "u32 \<times> u64"
type_synonym mergers = "PacketMergerKey \<rightharpoonup> PacketMerger"

definition PacketMergerKey_of :: "RpcPacket \<Rightarrow> PacketMergerKey" where
  "PacketMergerKey_of p = (from_peer p, transaction_id p)"

definition server_merge :: "nat \<Rightarrow> RpcPacket \<Rightarrow> PacketMerger \<Rightarrow> RpcPacket option \<times> PacketMerger option" where
  "server_merge now p m =
     (case feed now p m of
        (Inr (Some q), _) \<Rightarrow> (Some q, None)
      | (_, m') \<Rightarrow> (None, Some m'))"

text \<open>
  One turn of the receive loop on a decoded packet: the request that is complete now, if any, and
  the mergers afterwards.
\<close>

definition server_recv :: "nat \<Rightarrow> RpcPacket \<Rightarrow> mergers \<Rightarrow> RpcPacket option \<times> mergers" where
  "server_recv now p mergers =
     (if \<not> is_request p then (None, mergers)
      else
        let key = PacketMergerKey_of p;
            m = (case mergers key of Some m \<Rightarrow> m | None \<Rightarrow> PacketMerger_new now);
            (ret, m') = server_merge now p m
        in (ret, mergers(key := m')))"

definition server_recv_zc ::
  "(bytes \<Rightarrow> RpcPacket option) \<Rightarrow> nat \<Rightarrow> ZCPacket \<Rightarrow> mergers \<Rightarrow> (RpcPacket option \<times> mergers) may_panic" where
  "server_recv_zc decode now zc mergers =
     rbind (payload zc) (\<lambda>bs.
       case decode bs of None \<Rightarrow> Inr (None, mergers) | Some p \<Rightarrow> Inr (server_recv now p mergers))"

definition merger_stale :: "nat \<Rightarrow> PacketMerger \<Rightarrow> bool" where
  "merger_stale now m \<longleftrightarrow> \<not> (now - last_updated m) div 1000 < 10"

definition server_sweep :: "nat \<Rightarrow> mergers \<Rightarrow> mergers" where
  "server_sweep now mergers =
     (\<lambda>k. case mergers k of None \<Rightarrow> None | Some m \<Rightarrow> if merger_stale now m then None else Some m)"

definition handle_rpc_request ::
  "zstd_decompress \<Rightarrow> (bytes \<Rightarrow> RpcRequest option) \<Rightarrow> registry \<Rightarrow> RpcPacket \<Rightarrow> (call_error + bytes) may_panic" where
  "handle_rpc_request zd dec_req reg packet =
     (let bodyr = (case compression_info packet of
                     Some ci \<Rightarrow> decompress_packet zd (CompressionAlgoPb_of_i32 (ci_algo ci)) (body packet)
                   | None \<Rightarrow> Inr (body packet))
      in case bodyr of
           Inl e \<Rightarrow> Inr (Inl (PacketError e))
         | Inr bd \<Rightarrow> (case dec_req bd of
             None \<Rightarrow> Inr (Inl DecodeError)
           | Some req \<Rightarrow>
               rbind (unwrap (descriptor packet)) (\<lambda>d.
               let (t, ret) = call_method reg d (request req) in
               if t > unat (scast (timeout_ms req) :: u64) then Inr (Inl TimedOut)
               else case ret of
                      Inl e \<Rightarrow> Inr (Inl e)
                    | Inr (out, raw_output) \<Rightarrow>
                        Inr (Inr (case raw_output of Some raw \<Rightarrow> raw | None \<Rightarrow> out)))))"

datatype rpc_metric = PeerRpcClientTx | PeerRpcClientRx | PeerRpcServerTx | PeerRpcServerRx | PeerRpcDuration | PeerRpcErrors

datatype rpc_label =
    NetworkName string | SrcPeerId u32 | DstPeerId u32 | ServiceName string | MethodName string
  | Status string | ErrorType nat

type_synonym rpc_stat = "rpc_metric \<times> rpc_label list \<times> u64"

record 'x rpc_env =
  env_zc :: zstd_compress
  env_zd :: zstd_decompress
  env_encode :: "RpcPacket \<Rightarrow> bytes"
  env_decode :: "bytes \<Rightarrow> RpcPacket option"
  env_enc_req :: "RpcRequest \<Rightarrow> bytes"
  env_dec_req :: "bytes \<Rightarrow> RpcRequest option"
  env_enc_resp :: "'x RpcResponse \<Rightarrow> bytes"
  env_dec_resp :: "bytes \<Rightarrow> 'x RpcResponse option"
  env_to_pb :: "call_error \<Rightarrow> 'x"
  env_chk :: bool
  env_garbage :: "nat \<Rightarrow> nat \<Rightarrow> u8"
  env_stats :: bool

definition rpc_labels :: "RpcDescriptor \<Rightarrow> u32 \<Rightarrow> u32 \<Rightarrow> string \<Rightarrow> rpc_label list" where
  "rpc_labels d from to meth =
     [NetworkName (domain_name d), SrcPeerId from, DstPeerId to, ServiceName (service_name d), MethodName meth]"

definition response_args :: "RpcPacket \<Rightarrow> RpcDescriptor \<Rightarrow> bytes \<Rightarrow> CompressionAlgoPb \<Rightarrow> BuildRpcPacketArgs" where
  "response_args packet desc compressed_resp a =
     \<lparr>arg_from_peer = to_peer packet, arg_to_peer = from_peer packet, rpc_desc = desc,
      arg_transaction_id = transaction_id packet, is_req = False, content = compressed_resp,
      arg_trace_id = trace_id packet,
      arg_compression_info =
        \<lparr>ci_algo = CompressionAlgoPb_i32 a, accepted_algo = CompressionAlgoPb_i32 AlgoZstd\<rparr>\<rparr>"

text \<open>\<open>duration_ms\<close> and \<open>us\<close> are the times the clock shows when they are read.\<close>

definition handle_rpc ::
  "'x rpc_env \<Rightarrow> registry \<Rightarrow> u64 \<Rightarrow> u64 \<Rightarrow> RpcPacket \<Rightarrow> (ZCPacket list \<times> rpc_stat list) may_panic" where
  "handle_rpc env reg duration_ms us packet =
     rbind (unwrap (descriptor packet)) (\<lambda>desc.
     let method_name = (case get_method_name reg desc of Some n \<Rightarrow> n | None \<Rightarrow> ''<Nil>'');
         labels = rpc_labels desc (from_peer packet) (to_peer packet) method_name in
     rbind (handle_rpc_request (env_zd env) (env_dec_req env) reg packet) (\<lambda>resp_bytes.
     let (resp_msg, stats) =
           (case resp_bytes of
              Inr r \<Rightarrow>
                (\<lparr>response = r, resp_error = None, runtime_us = us\<rparr>,
                 [(PeerRpcServerTx, labels @ [Status ''success''], 1),
                  (PeerRpcDuration, labels @ [Status ''success''], duration_ms)])
            | Inl e \<Rightarrow>
                (\<lparr>response = [], resp_error = Some (env_to_pb env e), runtime_us = us\<rparr>,
                 [(PeerRpcErrors, labels @ [Status ''error''], 1),
                  (PeerRpcDuration, labels @ [Status ''error''], duration_ms)]));
         accepted = (case compression_info packet of
                       Some ci \<Rightarrow> CompressionAlgoPb_of_i32 (accepted_algo ci) | None \<Rightarrow> AlgoInvalid) in
     rbind (compress_packet (env_zc env) accepted (env_enc_resp env resp_msg)) (\<lambda>cr.
     case cr of
       Inl e \<Rightarrow> Inl UnwrapNone
     | Inr (compressed_resp, a) \<Rightarrow>
         rbind (build_rpc_packet (env_chk env) (env_encode env) (env_garbage env)
                  (response_args packet desc compressed_resp a))
           (\<lambda>packets. Inr (packets,
              if env_stats env then (PeerRpcServerRx, labels, 1) # stats else [])))))"

section \<open>Client\<close>

text \<open>
  \<open>channel\<close> is what was sent to the caller's channel; its receiver is dropped only after the
  entry has left the table (the removal is deferred by a guard declared after the channel), so
  the send cannot fail while the entry exists.
\<close>

record InflightRequest =
  merger :: PacketMerger
  start_time :: nat
  channel :: "RpcPacket list"

type_synonym InflightRequestKey = "u32 \<times> u32 \<times> u64"
type_synonym inflight = "InflightRequestKey \<rightharpoonup> InflightRequest"

record PeerInfo =
  pi_peer_id :: u32
  pi_compression_info :: RpcCompressionInfo
  last_active :: "nat option"

type_synonym peer_info_table = "u32 \<rightharpoonup> PeerInfo"

definition PeerInfo_default :: PeerInfo where
  "PeerInfo_default =
     \<lparr>pi_peer_id = 0, pi_compression_info = \<lparr>ci_algo = 0, accepted_algo = 0\<rparr>, last_active = None\<rparr>"

definition client_recv :: "nat \<Rightarrow> RpcPacket \<Rightarrow> inflight \<Rightarrow> inflight" where
  "client_recv now p table =
     (if is_request p then table
      else
        let key = (to_peer p, from_peer p, transaction_id p) in
        case table key of
          None \<Rightarrow> table
        | Some r \<Rightarrow>
            let (ret, m') = feed now p (merger r) in
            table(key \<mapsto> r\<lparr>merger := m',
                            channel := channel r @ (case ret of Inr (Some q) \<Rightarrow> [q] | _ \<Rightarrow> [])\<rparr>))"

definition peer_info_sweep :: "nat \<Rightarrow> peer_info_table \<Rightarrow> peer_info_table" where
  "peer_info_sweep now tbl =
     (\<lambda>k. case tbl k of
            None \<Rightarrow> None
          | Some v \<Rightarrow> (case last_active v of
              Some t \<Rightarrow> if now - t < 120000 then Some v else None
            | None \<Rightarrow> Some v))"

record call_args =
  ca_from :: u32
  ca_to :: u32
  ca_desc :: RpcDescriptor
  ca_method_name :: string
  ca_raw_input :: "bytes option"
  ca_input :: bytes
  ca_timeout_ms :: u32
  ca_trace_id :: u32

definition request_args :: "call_args \<Rightarrow> u64 \<Rightarrow> bytes \<Rightarrow> CompressionAlgoPb \<Rightarrow> BuildRpcPacketArgs" where
  "request_args ca tid buf c_algo =
     \<lparr>arg_from_peer = ca_from ca, arg_to_peer = ca_to ca, rpc_desc = ca_desc ca, arg_transaction_id = tid,
      is_req = True, content = buf, arg_trace_id = ca_trace_id ca,
      arg_compression_info =
        \<lparr>ci_algo = CompressionAlgoPb_i32 c_algo, accepted_algo = CompressionAlgoPb_i32 AlgoZstd\<rparr>\<rparr>"

text \<open>A call up to the point where it waits for the response: the packets to send.\<close>

definition client_call_start ::
  "'x rpc_env \<Rightarrow> nat \<Rightarrow> u64 \<Rightarrow> call_args \<Rightarrow> peer_info_table \<Rightarrow> inflight \<Rightarrow>
     (ZCPacket list \<times> inflight \<times> rpc_stat list) may_panic" where
  "client_call_start env now tid ca peers table =
     (let table = table((ca_from ca, ca_to ca, tid) \<mapsto>
                          \<lparr>merger = PacketMerger_new now, start_time = now, channel = []\<rparr>);
          labels = rpc_labels (ca_desc ca) (ca_from ca) (ca_to ca) (ca_method_name ca);
          rpc_req = \<lparr>request = (case ca_raw_input ca of Some r \<Rightarrow> r | None \<Rightarrow> ca_input ca),
                     timeout_ms = ca_timeout_ms ca\<rparr>;
          peer_info = (case peers (ca_to ca) of Some v \<Rightarrow> v | None \<Rightarrow> PeerInfo_default) in
      rbind (compress_packet (env_zc env)
               (CompressionAlgoPb_of_i32 (accepted_algo (pi_compression_info peer_info))) (env_enc_req env rpc_req))
        (\<lambda>cr. case cr of
           Inl e \<Rightarrow> Inl UnwrapNone
         | Inr (buf, c_algo) \<Rightarrow>
             rbind (build_rpc_packet (env_chk env) (env_encode env) (env_garbage env)
                      (request_args ca tid buf c_algo))
               (\<lambda>packets. Inr (packets, table,
                  if env_stats env then [(PeerRpcClientTx, labels, 1)] else []))))"

datatype 'x client_error = RemoteError 'x | LocalError call_error

text \<open>
  A call from the moment its response is there: the result, the table of peers, the counters.
  \<open>err_kind\<close> is the number of the error's kind, which labels the counter.
\<close>

definition client_call_finish ::
  "'x rpc_env \<Rightarrow> ('x \<Rightarrow> nat) \<Rightarrow> nat \<Rightarrow> u64 \<Rightarrow> u64 \<Rightarrow> call_args \<Rightarrow> RpcPacket \<Rightarrow> peer_info_table \<Rightarrow>
     (('x client_error + bytes) \<times> peer_info_table \<times> rpc_stat list) may_panic" where
  "client_call_finish env err_kind now duration_ms tid ca rpc_packet peers =
     (let labels = rpc_labels (ca_desc ca) (ca_from ca) (ca_to ca) (ca_method_name ca);
          (bodyr, peers) =
            (case compression_info rpc_packet of
               None \<Rightarrow> (Inr (body rpc_packet), peers)
             | Some ci \<Rightarrow>
                 (decompress_packet (env_zd env) (CompressionAlgoPb_of_i32 (ci_algo ci)) (body rpc_packet),
                  peers(ca_to ca \<mapsto> \<lparr>pi_peer_id = ca_to ca, pi_compression_info = ci, last_active = Some now\<rparr>)))
      in case bodyr of
           Inl e \<Rightarrow> Inr (Inl (LocalError (PacketError e)), peers, [])
         | Inr bd \<Rightarrow>
             rbind (rassert (transaction_id rpc_packet = tid) AssertionFailed) (\<lambda>_.
             case env_dec_resp env bd of
               None \<Rightarrow> Inr (Inl (LocalError DecodeError), peers, [])
             | Some rpc_resp \<Rightarrow>
                 (case resp_error rpc_resp of
                    Some err \<Rightarrow>
                      let labels = labels @ [ErrorType (err_kind err), Status ''error''] in
                      Inr (Inl (RemoteError err), peers,
                           if env_stats env then [(PeerRpcErrors, labels, 1), (PeerRpcDuration, labels, duration_ms)]
                           else [])
                  | None \<Rightarrow>
                      let labels = labels @ [Status ''success''] in
                      Inr (Inr (response rpc_resp), peers,
                           if env_stats env then [(PeerRpcClientRx, labels, 1), (PeerRpcDuration, labels, duration_ms)]
                           else []))))"

section \<open>Sessions of the server\<close>

definition server_key :: "RpcPacket \<Rightarrow> PacketMergerKey option" where
  "server_key p = (if is_request p then Some (PacketMergerKey_of p) else None)"

lemma feed_last_updated:
  assumes "feed now p m = (r, m')"
  shows "last_updated m' = now \<or> last_updated m' = last_updated m"
  using assms by (cases rule: feed_accepts) auto

lemma server_merge_last_updated:
  assumes "snd (server_merge now p m) = Some m'"
  shows "last_updated m' = now \<or> last_updated m' = last_updated m"
  using assms feed_last_updated [of now p m]
  by (auto simp: server_merge_def split: prod.splits sum.splits option.splits)

interpretation srv: timed_sessions server_key "\<lambda>now p. PacketMerger_new now" server_merge merger_stale
  server_recv server_sweep last_updated 10000
proof
  fix p k now st
  assume "server_key p = Some k"
  then show "server_recv now p st =
      (fst (server_merge now p (case st k of Some s \<Rightarrow> s | None \<Rightarrow> PacketMerger_new now)),
       st(k := snd (server_merge now p (case st k of Some s \<Rightarrow> s | None \<Rightarrow> PacketMerger_new now))))"
    by (auto simp: server_key_def server_recv_def Let_def case_prod_beta split: if_splits)
next
  fix now p s s'
  assume "snd (server_merge now p s) = Some s'"
  then show "last_updated s' = now \<or> last_updated s' = last_updated s"
    by (rule server_merge_last_updated)
qed (auto simp: server_key_def server_recv_def server_sweep_def merger_stale_def PacketMerger_new_def
      split: if_splits option.splits)

definition holds_pieces :: "BuildRpcPacketArgs \<Rightarrow> nat set \<Rightarrow> PacketMerger option \<Rightarrow> bool" where
  "holds_pieces args S mo = (case mo of None \<Rightarrow> S = {} | Some m \<Rightarrow> collected args S m)"

lemma server_recv_piece:
  assumes req: "is_req args" and k: "k = (arg_from_peer args, arg_transaction_id args)"
    and h: "holds_pieces args S (st k)" and i: "i < num_pieces args" and n: "num_pieces args \<le> 32 * 1024"
  shows "fst (server_recv now (nth_piece args i) st) =
           (if {..<num_pieces args} \<subseteq> insert i S then Some (merged_packet args) else None)"
    and "\<not> {..<num_pieces args} \<subseteq> insert i S \<Longrightarrow>
           holds_pieces args (insert i S) (snd (server_recv now (nth_piece args i) st) k)"
proof -
  have key: "PacketMergerKey_of (nth_piece args i) = k" and rq: "is_request (nth_piece args i)"
    using k req by (simp_all add: PacketMergerKey_of_def nth_piece_def rpc_piece_at_def)
  have "collected args S (case st k of Some m \<Rightarrow> m | None \<Rightarrow> PacketMerger_new now)"
    using h by (cases "st k") (auto simp: holds_pieces_def collected_def)
  from feed_piece [OF this i n, of now] obtain m' where
    feed: "feed now (nth_piece args i) (case st k of Some m \<Rightarrow> m | None \<Rightarrow> PacketMerger_new now) =
      (Inr (if {..<num_pieces args} \<subseteq> insert i S then Some (merged_packet args) else None), m')"
    and col: "collected args (insert i S) m'"
    by blast
  then show "fst (server_recv now (nth_piece args i) st) =
           (if {..<num_pieces args} \<subseteq> insert i S then Some (merged_packet args) else None)"
    and "\<not> {..<num_pieces args} \<subseteq> insert i S \<Longrightarrow>
           holds_pieces args (insert i S) (snd (server_recv now (nth_piece args i) st) k)"
    using rq by (simp_all add: server_recv_def server_merge_def key feed holds_pieces_def)
qed

lemma server_run_pieces:
  assumes req: "is_req args" and k: "k = (arg_from_peer args, arg_transaction_id args)"
    and n: "num_pieces args \<le> 32 * 1024"
    and "holds_pieces args S (st k)" and "snd ` set tis \<subseteq> {..<num_pieces args}"
    and "tis \<noteq> []" and "{..<num_pieces args} \<subseteq> S \<union> snd ` set tis"
    and "\<not> {..<num_pieces args} \<subseteq> S \<union> snd ` set (butlast tis)"
  shows "fst (run_sessions server_recv server_sweep (map (\<lambda>(t, i). Recv t (nth_piece args i)) tis) st) =
     map (\<lambda>(t, i). (nth_piece args i, None)) (butlast tis) @
     [(nth_piece args (snd (last tis)), Some (merged_packet args))]"
  using assms(4-)
proof (induction tis arbitrary: S st)
  case (Cons ti tis)
  obtain t i where ti: "ti = (t, i)" by force
  then have i: "i < num_pieces args" using Cons.prems by auto
  note step = server_recv_piece [where st = st and now = t, OF req k Cons.prems(1) i n]
  show ?case
  proof (cases "tis = []")
    case True
    with Cons.prems(4) have "{..<num_pieces args} \<subseteq> insert i S" by (auto simp: ti)
    with step(1) show ?thesis
      by (simp add: ti True case_prod_beta)
  next
    case False
    with Cons.prems(5) have "\<not> {..<num_pieces args} \<subseteq> insert i S"
      by (auto simp: ti)
    moreover have "holds_pieces args (insert i S) (snd (server_recv t (nth_piece args i) st) k)"
      using step(2) calculation .
    ultimately show ?thesis
      using Cons.IH [of "insert i S" "snd (server_recv t (nth_piece args i) st)"] Cons.prems False step(1)
      by (auto simp: ti case_prod_beta Let_def image_Un)
  qed
qed simp



section \<open>A call from end to end\<close>

lemma algo_i32_roundtrip [simp]: "CompressionAlgoPb_of_i32 (CompressionAlgoPb_i32 a) = a"
  by (cases a) (simp_all add: CompressionAlgoPb_of_i32_def)

lemma build_rpc_packet_total: "\<exists>zcs. build_rpc_packet chk encode garbage args = Inr zcs"
  by (cases "content args = []") (metis build_rpc_packet_empty, metis build_rpc_packet_carries)

definition call_outcome :: "'x rpc_env \<Rightarrow> call_error + bytes \<times> bytes option \<Rightarrow> 'x client_error + bytes" where
  "call_outcome env ret =
     (case ret of Inl e \<Rightarrow> Inl (RemoteError (env_to_pb env e))
      | Inr (out, raw) \<Rightarrow> Inr (case raw of Some r \<Rightarrow> r | None \<Rightarrow> out))"

definition call_request :: "call_args \<Rightarrow> RpcRequest" where
  "call_request ca =
     \<lparr>request = (case ca_raw_input ca of Some r \<Rightarrow> r | None \<Rightarrow> ca_input ca), timeout_ms = ca_timeout_ms ca\<rparr>"

lemma client_call_start_ok:
  assumes "zstd_laws (env_zc env) zd" and "env_zc env (env_enc_req env (call_request ca)) = Inr small"
    and "length (env_enc_req env (call_request ca)) \<le> 64 * 1024"
  obtains buf a zcs table' st where "client_call_start env now tid ca peers table = Inr (zcs, table', st)"
    and "build_rpc_packet (env_chk env) (env_encode env) (env_garbage env) (request_args ca tid buf a) = Inr zcs"
    and "decompress_packet zd a buf = Inr (env_enc_req env (call_request ca))"
proof -
  obtain buf a where c: "compress_packet (env_zc env)
      (CompressionAlgoPb_of_i32 (accepted_algo (pi_compression_info
        (case peers (ca_to ca) of Some v \<Rightarrow> v | None \<Rightarrow> PeerInfo_default))))
      (env_enc_req env (call_request ca)) = Inr (Inr (buf, a))"
    and d: "decompress_packet zd a buf = Inr (env_enc_req env (call_request ca))"
    by (rule compress_packet_inverse [OF assms])
  obtain zcs where "build_rpc_packet (env_chk env) (env_encode env) (env_garbage env) (request_args ca tid buf a) = Inr zcs"
    using build_rpc_packet_total by blast
  with c d that show ?thesis
    by (simp add: client_call_start_def call_request_def)
qed

lemma handle_rpc_request_ok:
  assumes "decompress_packet zd a buf = Inr (enc_req (call_request ca))"
    and "dec_req (enc_req (call_request ca)) = Some (call_request ca)"
    and "call_method reg (ca_desc ca) (request (call_request ca)) = (t, ret)"
    and "t \<le> unat (scast (ca_timeout_ms ca) :: u64)"
  shows "handle_rpc_request zd dec_req reg (merged_packet (request_args ca tid buf a)) =
    Inr (case ret of Inl e \<Rightarrow> Inl e | Inr (out, raw) \<Rightarrow> Inr (case raw of Some r \<Rightarrow> r | None \<Rightarrow> out))"
  using assms
  by (auto simp: handle_rpc_request_def merged_packet_def nth_piece_def rpc_piece_at_def request_args_def
        call_request_def split: sum.splits)

definition call_response :: "'x rpc_env \<Rightarrow> u64 \<Rightarrow> call_error + bytes \<times> bytes option \<Rightarrow> 'x RpcResponse" where
  "call_response env us ret =
     (case ret of Inl e \<Rightarrow> \<lparr>response = [], resp_error = Some (env_to_pb env e), runtime_us = us\<rparr>
      | Inr (out, raw) \<Rightarrow>
          \<lparr>response = (case raw of Some r \<Rightarrow> r | None \<Rightarrow> out), resp_error = None, runtime_us = us\<rparr>)"

lemma handle_rpc_ok:
  assumes req: "handle_rpc_request (env_zd env) (env_dec_req env) reg (merged_packet (request_args ca tid buf a)) =
      Inr (case ret of Inl e \<Rightarrow> Inl e | Inr (out, raw) \<Rightarrow> Inr (case raw of Some r \<Rightarrow> r | None \<Rightarrow> out))"
    and z: "zstd_laws (env_zc env) zd" "env_zc env (env_enc_resp env (call_response env us ret)) = Inr small"
      "length (env_enc_resp env (call_response env us ret)) \<le> 64 * 1024"
  obtains buf' a' zcs st where
    "handle_rpc env reg dur us (merged_packet (request_args ca tid buf a)) = Inr (zcs, st)"
    and "build_rpc_packet (env_chk env) (env_encode env) (env_garbage env)
           (response_args (merged_packet (request_args ca tid buf a)) (ca_desc ca) buf' a') = Inr zcs"
    and "decompress_packet zd a' buf' = Inr (env_enc_resp env (call_response env us ret))"
proof -
  let ?p = "merged_packet (request_args ca tid buf a)"
  have p: "descriptor ?p = Some (ca_desc ca)"
    "compression_info ?p = Some \<lparr>ci_algo = CompressionAlgoPb_i32 a, accepted_algo = CompressionAlgoPb_i32 AlgoZstd\<rparr>"
    by (simp_all add: merged_packet_def nth_piece_def rpc_piece_at_def request_args_def)
  obtain buf' a' where c: "compress_packet (env_zc env) AlgoZstd (env_enc_resp env (call_response env us ret)) =
      Inr (Inr (buf', a'))"
    and d: "decompress_packet zd a' buf' = Inr (env_enc_resp env (call_response env us ret))"
    by (rule compress_packet_inverse [OF z])
  obtain zcs where b: "build_rpc_packet (env_chk env) (env_encode env) (env_garbage env)
           (response_args ?p (ca_desc ca) buf' a') = Inr zcs"
    using build_rpc_packet_total by blast
  have "\<exists>st. handle_rpc env reg dur us ?p = Inr (zcs, st)"
    using b c unfolding handle_rpc_def p req
    by (cases ret) (auto simp: call_response_def Let_def simp del: CompressionAlgoPb_i32.simps split: prod.splits)
  with b d that show ?thesis by blast
qed

lemma client_call_finish_ok:
  assumes "decompress_packet (env_zd env) a' buf' = Inr (env_enc_resp env (call_response env us ret))"
    and "env_dec_resp env (env_enc_resp env (call_response env us ret)) = Some (call_response env us ret)"
  shows "\<exists>st. client_call_finish env ek now dur tid ca
      (merged_packet (response_args (merged_packet (request_args ca tid buf a)) (ca_desc ca) buf' a')) peers =
    Inr (call_outcome env ret,
         peers(ca_to ca \<mapsto> \<lparr>pi_peer_id = ca_to ca,
           pi_compression_info = \<lparr>ci_algo = CompressionAlgoPb_i32 a', accepted_algo = CompressionAlgoPb_i32 AlgoZstd\<rparr>,
           last_active = Some now\<rparr>), st)"
  using assms
  by (cases ret)
    (auto simp: client_call_finish_def merged_packet_def nth_piece_def rpc_piece_at_def request_args_def
       response_args_def call_response_def call_outcome_def Let_def)

text \<open>
  C21: A call returns to the caller what the service returned. With codecs that decode what they
  encode and messages of at most 64 KiB, the request the client builds is, once merged, handled
  without panic; the response the server builds is, once merged, accepted by the client; the
  caller gets the service's output, or the remote error, for the same transaction; and from then
  on the client compresses for this peer. An unregistered service gives the error of the registry.
\<close>

theorem rpc_call_end_to_end:
  fixes env :: "'x rpc_env"
  assumes laws: "zstd_laws (env_zc env) (env_zd env)"
    and zreq: "env_zc env (env_enc_req env (call_request ca)) = Inr small"
      "length (env_enc_req env (call_request ca)) \<le> 64 * 1024"
    and req: "env_dec_req env (env_enc_req env (call_request ca)) = Some (call_request ca)"
    and call: "call_method reg (ca_desc ca) (request (call_request ca)) = (t, ret)"
      "t \<le> unat (scast (ca_timeout_ms ca) :: u64)"
    and zresp: "env_zc env (env_enc_resp env (call_response env us ret)) = Inr small'"
      "length (env_enc_resp env (call_response env us ret)) \<le> 64 * 1024"
    and resp: "env_dec_resp env (env_enc_resp env (call_response env us ret)) = Some (call_response env us ret)"
  shows "\<exists>args zcs table' st args' zcs' st' peers' st''.
     client_call_start env now tid ca peers table = Inr (zcs, table', st) \<and>
     build_rpc_packet (env_chk env) (env_encode env) (env_garbage env) args = Inr zcs \<and>
     handle_rpc env reg dur us (merged_packet args) = Inr (zcs', st') \<and>
     build_rpc_packet (env_chk env) (env_encode env) (env_garbage env) args' = Inr zcs' \<and>
     client_call_finish env ek now' dur' tid ca (merged_packet args') peers =
       Inr (call_outcome env ret, peers', st'') \<and>
     (\<exists>v. peers' (ca_to ca) = Some v \<and> accepted_algo (pi_compression_info v) = CompressionAlgoPb_i32 AlgoZstd)"
proof -
  obtain buf a zcs table' st where start: "client_call_start env now tid ca peers table = Inr (zcs, table', st)"
    "build_rpc_packet (env_chk env) (env_encode env) (env_garbage env) (request_args ca tid buf a) = Inr zcs"
    and d: "decompress_packet (env_zd env) a buf = Inr (env_enc_req env (call_request ca))"
    by (rule client_call_start_ok [OF laws zreq])
  note h = handle_rpc_request_ok [where enc_req = "env_enc_req env" and dec_req = "env_dec_req env" and tid = tid, OF d req call]
  obtain buf' a' zcs' st' where
    handle: "handle_rpc env reg dur us (merged_packet (request_args ca tid buf a)) = Inr (zcs', st')"
      "build_rpc_packet (env_chk env) (env_encode env) (env_garbage env)
         (response_args (merged_packet (request_args ca tid buf a)) (ca_desc ca) buf' a') = Inr zcs'"
    and d': "decompress_packet (env_zd env) a' buf' = Inr (env_enc_resp env (call_response env us ret))"
    by (rule handle_rpc_ok [OF h laws zresp])
  from client_call_finish_ok [OF d' resp, of ek now' dur' tid ca buf a peers] start handle show ?thesis
    by fastforce
qed

theorem rpc_call_end_to_end_witness:
  defines "env \<equiv> \<lparr>env_zc = \<lambda>x. Inr x, env_zd = \<lambda>y cap. if length y \<le> cap then DecOk y else DecTooSmall,
     env_encode = body, env_decode = \<lambda>_. None,
     env_enc_req = request, env_dec_req = \<lambda>bs. Some \<lparr>request = bs, timeout_ms = 1000\<rparr>,
     env_enc_resp = response, env_dec_resp = \<lambda>bs. Some \<lparr>response = bs, resp_error = None, runtime_us = 5\<rparr>,
     env_to_pb = \<lambda>_. 0 :: nat, env_chk = True, env_garbage = \<lambda>_ _. 0, env_stats = True\<rparr>"
  defines "svc \<equiv> \<lparr>svc_name = ''Echo'', svc_proto_name = ''e'', svc_method_name = \<lambda>_. Some ''echo'',
     svc_call = \<lambda>_ input. (3, Inr (input @ [9], None))\<rparr>"
  defines "ca \<equiv> \<lparr>ca_from = 1, ca_to = 2,
     ca_desc = \<lparr>domain_name = ''net'', proto_name = ''e'', service_name = ''Echo'', method_index = 0\<rparr>,
     ca_method_name = ''echo'', ca_raw_input = None, ca_input = [1, 2], ca_timeout_ms = 1000, ca_trace_id = 0\<rparr>"
  defines "reg \<equiv> register svc ''net'' Map.empty"
  shows "\<exists>args zcs table' st args' zcs' st' peers' st''.
     client_call_start env 0 77 ca Map.empty Map.empty = Inr (zcs, table', st) \<and>
     build_rpc_packet True body (\<lambda>_ _. 0) args = Inr zcs \<and>
     handle_rpc env reg 3 5 (merged_packet args) = Inr (zcs', st') \<and>
     build_rpc_packet True body (\<lambda>_ _. 0) args' = Inr zcs' \<and>
     client_call_finish env (\<lambda>n. n) 8 8 77 ca (merged_packet args') Map.empty = Inr (Inr [1, 2, 9], peers', st'') \<and>
     (\<exists>v. peers' 2 = Some v \<and> accepted_algo (pi_compression_info v) = CompressionAlgoPb_i32 AlgoZstd)"
proof -
  have laws: "zstd_laws (env_zc env) (env_zd env)"
    by (simp add: zstd_laws_def env_def)
  have call: "call_method reg (ca_desc ca) (request (call_request ca)) = (3, Inr ([1, 2, 9], None))"
    by (simp add: call_method_def reg_def register_def svc_key_def svc_def ca_def ServiceKey_from_def call_request_def)
  have "call_outcome env (Inr ([1, 2, 9], None)) = Inr [1, 2, 9]"
    by (simp add: call_outcome_def)
  moreover have "(3 :: nat) \<le> unat (scast (ca_timeout_ms ca) :: u64)"
    by (simp add: ca_def)
  ultimately show ?thesis
    using rpc_call_end_to_end [OF laws _ _ _ call, of "[1, 2]" 5 "[1, 2, 9]" 0 77 Map.empty Map.empty 3 "\<lambda>n. n" 8 8]
    by (simp add: env_def ca_def call_request_def call_response_def)
qed

section \<open>A request without a descriptor\<close>

text \<open>
  A single request packet in the old format (no pieces, index 0) that has no descriptor passes
  the merger unchecked, is handed to the handler, and the handler panics on it.
\<close>

theorem undescribed_request_panics:
  assumes "is_request p" and "total_pieces p = 0" and "piece_idx p = 0" and "descriptor p = None"
  shows "fst (server_recv now p mergers) = Some p \<and> handle_rpc env reg dur us p = Inl UnwrapNone"
  using assms by (simp add: server_recv_def server_merge_def feed_def handle_rpc_def)

theorem undescribed_request_panics_witness:
  "fst (server_recv 0 (RpcPacket_default\<lparr>is_request := True\<rparr>) Map.empty) = Some (RpcPacket_default\<lparr>is_request := True\<rparr>) \<and>
   (\<forall>(env :: nat rpc_env) reg. handle_rpc env reg 0 0 (RpcPacket_default\<lparr>is_request := True\<rparr>) = Inl UnwrapNone)"
proof -
  have "fst (server_recv 0 (RpcPacket_default\<lparr>is_request := True\<rparr>) Map.empty) =
      Some (RpcPacket_default\<lparr>is_request := True\<rparr>) \<and>
    handle_rpc env reg 0 0 (RpcPacket_default\<lparr>is_request := True\<rparr>) = Inl UnwrapNone" for env :: "nat rpc_env" and reg
    by (rule undescribed_request_panics) (simp_all add: RpcPacket_default_def)
  then show ?thesis
    by blast
qed

end
