(* ===== verification/Ip_Reassembler.thy ===== *)
theory Ip_Reassembler
  imports Keyed_Sessions "HOL-Library.Multiset"
begin

text \<open>
  IPv4 fragmentation and reassembly in the gateway, \<open>src/easytier/src/gateway/ip_reassembler.rs\<close>.
  Packets are the pnet library's: a header, given by its fields, and a payload; their wire form
  is the parameter \<open>ipv4_hdr\<close>, the 20 bytes of a header without options (checksum included), and
  the parameter \<open>Ipv4Packet_new\<close>, which reads a packet from its bytes. Fields of 16 bits keep
  their width; \<open>chk\<close> says whether arithmetic is checked for overflow. Instants are natural numbers.
\<close>

type_synonym Ipv4Addr = u32

record Ipv4Fields =
  version :: u8
  header_length :: u8
  dscp :: u8
  ecn :: u8
  ip_total_length :: u16
  identification :: u16
  ip_flags :: u8
  fragment_offset :: u16
  ttl :: u8
  next_level_protocol :: u8
  ip_source :: Ipv4Addr
  ip_destination :: Ipv4Addr

record Ipv4Packet =
  ip_hdr :: Ipv4Fields
  ip_payload :: bytes

definition MoreFragments :: u8 where "MoreFragments = 0b001"
definition DontFragment :: u8 where "DontFragment = 0b010"

section \<open>Fragments and packets under reassembly\<close>

record IpFragment =
  frag_id :: u16
  frag_offset :: u16
  frag_data :: bytes

definition IpFragment_from :: "bool \<Rightarrow> Ipv4Packet \<Rightarrow> IpFragment may_panic" where
  "IpFragment_from chk p =
     rbind (umul chk (fragment_offset (ip_hdr p)) 8) (\<lambda>off.
       Inr \<lparr>frag_id = identification (ip_hdr p), frag_offset = off, frag_data = ip_payload p\<rparr>)"

record IpPacket =
  pk_source :: Ipv4Addr
  pk_destination :: Ipv4Addr
  pk_total_length :: "u16 option"
  fragments :: "IpFragment list"

definition IpPacket_new :: "Ipv4Addr \<Rightarrow> Ipv4Addr \<Rightarrow> IpPacket" where
  "IpPacket_new src dst = \<lparr>pk_source = src, pk_destination = dst, pk_total_length = None, fragments = []\<rparr>"

text \<open>Is \<open>a\<close>'s start inside \<open>f\<close>? The sum is formed only when the first comparison holds.\<close>

definition starts_inside :: "bool \<Rightarrow> IpFragment \<Rightarrow> IpFragment \<Rightarrow> bool may_panic" where
  "starts_inside chk f a =
     (if frag_offset f \<le> frag_offset a
      then rbind (uadd chk (frag_offset f) (of_nat (length (frag_data f)))) (\<lambda>e. Inr (frag_offset a < e))
      else Inr False)"

fun overlaps :: "bool \<Rightarrow> IpFragment \<Rightarrow> IpFragment list \<Rightarrow> bool may_panic" where
  "overlaps chk a [] = Inr False"
| "overlaps chk a (f # fs) =
     rbind (starts_inside chk f a) (\<lambda>b1.
       if b1 then Inr True
       else rbind (starts_inside chk a f) (\<lambda>b2. if b2 then Inr True else overlaps chk a fs))"

definition IpPacket_add_fragment :: "bool \<Rightarrow> IpFragment \<Rightarrow> IpPacket \<Rightarrow> IpPacket may_panic" where
  "IpPacket_add_fragment chk a pk =
     rbind (overlaps chk a (fragments pk)) (\<lambda>b.
       Inr (if b then pk else pk\<lparr>fragments := fragments pk @ [a]\<rparr>))"

fun sum_lengths :: "bool \<Rightarrow> u16 \<Rightarrow> IpFragment list \<Rightarrow> u16 may_panic" where
  "sum_lengths chk acc [] = Inr acc"
| "sum_lengths chk acc (f # fs) =
     rbind (uadd chk acc (of_nat (length (frag_data f)))) (\<lambda>acc. sum_lengths chk acc fs)"

definition is_complete :: "bool \<Rightarrow> IpPacket \<Rightarrow> bool may_panic" where
  "is_complete chk pk =
     (if pk_total_length pk = None then Inr False
      else rbind (sum_lengths chk 0 (fragments pk)) (\<lambda>n. Inr (Some n = pk_total_length pk)))"

definition set_total_length :: "u16 \<Rightarrow> IpPacket \<Rightarrow> IpPacket" where
  "set_total_length n pk = pk\<lparr>pk_total_length := Some n\<rparr>"

fun place_fragments :: "IpFragment list \<Rightarrow> bytes \<Rightarrow> bytes may_panic" where
  "place_fragments [] packet = Inr packet"
| "place_fragments (f # fs) packet =
     (let start = unat (frag_offset f); end = start + length (frag_data f) in
      rbind (copy_from_slice packet start end (frag_data f)) (place_fragments fs))"

text \<open>The result of \<open>assemble\<close>, and the packet, whose fragments are sorted when it is complete.\<close>

definition assemble :: "bool \<Rightarrow> IpPacket \<Rightarrow> bytes option may_panic \<times> IpPacket" where
  "assemble chk pk =
     (case is_complete chk pk of
        Inl e \<Rightarrow> (Inl e, pk)
      | Inr False \<Rightarrow> (Inr None, pk)
      | Inr True \<Rightarrow>
          let pk = pk\<lparr>fragments := sort_key frag_offset (fragments pk)\<rparr> in
          (rbind (unwrap (pk_total_length pk)) (\<lambda>n.
           rbind (place_fragments (fragments pk) (replicate (unat n) 0)) (\<lambda>packet. Inr (Some packet))), pk))"

section \<open>The reassembler\<close>

type_synonym IpResemblerKey = "Ipv4Addr \<times> Ipv4Addr \<times> u16"

record IpResemblerValue =
  rv_packet :: IpPacket
  timestamp :: nat

type_synonym reasm_input = "Ipv4Addr \<times> Ipv4Addr \<times> Ipv4Packet"
type_synonym reasm_table = "IpResemblerKey \<rightharpoonup> IpResemblerValue"

definition is_packet_fragmented :: "Ipv4Packet \<Rightarrow> bool" where
  "is_packet_fragmented p \<longleftrightarrow> fragment_offset (ip_hdr p) \<noteq> 0 \<or> ip_flags (ip_hdr p) AND MoreFragments \<noteq> 0"

definition is_last_fragment :: "Ipv4Packet \<Rightarrow> bool" where
  "is_last_fragment p \<longleftrightarrow> ip_flags (ip_hdr p) AND MoreFragments = 0"

text \<open>
  \<open>add_fragment\<close> up to the table: the length check and the fragment. \<open>Inr None\<close> is the early
  return.
\<close>

definition fragment_of :: "bool \<Rightarrow> Ipv4Packet \<Rightarrow> (u16 \<times> IpFragment) option may_panic" where
  "fragment_of chk p =
     rbind (umul chk (ucast (header_length (ip_hdr p))) 4) (\<lambda>hl.
     rbind (usub chk (ip_total_length (ip_hdr p)) hl) (\<lambda>total_length.
       if total_length \<noteq> of_nat (length (ip_payload p)) then Inr None
       else rbind (IpFragment_from chk p) (\<lambda>f. Inr (Some (total_length, f)))))"

text \<open>
  \<open>add_fragment\<close> on the entry of the table: the result and the entry afterwards, \<open>None\<close> when it is
  removed. A panic unwinds through the entry's guard and leaves what was written.
\<close>

definition reasm_entry ::
  "bool \<Rightarrow> nat \<Rightarrow> reasm_input \<Rightarrow> IpResemblerValue \<Rightarrow> bytes option may_panic \<times> IpResemblerValue option" where
  "reasm_entry chk now inp v =
     (case inp of (src, dst, p) \<Rightarrow> case fragment_of chk p of
        Inl e \<Rightarrow> (Inl e, Some v)
      | Inr None \<Rightarrow> (Inr None, Some v)
      | Inr (Some (total_length, f)) \<Rightarrow>
          (case (if is_last_fragment p
                 then rbind (uadd chk total_length (frag_offset f)) (\<lambda>n. Inr (set_total_length n (rv_packet v)))
                 else Inr (rv_packet v)) of
             Inl e \<Rightarrow> (Inl e, Some v)
           | Inr pk \<Rightarrow> (case IpPacket_add_fragment chk f pk of
               Inl e \<Rightarrow> (Inl e, Some (v\<lparr>rv_packet := pk\<rparr>))
             | Inr pk \<Rightarrow> (case assemble chk pk of
                 (Inl e, pk) \<Rightarrow> (Inl e, Some (v\<lparr>rv_packet := pk\<rparr>))
               | (Inr (Some data), pk) \<Rightarrow> (Inr (Some data), None)
               | (Inr None, pk) \<Rightarrow> (Inr None, Some (v\<lparr>rv_packet := pk, timestamp := now\<rparr>))))))"

definition IpResemblerValue_new :: "nat \<Rightarrow> reasm_input \<Rightarrow> IpResemblerValue" where
  "IpResemblerValue_new now inp =
     (case inp of (src, dst, p) \<Rightarrow> \<lparr>rv_packet = IpPacket_new src dst, timestamp = now\<rparr>)"

definition IpReassembler_add_fragment ::
  "bool \<Rightarrow> nat \<Rightarrow> reasm_input \<Rightarrow> reasm_table \<Rightarrow> bytes option may_panic \<times> reasm_table" where
  "IpReassembler_add_fragment chk now inp packets =
     (case inp of (src, dst, p) \<Rightarrow> case fragment_of chk p of
        Inl e \<Rightarrow> (Inl e, packets)
      | Inr None \<Rightarrow> (Inr None, packets)
      | Inr (Some _) \<Rightarrow>
          let key = (src, dst, identification (ip_hdr p));
              entry = (case packets key of Some v \<Rightarrow> v | None \<Rightarrow> IpResemblerValue_new now inp);
              (out, entry') = reasm_entry chk now inp entry
          in (out, packets(key := entry')))"

definition reasm_stale :: "nat \<Rightarrow> nat \<Rightarrow> IpResemblerValue \<Rightarrow> bool" where
  "reasm_stale timeout now v \<longleftrightarrow> \<not> now - timestamp v \<le> timeout"

definition remove_expired_packets :: "nat \<Rightarrow> nat \<Rightarrow> reasm_table \<Rightarrow> reasm_table" where
  "remove_expired_packets timeout now packets =
     (\<lambda>k. case packets k of None \<Rightarrow> None | Some v \<Rightarrow> if reasm_stale timeout now v then None else Some v)"

section \<open>Fragmenting\<close>

record ComposeIpv4PacketArgs =
  src_v4 :: Ipv4Addr
  dst_v4 :: Ipv4Addr
  next_protocol :: u8
  arg_payload_len :: nat
  payload_mtu :: nat
  ip_id :: u16

definition piece_fields :: "ComposeIpv4PacketArgs \<Rightarrow> nat \<Rightarrow> nat \<Rightarrow> nat \<Rightarrow> nat \<Rightarrow> Ipv4Fields may_panic" where
  "piece_fields args total_pieces cur_piece fragment_off fragment_len =
     rbind (if total_pieces > 1
            then rbind (rassert (fragment_off mod 8 = 0) AssertionFailed) (\<lambda>_.
                   Inr (if cur_piece \<noteq> total_pieces - 1 then MoreFragments else 0, of_nat fragment_off div 8))
            else Inr (DontFragment, 0))
       (\<lambda>(fl, off).
          Inr \<lparr>version = 4, header_length = 5, dscp = 0, ecn = 0,
               ip_total_length = of_nat (fragment_len + 20), identification = ip_id args,
               ip_flags = fl, fragment_offset = off, ttl = 32,
               next_level_protocol = next_protocol args, ip_source = src_v4 args, ip_destination = dst_v4 args\<rparr>)"

text \<open>
  The loop: the packets handed to the callback, in order, and how it ended. It is entered with a
  positive \<open>payload_mtu\<close> only, since the division before it panics otherwise; the test of
  \<open>payload_mtu\<close> makes the function total.
\<close>

function compose_loop ::
  "(Ipv4Fields \<Rightarrow> bytes) \<Rightarrow> ComposeIpv4PacketArgs \<Rightarrow> (bytes \<Rightarrow> 'e + unit) \<Rightarrow> nat \<Rightarrow>
     bytes \<Rightarrow> nat \<Rightarrow> nat \<Rightarrow> nat \<Rightarrow> bytes list \<times> ('e + unit) may_panic" where
  "compose_loop ipv4_hdr args cb total_pieces buf buf_offset fragment_off cur_piece =
     (if fragment_off < arg_payload_len args \<and> 0 < payload_mtu args then
        let next_fragment_off = min (fragment_off + payload_mtu args) (arg_payload_len args);
            fragment_len = next_fragment_off - fragment_off in
        case subslice buf buf_offset (buf_offset + fragment_len + 20) of
          Inl e \<Rightarrow> ([], Inl e)
        | Inr view \<Rightarrow> (case piece_fields args total_pieces cur_piece fragment_off fragment_len of
            Inl e \<Rightarrow> ([], Inl e)
          | Inr flds \<Rightarrow>
              let packet = ipv4_hdr flds @ drop 20 view;
                  buf = take buf_offset buf @ packet @ drop (buf_offset + fragment_len + 20) buf in
              (case cb packet of
                 Inl e \<Rightarrow> ([packet], Inr (Inl e))
               | Inr _ \<Rightarrow>
                   let (ps, r) = compose_loop ipv4_hdr args cb total_pieces buf
                                   (buf_offset + (next_fragment_off - fragment_off)) next_fragment_off (cur_piece + 1)
                   in (packet # ps, r)))
      else ([], Inr (Inr ())))"
  by pat_completeness auto
termination
  by (relation "measure (\<lambda>(h, args, cb, tp, buf, bo, fo, cp). arg_payload_len args - fo)") auto

declare compose_loop.simps [simp del]

definition compose_ipv4_packet ::
  "(Ipv4Fields \<Rightarrow> bytes) \<Rightarrow> ComposeIpv4PacketArgs \<Rightarrow> bytes \<Rightarrow> (bytes \<Rightarrow> 'e + unit) \<Rightarrow>
     bytes list \<times> ('e + unit) may_panic" where
  "compose_ipv4_packet ipv4_hdr args buf cb =
     (if payload_mtu args = 0 then ([], Inl DivisionByZero)
      else compose_loop ipv4_hdr args cb (div_ceil (arg_payload_len args) (payload_mtu args)) buf 0 0 0)"

section \<open>Sessions of the reassembler\<close>

definition reasm_key :: "bool \<Rightarrow> reasm_input \<Rightarrow> IpResemblerKey option" where
  "reasm_key chk inp =
     (case inp of (src, dst, p) \<Rightarrow> case fragment_of chk p of
        Inr (Some _) \<Rightarrow> Some (src, dst, identification (ip_hdr p)) | _ \<Rightarrow> None)"

lemma reasm_entry_timestamp:
  assumes "snd (reasm_entry chk now inp v) = Some v'"
  shows "timestamp v' = now \<or> timestamp v' = timestamp v"
  using assms unfolding reasm_entry_def
  by (auto split: prod.splits sum.splits option.splits if_splits)

interpretation reasm: timed_sessions "reasm_key chk" IpResemblerValue_new "reasm_entry chk" "reasm_stale timeout"
  "IpReassembler_add_fragment chk" "remove_expired_packets timeout" timestamp timeout for chk timeout
proof
  fix p k now st
  assume "reasm_key chk p = Some k"
  then show "IpReassembler_add_fragment chk now p st =
      (fst (reasm_entry chk now p (case st k of Some s \<Rightarrow> s | None \<Rightarrow> IpResemblerValue_new now p)),
       st(k := snd (reasm_entry chk now p (case st k of Some s \<Rightarrow> s | None \<Rightarrow> IpResemblerValue_new now p))))"
    by (auto simp: reasm_key_def IpReassembler_add_fragment_def Let_def case_prod_beta
        split: sum.splits option.splits prod.splits)
next
  fix p now st
  assume "reasm_key chk p = None"
  then show "snd (IpReassembler_add_fragment chk now p st) = st"
    by (auto simp: reasm_key_def IpReassembler_add_fragment_def split: sum.splits option.splits prod.splits)
next
  fix now p s s'
  assume "snd (reasm_entry chk now p s) = Some s'"
  then show "timestamp s' = now \<or> timestamp s' = timestamp s"
    by (rule reasm_entry_timestamp)
qed (auto simp: remove_expired_packets_def reasm_stale_def IpResemblerValue_new_def split: option.splits prod.splits)

section \<open>The pieces of one datagram\<close>

definition ip_pieces :: "ComposeIpv4PacketArgs \<Rightarrow> nat" where
  "ip_pieces args = div_ceil (arg_payload_len args) (payload_mtu args)"

definition ip_piece_len :: "ComposeIpv4PacketArgs \<Rightarrow> nat \<Rightarrow> nat" where
  "ip_piece_len args i = min (payload_mtu args) (arg_payload_len args - i * payload_mtu args)"

definition ip_piece_fields :: "ComposeIpv4PacketArgs \<Rightarrow> nat \<Rightarrow> Ipv4Fields" where
  "ip_piece_fields args i =
     \<lparr>version = 4, header_length = 5, dscp = 0, ecn = 0,
      ip_total_length = of_nat (ip_piece_len args i + 20), identification = ip_id args,
      ip_flags = (if ip_pieces args > 1 then if i \<noteq> ip_pieces args - 1 then MoreFragments else 0 else DontFragment),
      fragment_offset = of_nat (i * payload_mtu args div 8), ttl = 32,
      next_level_protocol = next_protocol args, ip_source = src_v4 args, ip_destination = dst_v4 args\<rparr>"

definition ip_piece_data :: "ComposeIpv4PacketArgs \<Rightarrow> bytes \<Rightarrow> nat \<Rightarrow> bytes" where
  "ip_piece_data args pl i = take (payload_mtu args) (drop (i * payload_mtu args) pl)"

definition ip_piece :: "ComposeIpv4PacketArgs \<Rightarrow> bytes \<Rightarrow> nat \<Rightarrow> Ipv4Packet" where
  "ip_piece args pl i = \<lparr>ip_hdr = ip_piece_fields args i, ip_payload = ip_piece_data args pl i\<rparr>"

text \<open>
  The datagrams that fragments can carry: at most 65535 bytes, in pieces of a positive multiple of
  eight bytes that fit a packet.
\<close>

definition fragmentable :: "ComposeIpv4PacketArgs \<Rightarrow> bytes \<Rightarrow> bool" where
  "fragmentable args pl \<longleftrightarrow>
     length pl = arg_payload_len args \<and> 0 < length pl \<and> length pl \<le> 65535 \<and>
     0 < payload_mtu args \<and> payload_mtu args mod 8 = 0 \<and> payload_mtu args + 20 \<le> 65535"

lemma less_ip_pieces_iff:
  "fragmentable args pl \<Longrightarrow> i < ip_pieces args \<longleftrightarrow> i * payload_mtu args < length pl"
  unfolding fragmentable_def ip_pieces_def by (metis less_div_ceil_iff)

definition ip_fragment :: "ComposeIpv4PacketArgs \<Rightarrow> bytes \<Rightarrow> nat \<Rightarrow> IpFragment" where
  "ip_fragment args pl i =
     \<lparr>frag_id = ip_id args, frag_offset = of_nat (i * payload_mtu args), frag_data = ip_piece_data args pl i\<rparr>"

lemma length_ip_piece_data:
  "fragmentable args pl \<Longrightarrow> length (ip_piece_data args pl i) = ip_piece_len args i"
  by (auto simp: fragmentable_def ip_piece_data_def ip_piece_len_def)

lemma ip_offset:
  assumes "fragmentable args pl" and "i < ip_pieces args"
  shows "unat (of_nat (i * payload_mtu args) :: u16) = i * payload_mtu args"
    and "(of_nat (i * payload_mtu args div 8) :: u16) * 8 = of_nat (i * payload_mtu args)"
    and "unat (of_nat (i * payload_mtu args div 8) :: u16) * 8 = i * payload_mtu args"
proof -
  have lt: "i * payload_mtu args < 2 ^ 16"
    using assms less_ip_pieces_iff [OF assms(1), of i] by (auto simp: fragmentable_def)
  then show "unat (of_nat (i * payload_mtu args) :: u16) = i * payload_mtu args"
    by (simp add: unat_of_nat del: of_nat_mult)
  have div8: "i * payload_mtu args div 8 * 8 = i * payload_mtu args"
    using assms(1) by (auto simp: fragmentable_def)
  then show "(of_nat (i * payload_mtu args div 8) :: u16) * 8 = of_nat (i * payload_mtu args)"
    by (metis of_nat_mult of_nat_numeral)
  have "unat (of_nat (i * payload_mtu args div 8) :: u16) = i * payload_mtu args div 8"
    using lt by (simp add: unat_of_nat del: of_nat_mult)
  then show "unat (of_nat (i * payload_mtu args div 8) :: u16) * 8 = i * payload_mtu args"
    using div8 by simp
qed

lemma fragment_of_piece:
  assumes fr: "fragmentable args pl" and i: "i < ip_pieces args"
  shows "fragment_of chk (ip_piece args pl i) = Inr (Some (of_nat (ip_piece_len args i), ip_fragment args pl i))"
proof -
  have len: "ip_piece_len args i + 20 < 2 ^ 16"
    using fr by (auto simp: fragmentable_def ip_piece_len_def)
  have "usub chk (of_nat (ip_piece_len args i + 20)) (20 :: u16) = Inr (of_nat (ip_piece_len args i))"
    using len by (simp add: usub_def unat_word_ariths unat_of_nat)
  moreover have "umul chk (of_nat (i * payload_mtu args div 8) :: u16) 8 = Inr (of_nat (i * payload_mtu args))"
    using ip_offset [OF fr i] less_ip_pieces_iff [OF fr, of i] i fr
    by (auto simp: umul_def fragmentable_def simp del: of_nat_mult)
  ultimately show ?thesis
    using length_ip_piece_data [OF fr, of i]
    by (simp add: fragment_of_def ip_piece_def ip_piece_fields_def IpFragment_from_def ip_fragment_def umul_def)
qed

lemma ip_piece_len_bounds:
  assumes "fragmentable args pl" and "i < ip_pieces args"
  shows "0 < ip_piece_len args i" and "i * payload_mtu args + ip_piece_len args i \<le> length pl"
    and "ip_piece_len args i \<le> payload_mtu args"
  using assms less_ip_pieces_iff [OF assms(1), of i] by (auto simp: fragmentable_def ip_piece_len_def)

lemma ip_piece_end:
  assumes "fragmentable args pl" and "i < ip_pieces args"
  shows "i * payload_mtu args + ip_piece_len args i = min (Suc i * payload_mtu args) (length pl)"
proof -
  have "i * payload_mtu args < arg_payload_len args" and "length pl = arg_payload_len args"
    using assms less_ip_pieces_iff [OF assms(1), of i] by (auto simp: fragmentable_def)
  then show ?thesis
    by (auto simp: ip_piece_len_def min_def)
qed

lemma ip_piece_offset_mono:
  assumes "fragmentable args pl" and "i < ip_pieces args" and "j < ip_pieces args"
  shows "(of_nat (j * payload_mtu args) :: u16) \<le> of_nat (i * payload_mtu args) \<longleftrightarrow> j \<le> i"
  using assms ip_offset(1) [OF assms(1,2)] ip_offset(1) [OF assms(1,3)]
  by (simp add: word_le_nat_alt fragmentable_def del: of_nat_mult)

lemma starts_inside_pieces:
  assumes fr: "fragmentable args pl" and i: "i < ip_pieces args" and j: "j < ip_pieces args"
  shows "starts_inside chk (ip_fragment args pl j) (ip_fragment args pl i) = Inr (j = i)"
proof (cases "j \<le> i")
  case True
  let ?o = "\<lambda>k. of_nat (k * payload_mtu args) :: u16"
  have len: "unat (of_nat (ip_piece_len args j) :: u16) = ip_piece_len args j"
    using ip_piece_len_bounds [OF fr j] fr by (simp add: unat_of_nat fragmentable_def)
  have e: "j * payload_mtu args + ip_piece_len args j < 2 ^ 16"
    using ip_piece_len_bounds(2) [OF fr j] fr by (simp add: fragmentable_def)
  then have add: "uadd chk (?o j) (of_nat (ip_piece_len args j)) = Inr (?o j + of_nat (ip_piece_len args j))"
    using ip_offset(1) [OF fr j] len by (simp add: uadd_in_range del: of_nat_mult)
  have "unat (?o j + of_nat (ip_piece_len args j)) = j * payload_mtu args + ip_piece_len args j"
    using e ip_offset(1) [OF fr j] len by (simp add: unat_word_ariths del: of_nat_mult)
  then have "?o i < ?o j + of_nat (ip_piece_len args j) \<longleftrightarrow>
      i * payload_mtu args < j * payload_mtu args + ip_piece_len args j"
    using ip_offset(1) [OF fr i] by (simp add: word_less_nat_alt del: of_nat_mult)
  also have "\<dots> \<longleftrightarrow> j = i"
  proof (cases "j = i")
    case False
    with True have "Suc j * payload_mtu args \<le> i * payload_mtu args"
      by (intro mult_le_mono1) simp
    with False ip_piece_len_bounds(3) [OF fr j] show ?thesis
      by simp
  qed (use ip_piece_len_bounds [OF fr i] in simp)
  finally show ?thesis
    using True add ip_piece_offset_mono [OF fr i j] length_ip_piece_data [OF fr, of j]
    by (simp add: starts_inside_def ip_fragment_def del: of_nat_mult)
next
  case False
  then show ?thesis
    using ip_piece_offset_mono [OF fr i j]
    by (auto simp: starts_inside_def ip_fragment_def simp del: of_nat_mult)
qed

lemma overlaps_pieces:
  assumes fr: "fragmentable args pl" and i: "i < ip_pieces args" and "set js \<subseteq> {..<ip_pieces args}"
  shows "overlaps chk (ip_fragment args pl i) (map (ip_fragment args pl) js) = Inr (i \<in> set js)"
  using assms(3) by (induction js) (auto simp: starts_inside_pieces [OF fr] i)

lemma concat_ip_pieces:
  "fragmentable args pl \<Longrightarrow> concat (map (ip_piece_data args pl) [0..<i]) = take (i * payload_mtu args) pl"
  by (induction i) (simp_all add: ip_piece_data_def take_add add.commute [of "payload_mtu args"])

lemma sum_ip_pieces:
  assumes fr: "fragmentable args pl"
  shows "(\<Sum>i<ip_pieces args. ip_piece_len args i) = length pl"
proof -
  have "length (concat (map (ip_piece_data args pl) [0..<ip_pieces args])) = length pl"
    using concat_ip_pieces [OF fr] less_ip_pieces_iff [OF fr, of "ip_pieces args"] by simp
  then show ?thesis
    by (simp add: length_concat length_ip_piece_data [OF fr] sum_list_sum_nth atLeast0LessThan)
qed

lemma sum_ip_pieces_part:
  assumes fr: "fragmentable args pl" and S: "S \<subseteq> {..<ip_pieces args}"
  shows "(\<Sum>i\<in>S. ip_piece_len args i) \<le> length pl"
    and "(\<Sum>i\<in>S. ip_piece_len args i) = length pl \<longleftrightarrow> S = {..<ip_pieces args}"
proof -
  show "(\<Sum>i\<in>S. ip_piece_len args i) \<le> length pl"
    using sum_ip_pieces [OF fr] sum_mono2 [OF _ S, of "ip_piece_len args"] by simp
  have "(\<Sum>i\<in>S. ip_piece_len args i) < length pl" if ne: "S \<noteq> {..<ip_pieces args}"
  proof -
    obtain b where "b \<in> {..<ip_pieces args} - S"
      using ne S by blast
    then show ?thesis
      using sum_strict_mono2 [OF _ S, of b "ip_piece_len args"] ip_piece_len_bounds(1) [OF fr, of b]
        sum_ip_pieces [OF fr] by auto
  qed
  then show "(\<Sum>i\<in>S. ip_piece_len args i) = length pl \<longleftrightarrow> S = {..<ip_pieces args}"
    using sum_ip_pieces [OF fr] by (metis less_irrefl)
qed

lemma sum_lengths_in_range:
  assumes "unat acc + sum_list (map (length \<circ> frag_data) fs) < 2 ^ 16"
  shows "sum_lengths chk acc fs = Inr (acc + of_nat (sum_list (map (length \<circ> frag_data) fs)))"
  using assms
proof (induction fs arbitrary: acc)
  case (Cons f fs)
  have l: "unat (of_nat (length (frag_data f)) :: u16) = length (frag_data f)"
    using Cons.prems by (simp add: unat_of_nat)
  then have "unat (acc + of_nat (length (frag_data f))) = unat acc + length (frag_data f)"
    using Cons.prems by (simp add: unat_word_ariths)
  with Cons l show ?case
    by (simp add: uadd_in_range add.assoc)
qed simp

lemma place_pieces:
  assumes fr: "fragmentable args pl" and "i \<le> ip_pieces args"
  shows "place_fragments (map (ip_fragment args pl) [i..<ip_pieces args])
      (take (i * payload_mtu args) pl @ replicate (length pl - i * payload_mtu args) 0) = Inr pl"
  using assms(2)
proof (induction "ip_pieces args - i" arbitrary: i)
  case 0
  then show ?case
    using less_ip_pieces_iff [OF fr, of i] by simp
next
  case (Suc m)
  then have i: "i < ip_pieces args" by simp
  let ?s = "i * payload_mtu args"
  have lt: "?s < length pl"
    using i less_ip_pieces_iff [OF fr] by simp
  note len = length_ip_piece_data [OF fr, of i] and bounds = ip_piece_len_bounds [OF fr i]
  have "copy_from_slice (take ?s pl @ replicate (length pl - ?s) 0) ?s (?s + ip_piece_len args i)
      (ip_piece_data args pl i) =
      Inr (take ?s pl @ ip_piece_data args pl i @ replicate (length pl - (?s + ip_piece_len args i)) 0)"
    using lt len bounds by (simp add: copy_from_slice_def)
  also have "take ?s pl @ ip_piece_data args pl i @ replicate (length pl - (?s + ip_piece_len args i)) 0 =
      take (Suc i * payload_mtu args) pl @ replicate (length pl - Suc i * payload_mtu args) 0"
    using ip_piece_end [OF fr i]
    by (auto simp: ip_piece_data_def take_add add.commute [of "payload_mtu args"] min_def)
  finally show ?case
    using Suc.hyps(1) [of "Suc i"] Suc.hyps(2) i ip_offset(1) [OF fr i] len
    by (simp add: upt_conv_Cons ip_fragment_def del: of_nat_mult mult_Suc)
qed

section \<open>Reassembly of the pieces\<close>

definition reasm_holds :: "ComposeIpv4PacketArgs \<Rightarrow> bytes \<Rightarrow> nat set \<Rightarrow> IpPacket \<Rightarrow> bool" where
  "reasm_holds args pl S pk \<longleftrightarrow>
     (\<exists>js. distinct js \<and> set js = S \<and> S \<subseteq> {..<ip_pieces args} \<and> fragments pk = map (ip_fragment args pl) js) \<and>
     pk_total_length pk = (if ip_pieces args - 1 \<in> S then Some (of_nat (length pl)) else None)"

lemma reasm_holds_sum:
  assumes fr: "fragmentable args pl" and h: "reasm_holds args pl S pk"
  shows "sum_lengths chk 0 (fragments pk) = Inr (of_nat (\<Sum>i\<in>S. ip_piece_len args i))"
proof -
  obtain js where js: "distinct js" "set js = S" "S \<subseteq> {..<ip_pieces args}"
    "fragments pk = map (ip_fragment args pl) js"
    using h by (auto simp: reasm_holds_def)
  have "map (length \<circ> frag_data) (fragments pk) = map (ip_piece_len args) js"
    by (simp add: js(4) ip_fragment_def length_ip_piece_data [OF fr])
  then have sum: "sum_list (map (length \<circ> frag_data) (fragments pk)) = (\<Sum>i\<in>S. ip_piece_len args i)"
    using js(1,2) by (metis sum_list_distinct_conv_sum_set)
  moreover have "(\<Sum>i\<in>S. ip_piece_len args i) < 2 ^ 16"
    using sum_ip_pieces_part(1) [OF fr js(3)] fr by (simp add: fragmentable_def)
  ultimately show ?thesis
    using sum_lengths_in_range [of 0 "fragments pk" chk] by simp
qed

lemma is_complete_holds:
  assumes fr: "fragmentable args pl" and h: "reasm_holds args pl S pk"
  shows "is_complete chk pk = Inr (S = {..<ip_pieces args})"
proof -
  have S: "S \<subseteq> {..<ip_pieces args}"
    using h by (auto simp: reasm_holds_def)
  have pos: "0 < ip_pieces args"
    using less_ip_pieces_iff [OF fr, of 0] fr by (simp add: fragmentable_def)
  have b: "(\<Sum>i\<in>S. ip_piece_len args i) < 2 ^ 16" "length pl < 2 ^ 16"
    using sum_ip_pieces_part(1) [OF fr S] fr by (simp_all add: fragmentable_def)
  have "unat (of_nat (\<Sum>i\<in>S. ip_piece_len args i) :: u16) = (\<Sum>i\<in>S. ip_piece_len args i)"
    and "unat (of_nat (length pl) :: u16) = length pl"
    using b by (simp_all add: unat_of_nat del: of_nat_sum)
  then have "(of_nat (\<Sum>i\<in>S. ip_piece_len args i) :: u16) = of_nat (length pl) \<longleftrightarrow>
      (\<Sum>i\<in>S. ip_piece_len args i) = length pl"
    by metis
  then have eq: "(of_nat (\<Sum>i\<in>S. ip_piece_len args i) :: u16) = of_nat (length pl) \<longleftrightarrow> S = {..<ip_pieces args}"
    using sum_ip_pieces_part(2) [OF fr S] by simp
  have tl: "pk_total_length pk = (if ip_pieces args - 1 \<in> S then Some (of_nat (length pl)) else None)"
    using h by (simp add: reasm_holds_def)
  show ?thesis
  proof (cases "ip_pieces args - 1 \<in> S")
    case True
    then show ?thesis
      by (simp add: is_complete_def reasm_holds_sum [OF fr h] tl eq del: of_nat_sum)
  next
    case False
    with pos have "S \<noteq> {..<ip_pieces args}" by auto
    with False show ?thesis
      by (simp add: is_complete_def tl)
  qed
qed

lemma assemble_holds:
  assumes fr: "fragmentable args pl" and h: "reasm_holds args pl S pk"
  shows "S \<noteq> {..<ip_pieces args} \<Longrightarrow> assemble chk pk = (Inr None, pk)"
    and "S = {..<ip_pieces args} \<Longrightarrow> fst (assemble chk pk) = Inr (Some pl)"
proof -
  show "S \<noteq> {..<ip_pieces args} \<Longrightarrow> assemble chk pk = (Inr None, pk)"
    by (simp add: assemble_def is_complete_holds [OF fr h])
  assume all: "S = {..<ip_pieces args}"
  obtain js where js: "distinct js" "set js = S" "fragments pk = map (ip_fragment args pl) js"
    using h by (auto simp: reasm_holds_def)
  have pos: "0 < ip_pieces args"
    using less_ip_pieces_iff [OF fr, of 0] fr by (simp add: fragmentable_def)
  have mtu: "0 < payload_mtu args"
    using fr by (simp add: fragmentable_def)
  have inj: "inj_on frag_offset (ip_fragment args pl ` {..<ip_pieces args})"
    using mtu by (intro inj_onI)
      (auto simp: ip_fragment_def ip_offset(1) [OF fr] simp del: of_nat_mult
        dest!: arg_cong [of _ _ "unat :: u16 \<Rightarrow> nat"])
  have "set js = set [0..<ip_pieces args]"
    by (simp add: js all lessThan_atLeast0)
  then have "mset js = mset [0..<ip_pieces args]"
    using set_eq_iff_mset_eq_distinct [OF js(1) distinct_upt] by blast
  then have "mset (fragments pk) = mset (map (ip_fragment args pl) [0..<ip_pieces args])"
    by (simp add: js(3))
  moreover have "sorted (map frag_offset (map (ip_fragment args pl) [0..<ip_pieces args]))"
    by (auto simp: sorted_iff_nth_mono ip_fragment_def ip_piece_offset_mono [OF fr] simp del: of_nat_mult)
  ultimately have "sort_key frag_offset (fragments pk) = map (ip_fragment args pl) [0..<ip_pieces args]"
    using inj by (intro sort_key_inj_key_eq) (auto simp: js all)
  moreover have "unat (of_nat (length pl) :: u16) = length pl"
    using fr by (simp add: fragmentable_def unat_of_nat)
  ultimately show "fst (assemble chk pk) = Inr (Some pl)"
    using h all pos place_pieces [OF fr, of 0]
    by (simp add: assemble_def is_complete_holds [OF fr h] reasm_holds_def)
qed

lemma is_last_fragment_piece:
  "i < ip_pieces args \<Longrightarrow> is_last_fragment (ip_piece args pl i) \<longleftrightarrow> i = ip_pieces args - 1"
  by (auto simp: is_last_fragment_def ip_piece_def ip_piece_fields_def MoreFragments_def DontFragment_def)

lemma last_piece_total:
  assumes fr: "fragmentable args pl"
  shows "uadd chk (of_nat (ip_piece_len args (ip_pieces args - 1)))
           (of_nat ((ip_pieces args - 1) * payload_mtu args) :: u16) = Inr (of_nat (length pl))"
proof -
  let ?i = "ip_pieces args - 1"
  have i: "?i < ip_pieces args"
    using less_ip_pieces_iff [OF fr, of 0] fr by (simp add: fragmentable_def)
  have "\<not> Suc ?i * payload_mtu args < length pl"
    using less_ip_pieces_iff [OF fr, of "Suc ?i"] i by simp
  then have e: "ip_piece_len args ?i + ?i * payload_mtu args = length pl"
    using ip_piece_end [OF fr i] by simp
  have "unat (of_nat (ip_piece_len args ?i) :: u16) = ip_piece_len args ?i"
    using ip_piece_len_bounds [OF fr i] fr by (simp add: unat_of_nat fragmentable_def)
  then have "unat (of_nat (ip_piece_len args ?i) :: u16) + unat (of_nat (?i * payload_mtu args) :: u16) < 2 ^ LENGTH(16)"
    using ip_offset(1) [OF fr i] e fr by (simp add: fragmentable_def del: of_nat_mult)
  from uadd_in_range [OF this, of chk]
  have "uadd chk (of_nat (ip_piece_len args ?i)) (of_nat (?i * payload_mtu args) :: u16) =
      Inr (of_nat (ip_piece_len args ?i + ?i * payload_mtu args))"
    by (simp only: of_nat_add)
  then show ?thesis
    by (simp only: e)
qed

lemma add_fragment_holds:
  assumes fr: "fragmentable args pl" and h: "reasm_holds args pl S pk" and i: "i < ip_pieces args"
  obtains pk0 pk' where
    "(if is_last_fragment (ip_piece args pl i)
      then rbind (uadd chk (of_nat (ip_piece_len args i)) (frag_offset (ip_fragment args pl i)))
             (\<lambda>n. Inr (set_total_length n pk))
      else Inr pk) = Inr pk0"
    and "IpPacket_add_fragment chk (ip_fragment args pl i) pk0 = Inr pk'"
    and "reasm_holds args pl (insert i S) pk'"
proof -
  define pk0 where "pk0 = (if i = ip_pieces args - 1 then set_total_length (of_nat (length pl)) pk else pk)"
  have first: "(if is_last_fragment (ip_piece args pl i)
      then rbind (uadd chk (of_nat (ip_piece_len args i)) (frag_offset (ip_fragment args pl i)))
             (\<lambda>n. Inr (set_total_length n pk))
      else Inr pk) = Inr pk0"
    using last_piece_total [OF fr, of chk]
    by (simp add: is_last_fragment_piece [OF i] pk0_def ip_fragment_def del: of_nat_mult)
  obtain js where js: "distinct js" "set js = S" "S \<subseteq> {..<ip_pieces args}"
    "fragments pk = map (ip_fragment args pl) js"
    using h by (auto simp: reasm_holds_def)
  have fs: "fragments pk0 = map (ip_fragment args pl) js"
    by (simp add: pk0_def js(4) set_total_length_def)
  let ?js = "if i \<in> S then js else js @ [i]"
  let ?pk' = "pk0\<lparr>fragments := map (ip_fragment args pl) ?js\<rparr>"
  have "IpPacket_add_fragment chk (ip_fragment args pl i) pk0 = Inr ?pk'"
    using overlaps_pieces [OF fr i, of js chk] js(2,3)
    by (simp add: IpPacket_add_fragment_def fs)
  moreover have "reasm_holds args pl (insert i S) ?pk'"
  proof -
    have "distinct ?js \<and> set ?js = insert i S \<and> insert i S \<subseteq> {..<ip_pieces args}"
      using js i by auto
    moreover have "pk_total_length pk0 =
        (if ip_pieces args - 1 \<in> insert i S then Some (of_nat (length pl)) else None)"
      using h by (auto simp: pk0_def set_total_length_def reasm_holds_def)
    ultimately show ?thesis
      by (auto simp: reasm_holds_def)
  qed
  ultimately show ?thesis
    using that first by blast
qed

definition entry_holds ::
  "ComposeIpv4PacketArgs \<Rightarrow> bytes \<Rightarrow> nat set \<Rightarrow> IpResemblerValue option \<Rightarrow> bool" where
  "entry_holds args pl S vo =
     (case vo of None \<Rightarrow> S = {} | Some v \<Rightarrow> reasm_holds args pl S (rv_packet v))"

abbreviation piece_input :: "Ipv4Addr \<Rightarrow> Ipv4Addr \<Rightarrow> ComposeIpv4PacketArgs \<Rightarrow> bytes \<Rightarrow> nat \<Rightarrow> reasm_input" where
  "piece_input src dst args pl i \<equiv> (src, dst, ip_piece args pl i)"

lemma reasm_key_piece:
  "fragmentable args pl \<Longrightarrow> i < ip_pieces args \<Longrightarrow>
   reasm_key chk (piece_input src dst args pl i) = Some (src, dst, ip_id args)"
  by (simp add: reasm_key_def fragment_of_piece) (simp add: ip_piece_def ip_piece_fields_def)

lemma reasm_add_piece:
  assumes fr: "fragmentable args pl" and i: "i < ip_pieces args" and k: "k = (src, dst, ip_id args)"
    and h: "entry_holds args pl S (st k)"
  shows "fst (IpReassembler_add_fragment chk now (piece_input src dst args pl i) st) =
           Inr (if insert i S = {..<ip_pieces args} then Some pl else None)"
    and "insert i S \<noteq> {..<ip_pieces args} \<Longrightarrow>
         entry_holds args pl (insert i S)
           (snd (IpReassembler_add_fragment chk now (piece_input src dst args pl i) st) k)"
    and "insert i S = {..<ip_pieces args} \<Longrightarrow>
         snd (IpReassembler_add_fragment chk now (piece_input src dst args pl i) st) k = None"
proof -
  let ?inp = "piece_input src dst args pl i"
  define v where "v = (case st k of Some v \<Rightarrow> v | None \<Rightarrow> IpResemblerValue_new now ?inp)"
  have rk: "reasm_key chk ?inp = Some k"
    using reasm_key_piece [OF fr i] k by simp
  have hv: "reasm_holds args pl S (rv_packet v)"
    using h by (cases "st k")
      (auto simp: v_def entry_holds_def IpResemblerValue_new_def IpPacket_new_def reasm_holds_def)
  obtain pk0 pk' where step:
    "(if is_last_fragment (ip_piece args pl i)
      then rbind (uadd chk (of_nat (ip_piece_len args i)) (frag_offset (ip_fragment args pl i)))
             (\<lambda>n. Inr (set_total_length n (rv_packet v)))
      else Inr (rv_packet v)) = Inr pk0"
    "IpPacket_add_fragment chk (ip_fragment args pl i) pk0 = Inr pk'"
    "reasm_holds args pl (insert i S) pk'"
    by (rule add_fragment_holds [OF fr hv i])
  note asm = assemble_holds [OF fr step(3), of chk]
  have entry: "reasm_entry chk now ?inp v =
      (if insert i S = {..<ip_pieces args} then (Inr (Some pl), None)
       else (Inr None, Some (v\<lparr>rv_packet := pk', timestamp := now\<rparr>)))"
  proof (cases "insert i S = {..<ip_pieces args}")
    case True
    then obtain pk'' where "assemble chk pk' = (Inr (Some pl), pk'')"
      using asm(2) by (metis prod.collapse)
    with True show ?thesis
      unfolding reasm_entry_def prod.case fragment_of_piece [OF fr i] sum.case option.case step(1,2) by simp
  next
    case False
    with asm(1) show ?thesis
      unfolding reasm_entry_def prod.case fragment_of_piece [OF fr i] sum.case option.case step(1,2) by simp
  qed
  have "IpReassembler_add_fragment chk now ?inp st =
      (fst (reasm_entry chk now ?inp v), st(k := snd (reasm_entry chk now ?inp v)))"
    using reasm.recv_keyed [OF rk, of now st] by (simp add: v_def)
  then show "fst (IpReassembler_add_fragment chk now ?inp st) =
           Inr (if insert i S = {..<ip_pieces args} then Some pl else None)"
    and "insert i S \<noteq> {..<ip_pieces args} \<Longrightarrow>
         entry_holds args pl (insert i S) (snd (IpReassembler_add_fragment chk now ?inp st) k)"
    and "insert i S = {..<ip_pieces args} \<Longrightarrow> snd (IpReassembler_add_fragment chk now ?inp st) k = None"
    using step(3) by (simp_all add: entry entry_holds_def)
qed

lemma reasm_run_pieces:
  assumes fr: "fragmentable args pl" and k: "k = (src, dst, ip_id args)"
    and "entry_holds args pl S (st k)" and "snd ` set tis \<subseteq> {..<ip_pieces args}" and "S \<subseteq> {..<ip_pieces args}"
    and "tis \<noteq> []" and "S \<union> snd ` set tis = {..<ip_pieces args}"
    and "S \<union> snd ` set (butlast tis) \<noteq> {..<ip_pieces args}"
  shows "map snd (fst (run_sessions (IpReassembler_add_fragment chk) (remove_expired_packets timeout)
       (map (\<lambda>(t, i). Recv t (piece_input src dst args pl i)) tis) st)) =
     replicate (length tis - 1) (Inr None) @ [Inr (Some pl)]"
  using assms(3-)
proof (induction tis arbitrary: S st)
  case (Cons ti tis)
  obtain t i where ti: "ti = (t, i)" by force
  then have i: "i < ip_pieces args" using Cons.prems by auto
  note step = reasm_add_piece [where st = st and now = t and chk = chk, OF fr i k Cons.prems(1)]
  show ?case
  proof (cases "tis = []")
    case True
    with Cons.prems have "insert i S = {..<ip_pieces args}" by (auto simp: ti)
    with step(1) show ?thesis
      by (simp add: ti True case_prod_beta)
  next
    case False
    have "insert i S \<noteq> {..<ip_pieces args}"
    proof
      assume "insert i S = {..<ip_pieces args}"
      moreover have "insert i S \<subseteq> S \<union> snd ` set (butlast (ti # tis))"
        using False by (auto simp: ti)
      moreover have "S \<union> snd ` set (butlast (ti # tis)) \<subseteq> {..<ip_pieces args}"
        using Cons.prems(2,3) in_set_butlastD by fastforce
      ultimately show False
        using Cons.prems(6) by (simp add: subset_antisym)
    qed
    with step(1,2) have IH: "map snd (fst (run_sessions (IpReassembler_add_fragment chk) (remove_expired_packets timeout)
        (map (\<lambda>(t, i). Recv t (piece_input src dst args pl i)) tis)
        (snd (IpReassembler_add_fragment chk t (piece_input src dst args pl i) st)))) =
      replicate (length tis - 1) (Inr None) @ [Inr (Some pl)]"
      using Cons.prems False i by (intro Cons.IH [of "insert i S"]) (auto simp: ti)
    have "replicate (length tis) (Inr None :: bytes option may_panic) = Inr None # replicate (length tis - 1) (Inr None)"
      using False by (cases tis) simp_all
    then show ?thesis
      using IH step(1) \<open>insert i S \<noteq> {..<ip_pieces args}\<close>
      by (simp add: ti run_sessions_Recv [OF prod.collapse [symmetric]] del: run_sessions.simps)
  qed
qed simp

section \<open>Fragmenting cuts the payload\<close>

text \<open>
  What the code relies on of the packet library: a header without options is 20 bytes, and a
  packet written with it reads back, when the fields fit their bits and the total length is right.
\<close>

definition ipv4_fields_ok :: "Ipv4Fields \<Rightarrow> bool" where
  "ipv4_fields_ok f \<longleftrightarrow> version f < 16 \<and> header_length f < 16 \<and> dscp f < 64 \<and> ecn f < 4 \<and> ip_flags f < 8 \<and>
     fragment_offset f < 2 ^ 13"

definition ipv4_wire_laws :: "(Ipv4Fields \<Rightarrow> bytes) \<Rightarrow> (bytes \<Rightarrow> Ipv4Packet option) \<Rightarrow> bool" where
  "ipv4_wire_laws ipv4_hdr Ipv4Packet_new \<longleftrightarrow>
     (\<forall>f. length (ipv4_hdr f) = 20) \<and>
     (\<forall>f data. ipv4_fields_ok f \<longrightarrow> header_length f = 5 \<longrightarrow> unat (ip_total_length f) = 20 + length data \<longrightarrow>
        Ipv4Packet_new (ipv4_hdr f @ data) = Some \<lparr>ip_hdr = f, ip_payload = data\<rparr>)"

lemma piece_fields_piece:
  assumes fr: "fragmentable args pl" and i: "i < ip_pieces args"
  shows "piece_fields args (ip_pieces args) i (i * payload_mtu args) (ip_piece_len args i) = Inr (ip_piece_fields args i)"
proof -
  have m: "i * payload_mtu args mod 8 = 0"
    using fr by (auto simp: fragmentable_def mod_mult_right_eq [symmetric])
  have "unat (of_nat (i * payload_mtu args) div 8 :: u16) = i * payload_mtu args div 8"
    using ip_offset(1) [OF fr i] by (simp add: unat_div del: of_nat_mult)
  moreover have "unat (of_nat (i * payload_mtu args div 8) :: u16) = i * payload_mtu args div 8"
    using ip_offset(3) [OF fr i] by simp
  ultimately have "(of_nat (i * payload_mtu args) div 8 :: u16) = of_nat (i * payload_mtu args div 8)"
    by (metis word_unat_eq_iff)
  moreover have "\<not> 1 < ip_pieces args \<Longrightarrow> i = 0"
    using i by simp
  ultimately show ?thesis
    using m by (auto simp: piece_fields_def ip_piece_fields_def simp del: of_nat_mult)
qed

lemma compose_loop_pieces:
  assumes fr: "fragmentable args pl" and hdr: "\<forall>f. length (ipv4_hdr f) = 20"
    and buf0: "pl = take (arg_payload_len args) (drop 20 buf0)" "arg_payload_len args + 20 \<le> length buf0"
    and cb: "\<And>p. cb p = Inr ()"
    and "i \<le> ip_pieces args" and "length buf = length buf0"
    and "drop (i * payload_mtu args + 20) buf = drop (i * payload_mtu args + 20) buf0"
  shows "compose_loop ipv4_hdr args cb (ip_pieces args) buf
           (min (i * payload_mtu args) (length pl)) (min (i * payload_mtu args) (length pl)) i =
     (map (\<lambda>j. ipv4_hdr (ip_piece_fields args j) @ ip_piece_data args pl j) [i..<ip_pieces args], Inr (Inr ()))"
  using assms(6-)
proof (induction "ip_pieces args - i" arbitrary: i buf)
  case 0
  then show ?case
    using less_ip_pieces_iff [OF fr, of i] fr by (subst compose_loop.simps) (auto simp: fragmentable_def)
next
  case (Suc m)
  then have i: "i < ip_pieces args" by simp
  let ?s = "i * payload_mtu args" and ?l = "ip_piece_len args i" and ?f = "ip_piece_fields args i"
  have lt: "?s < length pl" and pl: "length pl = arg_payload_len args" and mtu: "0 < payload_mtu args"
    using i less_ip_pieces_iff [OF fr] fr by (auto simp: fragmentable_def)
  note bounds = ip_piece_len_bounds [OF fr i]
  define view where "view = take (?l + 20) (drop ?s buf)"
  have sub: "subslice buf ?s (?s + ?l + 20) = Inr view"
    using bounds Suc.prems(2) buf0(2) pl by (simp add: subslice_def view_def)
  have "drop 20 view = take ?l (drop (?s + 20) buf)"
    by (simp add: view_def drop_take add.commute)
  also have "\<dots> = take ?l (drop (?s + 20) buf0)"
    using Suc.prems(3) by simp
  also have "\<dots> = ip_piece_data args pl i"
    using bounds lt pl buf0
    by (simp add: ip_piece_data_def ip_piece_len_def drop_take add.commute min.commute)
  finally have data: "drop 20 view = ip_piece_data args pl i" .
  let ?p = "ipv4_hdr ?f @ ip_piece_data args pl i"
  let ?buf = "take ?s buf @ ?p @ drop (?s + ?l + 20) buf"
  have lenp: "length ?p = ?l + 20"
    using hdr length_ip_piece_data [OF fr, of i] by simp
  have e: "min (?s + payload_mtu args) (arg_payload_len args) = ?s + ?l"
    and e': "?s + ?l = min (Suc i * payload_mtu args) (length pl)"
    using ip_piece_end [OF fr i] pl by (simp_all add: add.commute)
  have "length ?buf = length buf0"
    using lenp bounds(2) Suc.prems(2) buf0(2) pl by simp
  moreover have "drop (Suc i * payload_mtu args + 20) ?buf = drop (Suc i * payload_mtu args + 20) buf0"
  proof -
    have ge: "?s + ?l + 20 \<le> Suc i * payload_mtu args + 20"
      using bounds(3) by simp
    have "length (take ?s buf @ ?p) = ?s + ?l + 20"
      using lenp bounds(2) Suc.prems(2) buf0(2) pl by simp
    then have "drop (Suc i * payload_mtu args + 20) ?buf = drop (Suc i * payload_mtu args + 20) buf"
      using ge drop_append [of "Suc i * payload_mtu args + 20" "take ?s buf @ ?p" "drop (?s + ?l + 20) buf"]
      by (simp add: add.assoc del: drop_append)
    also have "\<dots> = drop (Suc i * payload_mtu args + 20) buf0"
      using arg_cong [OF Suc.prems(3), of "drop (payload_mtu args)"] by (simp add: add.commute add.left_commute)
    finally show ?thesis .
  qed
  ultimately have "compose_loop ipv4_hdr args cb (ip_pieces args) ?buf (?s + ?l) (?s + ?l) (Suc i) =
      (map (\<lambda>j. ipv4_hdr (ip_piece_fields args j) @ ip_piece_data args pl j) [Suc i..<ip_pieces args], Inr (Inr ()))"
    unfolding e' using i Suc.hyps(2) by (intro Suc.hyps(1)) auto
  moreover have "min ?s (length pl) = ?s"
    using lt by simp
  ultimately show ?case
    using lt mtu pl sub data piece_fields_piece [OF fr i] cb i
    by (subst compose_loop.simps) (simp add: e upt_conv_Cons Let_def)
qed

lemma ip_piece_reads_back:
  assumes laws: "ipv4_wire_laws ipv4_hdr Ipv4Packet_new" and fr: "fragmentable args pl" and i: "i < ip_pieces args"
  shows "Ipv4Packet_new (ipv4_hdr (ip_piece_fields args i) @ ip_piece_data args pl i) = Some (ip_piece args pl i)"
proof -
  have "unat (of_nat (ip_piece_len args i + 20) :: u16) = 20 + length (ip_piece_data args pl i)"
    using fr length_ip_piece_data [OF fr, of i] ip_piece_len_bounds(3) [OF fr i]
    by (simp add: unat_of_nat fragmentable_def del: of_nat_add)
  moreover have "i * payload_mtu args div 8 < 2 ^ 13"
    using less_ip_pieces_iff [OF fr, of i] i fr by (auto simp: fragmentable_def)
  then have "(of_nat (i * payload_mtu args div 8) :: u16) < 2 ^ 13"
    by (simp add: word_less_nat_alt unat_of_nat del: of_nat_mult)
  ultimately show ?thesis
    using laws unfolding ipv4_wire_laws_def
    by (auto simp: ip_piece_def ip_piece_fields_def ipv4_fields_ok_def MoreFragments_def DontFragment_def
        simp del: of_nat_add of_nat_mult)
qed

text \<open>
  C19: Fragmentation and reassembly are inverse. For a payload of 1 to 65535 bytes behind 20 bytes
  of room in the buffer, and pieces of a multiple of eight bytes, \<open>compose_ipv4_packet\<close> neither
  panics nor fails and hands the callback packets, although it writes each header over the end of
  the previous piece; parsed and given to the reassembler in any order and with repetitions, mixed
  with any other traffic and with sweeps, over less than the timeout, they produce nothing until
  the last missing one arrives and then exactly the payload, with and without overflow checks.
\<close>

theorem fragment_reassemble:
  assumes laws: "ipv4_wire_laws ipv4_hdr Ipv4Packet_new"
    and fr: "fragmentable args pl"
    and buf: "pl = take (arg_payload_len args) (drop 20 buf)" "arg_payload_len args + 20 \<le> length buf"
    and cb: "\<forall>p. cb p = Inr ()"
  shows "\<exists>pkts. compose_ipv4_packet ipv4_hdr args buf cb = (pkts, Inr (Inr ())) \<and>
     length pkts = ip_pieces args \<and>
     (\<forall>i<length pkts. Ipv4Packet_new (pkts ! i) = Some (ip_piece args pl i)) \<and>
     (\<forall>evs src dst tis st t0.
        st (src, dst, ip_id args) = None \<longrightarrow>
        (\<forall>e\<in>set evs. t0 \<le> event_time e \<and> event_time e < t0 + timeout) \<longrightarrow>
        recv_only (reasm_key chk) (src, dst, ip_id args) evs =
          map (\<lambda>(t, i). Recv t (src, dst, the (Ipv4Packet_new (pkts ! i)))) tis \<longrightarrow>
        snd ` set tis = {..<length pkts} \<longrightarrow> snd ` set (butlast tis) \<noteq> {..<length pkts} \<longrightarrow>
        map snd (filter (\<lambda>(inp, out). reasm_key chk inp = Some (src, dst, ip_id args))
          (fst (run_sessions (IpReassembler_add_fragment chk) (remove_expired_packets timeout) evs st))) =
        replicate (length tis - 1) (Inr None) @ [Inr (Some pl)])"
proof -
  let ?pkts = "map (\<lambda>j. ipv4_hdr (ip_piece_fields args j) @ ip_piece_data args pl j) [0..<ip_pieces args]"
  have hdr: "\<forall>f. length (ipv4_hdr f) = 20"
    using laws by (simp add: ipv4_wire_laws_def)
  have "payload_mtu args \<noteq> 0" and pos: "0 < ip_pieces args"
    using fr less_ip_pieces_iff [OF fr, of 0] by (auto simp: fragmentable_def)
  then have comp: "compose_ipv4_packet ipv4_hdr args buf cb = (?pkts, Inr (Inr ()))"
    using compose_loop_pieces [OF fr hdr buf cb [rule_format], of 0 buf]
    by (simp add: compose_ipv4_packet_def ip_pieces_def)
  have read: "Ipv4Packet_new (?pkts ! i) = Some (ip_piece args pl i)" if "i < ip_pieces args" for i
    using ip_piece_reads_back [OF laws fr that] that by simp
  have "map snd (filter (\<lambda>(inp, out). reasm_key chk inp = Some (src, dst, ip_id args))
          (fst (run_sessions (IpReassembler_add_fragment chk) (remove_expired_packets timeout) evs st))) =
        replicate (length tis - 1) (Inr None) @ [Inr (Some pl)]"
    if st: "st (src, dst, ip_id args) = None"
      and window: "\<forall>e\<in>set evs. t0 \<le> event_time e \<and> event_time e < t0 + timeout"
      and parts: "recv_only (reasm_key chk) (src, dst, ip_id args) evs =
          map (\<lambda>(t, i). Recv t (src, dst, the (Ipv4Packet_new (?pkts ! i)))) tis"
      and all: "snd ` set tis = {..<ip_pieces args}" and last: "snd ` set (butlast tis) \<noteq> {..<ip_pieces args}"
    for evs src dst tis st t0
  proof -
    have eq: "map (\<lambda>(t, i). Recv t (src, dst, the (Ipv4Packet_new (?pkts ! i)))) tis =
        map (\<lambda>(t, i). Recv t (piece_input src dst args pl i)) tis"
    proof (rule map_cong [OF refl])
      fix x
      assume "x \<in> set tis"
      then obtain t i where "x = (t, i)" "i < ip_pieces args"
        using all by (metis imageI lessThan_iff prod.collapse)
      then show "(case x of (t, i) \<Rightarrow> Recv t (src, dst, the (Ipv4Packet_new (?pkts ! i)))) =
          (case x of (t, i) \<Rightarrow> Recv t (piece_input src dst args pl i))"
        using read by simp
    qed
    have "tis \<noteq> []"
      using all pos by auto
    then show ?thesis
      using reasm.unswept_transfer [of st "(src, dst, ip_id args)" st t0 evs timeout chk] st window parts [unfolded eq]
        reasm_run_pieces [OF fr refl, of "{}" st src dst tis chk timeout] all last
      by (simp add: entry_holds_def)
  qed
  then show ?thesis
    using comp read by (intro exI [of _ ?pkts]) auto
qed

text \<open>The layout of RFC 791 meets the laws of the wire form.\<close>

definition rfc791_hdr :: "Ipv4Fields \<Rightarrow> bytes" where
  "rfc791_hdr f =
     [push_bit 4 (version f) OR header_length f, push_bit 2 (dscp f) OR ecn f] @
     rev (le16 (ip_total_length f)) @ rev (le16 (identification f)) @
     rev (le16 (push_bit 13 (ucast (ip_flags f)) OR fragment_offset f)) @
     [ttl f, next_level_protocol f, 0, 0] @ rev (le32 (ip_source f)) @ rev (le32 (ip_destination f))"

definition rfc791_new :: "bytes \<Rightarrow> Ipv4Packet option" where
  "rfc791_new bs =
     (if length bs < 20 then None
      else
        let total = of_le16 [bs ! 3, bs ! 2]; fo = of_le16 [bs ! 7, bs ! 6]; hl = bs ! 0 AND 15 in
        Some \<lparr>ip_hdr = \<lparr>version = drop_bit 4 (bs ! 0), header_length = hl, dscp = drop_bit 2 (bs ! 1),
                        ecn = bs ! 1 AND 3, ip_total_length = total, identification = of_le16 [bs ! 5, bs ! 4],
                        ip_flags = ucast (drop_bit 13 fo), fragment_offset = fo AND mask 13, ttl = bs ! 8,
                        next_level_protocol = bs ! 9,
                        ip_source = of_le32 [bs ! 15, bs ! 14, bs ! 13, bs ! 12],
                        ip_destination = of_le32 [bs ! 19, bs ! 18, bs ! 17, bs ! 16]\<rparr>,
              ip_payload = drop (4 * unat hl) (take (unat total) bs)\<rparr>)"

lemma bit_less_exp:
  fixes w :: "'n::len word"
  assumes "w < 2 ^ k" and "bit w n" and "k < LENGTH('n)"
  shows "n < k"
proof -
  have "unat (2 ^ k :: 'n word) = 2 ^ k"
    using assms(3) unat_of_nat [of "2 ^ k", where 'a = 'n] by simp
  then have "unat w < 2 ^ k"
    using assms(1) by (simp add: word_less_nat_alt)
  then have "unat (take_bit k w) = unat w"
    by (simp add: unsigned_take_bit_eq take_bit_nat_eq_self)
  then have "take_bit k w = w"
    by (simp add: word_unat_eq_iff)
  then show ?thesis
    using assms(2) by (metis bit_take_bit_iff)
qed

lemma nibble_fields:
  fixes a b :: u8
  assumes "a < 2 ^ (8 - k)" and "b < 2 ^ k" and "0 < k" and "k < 8"
  shows "drop_bit k (push_bit k a OR b) = a" and "(push_bit k a OR b) AND mask k = b"
proof -
  have "k + n < 8" if "bit a n" for n
    using bit_less_exp [OF assms(1) that] assms(3,4) by simp
  then show "drop_bit k (push_bit k a OR b) = a"
    using bit_less_exp [OF assms(2)] assms(3,4)
    by (intro bit_word_eqI) (auto simp: bit_simps)
  show "(push_bit k a OR b) AND mask k = b"
    using bit_less_exp [OF assms(2)] assms(3,4)
    by (intro bit_word_eqI) (auto simp: bit_simps)
qed

lemma flag_offset_fields:
  fixes fl :: u8 and off :: u16
  assumes "fl < 2 ^ 3" and "off < 2 ^ 13"
  shows "ucast (drop_bit 13 (push_bit 13 (ucast fl) OR off)) = fl"
    and "(push_bit 13 (ucast fl) OR off) AND mask 13 = off"
proof -
  show "ucast (drop_bit 13 (push_bit 13 (ucast fl) OR off)) = fl"
    using bit_less_exp [OF assms(1)] bit_less_exp [OF assms(2)]
    by (intro bit_word_eqI) (auto simp: bit_simps)
  show "(push_bit 13 (ucast fl) OR off) AND mask 13 = off"
    using bit_less_exp [OF assms(2)] by (intro bit_word_eqI) (auto simp: bit_simps)
qed

lemma of_le16_pair: "of_le16 [ucast w, ucast (drop_bit 8 w)] = w"
  using of_le16_le16 [of w "[]"] by (simp add: le16_def)

lemma of_le32_quad: "of_le32 [ucast w, ucast (drop_bit 8 w), ucast (drop_bit 16 w), ucast (drop_bit 24 w)] = w"
  using of_le32_le32 [of w "[]"] by (simp add: le32_def)

lemma rfc791_laws: "ipv4_wire_laws rfc791_hdr rfc791_new"
proof -
  have "rfc791_new (rfc791_hdr f @ data) = Some \<lparr>ip_hdr = f, ip_payload = data\<rparr>"
    if ok: "ipv4_fields_ok f" and hl: "header_length f = 5" and tl: "unat (ip_total_length f) = 20 + length data"
    for f data
  proof -
    have m: "15 = (mask 4 :: u8)" "3 = (mask 2 :: u8)"
      by (simp_all add: mask_eq_exp_minus_1)
    have b: "version f < 2 ^ (8 - 4)" "header_length f < 2 ^ 4" "dscp f < 2 ^ (8 - 2)" "ecn f < 2 ^ 2"
      "ip_flags f < 2 ^ 3" "fragment_offset f < 2 ^ 13"
      using ok by (simp_all add: ipv4_fields_ok_def)
    define x0 x1 x2 where "x0 = push_bit 4 (version f) OR header_length f"
      and "x1 = push_bit 2 (dscp f) OR ecn f"
      and "x2 = (push_bit 13 (ucast (ip_flags f)) OR fragment_offset f :: u16)"
    have x: "drop_bit 4 x0 = version f" "x0 AND mask 4 = header_length f" "drop_bit 2 x1 = dscp f"
      "x1 AND mask 2 = ecn f" "ucast (drop_bit 13 x2) = ip_flags f" "x2 AND mask 13 = fragment_offset f"
      unfolding x0_def x1_def x2_def
      using nibble_fields [OF b(1,2)] nibble_fields [OF b(3,4)] flag_offset_fields [OF b(5,6)] by simp_all
    have h: "rfc791_hdr f = [x0, x1,
        ucast (drop_bit 8 (ip_total_length f)), ucast (ip_total_length f),
        ucast (drop_bit 8 (identification f)), ucast (identification f),
        ucast (drop_bit 8 x2), ucast x2, ttl f, next_level_protocol f, 0, 0,
        ucast (drop_bit 24 (ip_source f)), ucast (drop_bit 16 (ip_source f)),
        ucast (drop_bit 8 (ip_source f)), ucast (ip_source f),
        ucast (drop_bit 24 (ip_destination f)), ucast (drop_bit 16 (ip_destination f)),
        ucast (drop_bit 8 (ip_destination f)), ucast (ip_destination f)]"
      by (simp add: rfc791_hdr_def le16_def le32_def x0_def x1_def x2_def)
    show ?thesis
      unfolding rfc791_new_def Let_def m
      using tl hl
      by (simp add: h of_le16_pair of_le32_quad x)
  qed
  moreover have "length (rfc791_hdr f) = 20" for f
    by (simp add: rfc791_hdr_def)
  ultimately show ?thesis
    by (auto simp: ipv4_wire_laws_def)
qed

text \<open>Two fragments of a ten byte payload, the second one first, with a sweep in between.\<close>

theorem fragment_reassemble_witness:
  defines "args \<equiv> \<lparr>src_v4 = 1, dst_v4 = 2, next_protocol = 17, arg_payload_len = 10, payload_mtu = 8, ip_id = 99\<rparr>"
  defines "pl \<equiv> [1, 2, 3, 4, 5, 6, 7, 8, 9, 10]"
  shows "ip_pieces args = 2 \<and>
    map snd (filter (\<lambda>(inp, out). reasm_key True inp = Some (1, 2, 99))
      (fst (run_sessions (IpReassembler_add_fragment True) (remove_expired_packets 10)
        [Recv 5 (1, 2, ip_piece args pl 1), Sweep 6, Recv 7 (1, 2, ip_piece args pl 0)] Map.empty))) =
    [Inr None, Inr (Some pl)]"
proof -
  have fr: "fragmentable args pl"
    by (simp add: fragmentable_def args_def pl_def)
  have n: "ip_pieces args = 2"
    by (simp add: ip_pieces_def args_def div_ceil_def)
  have buf: "pl = take (arg_payload_len args) (drop 20 (replicate 20 0 @ pl))"
      "arg_payload_len args + 20 \<le> length (replicate 20 0 @ pl)"
    by (simp_all add: args_def pl_def)
  have id: "ip_id args = 99"
    by (simp add: args_def)
  have cb: "\<forall>p :: bytes. (\<lambda>_. Inr () :: nat + unit) p = Inr ()" by simp
  obtain pkts where len: "length pkts = 2"
    and read: "\<forall>i<length pkts. rfc791_new (pkts ! i) = Some (ip_piece args pl i)"
    and all: "\<forall>evs src dst tis st t0. st (src, dst, 99) = None \<longrightarrow>
        (\<forall>e\<in>set evs. t0 \<le> event_time e \<and> event_time e < t0 + 10) \<longrightarrow>
        recv_only (reasm_key True) (src, dst, 99) evs =
          map (\<lambda>(t, i). Recv t (src, dst, the (rfc791_new (pkts ! i)))) tis \<longrightarrow>
        snd ` set tis = {..<length pkts} \<longrightarrow> snd ` set (butlast tis) \<noteq> {..<length pkts} \<longrightarrow>
        map snd (filter (\<lambda>(inp, out). reasm_key True inp = Some (src, dst, 99))
          (fst (run_sessions (IpReassembler_add_fragment True) (remove_expired_packets 10) evs st))) =
        replicate (length tis - 1) (Inr None) @ [Inr (Some pl)]"
    using fragment_reassemble [OF rfc791_laws fr buf cb, of 10 True] unfolding id n by (elim exE conjE)
  let ?evs = "[Recv 5 (1, 2, ip_piece args pl 1), Sweep 6, Recv 7 (1, 2, ip_piece args pl 0)]"
  have "reasm_key True (1, 2, ip_piece args pl i) = Some (1, 2, 99)" if "i < 2" for i
    using reasm_key_piece [OF fr, of i True 1 2] that n id by simp
  then have parts: "recv_only (reasm_key True) (1, 2, 99) ?evs =
      map (\<lambda>(t, i). Recv t (1, 2, the (rfc791_new (pkts ! i)))) [(5, 1), (7, 0)]"
    using read len by (simp add: recv_only_def)
  have "{1, 0} = {..<2 :: nat}" and "{1} \<noteq> {..<2 :: nat}"
    by (simp_all add: numeral_2_eq_2 lessThan_Suc)
  moreover have "\<forall>e\<in>set ?evs. 0 \<le> event_time e \<and> event_time e < 0 + 10"
    by simp
  ultimately show ?thesis
    using all [THEN spec, THEN spec, THEN spec, THEN spec, THEN spec, THEN spec,
        of Map.empty 1 2 ?evs 0 "[(5, 1), (7, 0)]"] parts n len by simp
qed

section \<open>Fragments outside the datagram\<close>

text \<open>
  The completeness test compares lengths only. Two fragments of one datagram, the last one of
  \<open>n\<close> bytes at offset \<open>o1\<close> and one of \<open>o1\<close> bytes that starts at or behind the end \<open>o1 + n\<close>, add up
  to the announced length, so assembling starts and panics on the slice of the second, with
  overflow checks and without. The sender of the fragments chooses these numbers.
\<close>

theorem reassembler_stray_fragment_panics:
  assumes last: "fragment_of chk p1 = Inr (Some (of_nat n, \<lparr>frag_id = i, frag_offset = of_nat o1, frag_data = d1\<rparr>))"
      "is_last_fragment p1" "length d1 = n"
    and stray: "fragment_of chk p2 = Inr (Some (of_nat o1, \<lparr>frag_id = i, frag_offset = of_nat o2, frag_data = d2\<rparr>))"
      "\<not> is_last_fragment p2" "length d2 = o1"
    and ids: "identification (ip_hdr p1) = i" "identification (ip_hdr p2) = i"
    and pos: "0 < n" "0 < o1" and out: "o1 + n \<le> o2" and range: "o2 + o1 < 2 ^ 16"
    and free: "packets (src, dst, i) = None"
    and first: "IpReassembler_add_fragment chk t1 (src, dst, p1) packets = (r1, packets1)"
  shows "r1 = Inr None \<and> fst (IpReassembler_add_fragment chk t2 (src, dst, p2) packets1) = Inl IndexOutOfRange"
proof -
  let ?f1 = "\<lparr>frag_id = i, frag_offset = of_nat o1, frag_data = d1\<rparr>"
  let ?f2 = "\<lparr>frag_id = i, frag_offset = of_nat o2, frag_data = d2\<rparr>"
  let ?pk = "\<lparr>pk_source = src, pk_destination = dst, pk_total_length = Some (of_nat (o1 + n)), fragments = [?f1]\<rparr>"
  have u: "unat (of_nat o1 :: u16) = o1" "unat (of_nat n :: u16) = n" "unat (of_nat o2 :: u16) = o2"
    "unat (of_nat (o1 + n) :: u16) = o1 + n"
    using out range by (simp_all add: unat_of_nat del: of_nat_add)
  have s: "unat (of_nat o1 + of_nat n :: u16) = o1 + n"
    using u(4) by simp
  have ne: "(of_nat n :: u16) \<noteq> of_nat (o1 + n)"
  proof -
    have "unat (of_nat n :: u16) \<noteq> unat (of_nat (o1 + n) :: u16)"
      unfolding u(2,4) using pos by simp
    then show ?thesis by metis
  qed
  have tot: "uadd chk (of_nat n) (of_nat o1 :: u16) = Inr (of_nat (o1 + n))"
  proof -
    have "\<not> 2 ^ LENGTH(16) \<le> unat (of_nat n :: u16) + unat (of_nat o1 :: u16)"
      unfolding u(1,2) using out range by simp
    then show ?thesis
      by (simp only: uadd_def of_nat_add add.commute [of "of_nat o1"] simp_thms if_False)
  qed
  have e1: "reasm_entry chk t1 (src, dst, p1) (IpResemblerValue_new t1 (src, dst, p1)) =
      (Inr None, Some \<lparr>rv_packet = ?pk, timestamp = t1\<rparr>)"
    using last ne tot u out range
    by (simp add: reasm_entry_def IpResemblerValue_new_def IpPacket_new_def set_total_length_def
        IpPacket_add_fragment_def assemble_def is_complete_def uadd_def)
  have st1: "packets1 (src, dst, i) = Some \<lparr>rv_packet = ?pk, timestamp = t1\<rparr>" and r1: "r1 = Inr None"
    using first free e1 by (auto simp: IpReassembler_add_fragment_def last(1) ids)
  have over: "overlaps chk ?f2 [?f1] = Inr False"
    using u s out pos last(3) range by (simp add: starts_inside_def word_le_nat_alt word_less_nat_alt uadd_def)
  have "sum_lengths chk 0 [?f1, ?f2] = Inr (of_nat (o1 + n))"
    using sum_lengths_in_range [of 0 "[?f1, ?f2]" chk] last(3) stray(3) range out
    by (simp add: add.commute [of n] del: sum_lengths.simps of_nat_add)
  then have comp: "is_complete chk (?pk\<lparr>fragments := [?f1, ?f2]\<rparr>) = Inr True"
    by (simp add: is_complete_def)
  have srt: "sort_key frag_offset [?f1, ?f2] = [?f1, ?f2]"
    using u out by (simp add: word_le_nat_alt)
  have "place_fragments [?f1, ?f2] (replicate (o1 + n) 0) = Inl IndexOutOfRange"
    using u last(3) stray(3) out pos by (simp add: copy_from_slice_def)
  then have "fst (assemble chk (?pk\<lparr>fragments := [?f1, ?f2]\<rparr>)) = Inl IndexOutOfRange"
    using comp srt u by (simp add: assemble_def)
  then have "fst (reasm_entry chk t2 (src, dst, p2) \<lparr>rv_packet = ?pk, timestamp = t1\<rparr>) = Inl IndexOutOfRange"
    using stray(1,2) over by (auto simp: reasm_entry_def IpPacket_add_fragment_def split: prod.splits sum.splits)
  then show ?thesis
    using r1 st1 by (simp add: IpReassembler_add_fragment_def stray(1) ids case_prod_beta)
qed

theorem reassembler_stray_fragment_panics_witness:
  defines "mk \<equiv> \<lambda>fl off d. \<lparr>ip_hdr = \<lparr>version = 4, header_length = 5, dscp = 0, ecn = 0, ip_total_length = 28,
      identification = 7, ip_flags = fl, fragment_offset = off, ttl = 64, next_level_protocol = 17,
      ip_source = 1, ip_destination = 2\<rparr>, ip_payload = replicate 8 (d :: u8)\<rparr>"
  shows "\<exists>packets1. IpReassembler_add_fragment True 0 (1, 2, mk 0 1 0) Map.empty = (Inr None, packets1) \<and>
     fst (IpReassembler_add_fragment True 1 (1, 2, mk 1 2 0) packets1) = Inl IndexOutOfRange"
proof -
  have f: "fragment_of True (mk 0 1 0) =
      Inr (Some (of_nat 8, \<lparr>frag_id = 7, frag_offset = of_nat 8, frag_data = replicate 8 0\<rparr>))"
      "fragment_of True (mk 1 2 0) =
      Inr (Some (of_nat 8, \<lparr>frag_id = 7, frag_offset = of_nat 16, frag_data = replicate 8 0\<rparr>))"
    by (simp_all add: mk_def fragment_of_def IpFragment_from_def umul_def usub_def)
  obtain r1 packets1 where "IpReassembler_add_fragment True 0 (1, 2, mk 0 1 0) Map.empty = (r1, packets1)"
    by force
  with reassembler_stray_fragment_panics [OF f(1) _ _ f(2) _ _ _ _ _ _ _ _ _ this, of 1] show ?thesis
    by (simp add: mk_def is_last_fragment_def MoreFragments_def)
qed

end
