(* ===== verification/Acl_Rules.thy ===== *)
theory Acl_Rules
  imports Rust_Prelude
begin

text \<open>
  The configuration side of access control: the messages of \<open>src/easytier/src/proto/acl.proto\<close>, the
  parsing of ports and the conversion and ordering of rules of
  \<open>src/easytier/src/common/acl_processor.rs\<close>, and the rule builder there that turns the command
  line's port whitelists into a chain. Parsing and membership of address ranges are the cidr
  library's and are parameters (\<open>acl_env\<close>), as is the text of an address. Text is ASCII.
\<close>

section \<open>Messages\<close>

datatype Protocol = ProtoUnspecified | Tcp | Udp | Icmp | IcmPv6 | AnyProto

datatype Action = Noop | Allow | Drop

datatype ChainType = UnspecifiedChain | Inbound | Outbound | Forward

fun Protocol_i32 :: "Protocol \<Rightarrow> u32" where
  "Protocol_i32 ProtoUnspecified = 0"
| "Protocol_i32 Tcp = 1"
| "Protocol_i32 Udp = 2"
| "Protocol_i32 Icmp = 3"
| "Protocol_i32 IcmPv6 = 4"
| "Protocol_i32 AnyProto = 5"

fun Action_i32 :: "Action \<Rightarrow> u32" where
  "Action_i32 Noop = 0"
| "Action_i32 Allow = 1"
| "Action_i32 Drop = 2"

fun ChainType_i32 :: "ChainType \<Rightarrow> u32" where
  "ChainType_i32 UnspecifiedChain = 0"
| "ChainType_i32 Inbound = 1"
| "ChainType_i32 Outbound = 2"
| "ChainType_i32 Forward = 3"

text \<open>The getters of the generated messages give the first value of the enum for unknown numbers.\<close>

definition Protocol_get :: "u32 \<Rightarrow> Protocol" where
  "Protocol_get n =
     (if n = 1 then Tcp else if n = 2 then Udp else if n = 3 then Icmp else if n = 4 then IcmPv6
      else if n = 5 then AnyProto else ProtoUnspecified)"

definition Action_get :: "u32 \<Rightarrow> Action" where
  "Action_get n = (if n = 1 then Allow else if n = 2 then Drop else Noop)"

definition ChainType_get :: "u32 \<Rightarrow> ChainType" where
  "ChainType_get n = (if n = 1 then Inbound else if n = 2 then Outbound else if n = 3 then Forward else UnspecifiedChain)"

record Rule =
  rule_name :: string
  rule_description :: string
  rule_priority :: u32
  rule_enabled :: bool
  rule_protocol :: u32
  ports :: "string list"
  source_ips :: "string list"
  destination_ips :: "string list"
  source_ports :: "string list"
  rule_action :: u32
  rule_rate_limit :: u32
  rule_burst_limit :: u32
  rule_stateful :: bool
  rule_source_groups :: "string list"
  rule_destination_groups :: "string list"

record Chain =
  chain_name :: string
  chain_chain_type :: u32
  chain_description :: string
  chain_enabled :: bool
  chain_rules :: "Rule list"
  chain_default_action :: u32

record GroupInfo =
  declares :: "(string \<times> string) list"
  members :: "string list"

record AclV1 =
  chains :: "Chain list"
  group :: "GroupInfo option"

record Acl =
  acl_v1 :: "AclV1 option"

definition Acl_default :: Acl where
  "Acl_default = \<lparr>acl_v1 = None\<rparr>"

section \<open>Addresses\<close>

datatype IpAddr = V4 u32 | V6 "128 word"

datatype IpCidr = CidrV4 u32 nat | CidrV6 "128 word" nat

record acl_env =
  cidr_from_str :: "string \<Rightarrow> IpCidr option"
  v4_contains :: "u32 \<Rightarrow> nat \<Rightarrow> u32 \<Rightarrow> bool"
  v6_contains :: "128 word \<Rightarrow> nat \<Rightarrow> 128 word \<Rightarrow> bool"
  show_ip :: "IpAddr \<Rightarrow> string"

definition cidr_contains :: "acl_env \<Rightarrow> IpCidr \<Rightarrow> IpAddr \<Rightarrow> bool" where
  "cidr_contains env c a =
     (case (c, a) of
        (CidrV4 n l, V4 x) \<Rightarrow> v4_contains env n l x
      | (CidrV6 n l, V6 x) \<Rightarrow> v6_contains env n l x
      | _ \<Rightarrow> False)"

section \<open>Ports\<close>

definition is_digit :: "char \<Rightarrow> bool" where
  "is_digit c \<longleftrightarrow> (48 :: nat) \<le> of_char c \<and> of_char c \<le> (57 :: nat)"

fun digits_val :: "string \<Rightarrow> nat \<Rightarrow> nat" where
  "digits_val [] acc = acc"
| "digits_val (c # cs) acc = digits_val cs (10 * acc + (of_char c - 48))"

text \<open>\<open>str::parse::<u16>\<close>: an optional plus sign and at least one digit, at most 65535.\<close>

definition parse_u16 :: "string \<Rightarrow> u16 option" where
  "parse_u16 s =
     (let ds = (case s of c # cs \<Rightarrow> if c = CHR ''+'' then cs else s | [] \<Rightarrow> []) in
      if ds \<noteq> [] \<and> list_all is_digit ds \<and> digits_val ds 0 < 2 ^ 16 then Some (of_nat (digits_val ds 0)) else None)"

definition is_space :: "char \<Rightarrow> bool" where
  "is_space c \<longleftrightarrow> (of_char c :: nat) \<in> {9, 10, 11, 12, 13, 32}"

definition trim :: "string \<Rightarrow> string" where
  "trim s = rev (dropWhile is_space (rev (dropWhile is_space s)))"

definition split_once :: "char \<Rightarrow> string \<Rightarrow> (string \<times> string) option" where
  "split_once c s =
     (if c \<in> set s then Some (takeWhile (\<lambda>x. x \<noteq> c) s, drop 1 (dropWhile (\<lambda>x. x \<noteq> c) s)) else None)"

fun split_at :: "char \<Rightarrow> string \<Rightarrow> string list" where
  "split_at c [] = [[]]"
| "split_at c (x # xs) =
     (if x = c then [] # split_at c xs
      else case split_at c xs of p # ps \<Rightarrow> (x # p) # ps | [] \<Rightarrow> [[x]])"

definition parse_port_range :: "string \<Rightarrow> (u16 \<times> u16) option" where
  "parse_port_range s =
     (case split_once (CHR ''-'') s of
        Some (start, end) \<Rightarrow>
          Option.bind (parse_u16 (trim start)) (\<lambda>a. Option.bind (parse_u16 (trim end)) (\<lambda>b. Some (a, b)))
      | None \<Rightarrow> Option.bind (parse_u16 (trim s)) (\<lambda>p. Some (p, p)))"

definition port_ranges :: "string list \<Rightarrow> (u16 \<times> u16) list" where
  "port_ranges ss = List.map_filter parse_port_range ss"

definition parse_port_start :: "string list \<Rightarrow> u16 option" where
  "parse_port_start ss = (case port_ranges ss of [] \<Rightarrow> None | rs \<Rightarrow> Some (Min (set (map fst rs))))"

definition parse_port_end :: "string list \<Rightarrow> u16 option" where
  "parse_port_end ss = (case port_ranges ss of [] \<Rightarrow> None | rs \<Rightarrow> Some (Max (set (map snd rs))))"

text \<open>The decimal digits of a number, as \<open>to_string\<close> writes them.\<close>

fun show_nat :: "nat \<Rightarrow> string" where
  "show_nat n = (if n < 10 then [char_of (48 + n)] else show_nat (n div 10) @ [char_of (48 + n mod 10)])"

declare show_nat.simps [simp del]

section \<open>Rules in lookup form\<close>

text \<open>The counters of a rule live in a shared object; its identity is the rule's place in the configuration.\<close>

datatype stats_id = DefaultStats | RuleStatsAt nat nat

record FastLookupRule =
  priority :: u32
  protocol :: Protocol
  src_ip_ranges :: "IpCidr list"
  dst_ip_ranges :: "IpCidr list"
  src_port_ranges :: "(u16 \<times> u16) list"
  dst_port_ranges :: "(u16 \<times> u16) list"
  source_groups :: "string set"
  destination_groups :: "string set"
  action :: Action
  enabled :: bool
  stateful :: bool
  rate_limit :: u32
  burst_limit :: u32
  rule_stats :: stats_id
  stats_rule :: Rule

definition convert_ip_inet_to_cidr :: "acl_env \<Rightarrow> string \<Rightarrow> IpCidr option" where
  "convert_ip_inet_to_cidr env s = cidr_from_str env s"

definition convert_to_fast_lookup_rule :: "acl_env \<Rightarrow> stats_id \<Rightarrow> Rule \<Rightarrow> FastLookupRule" where
  "convert_to_fast_lookup_rule env sid r =
     \<lparr>priority = rule_priority r, protocol = Protocol_get (rule_protocol r),
      src_ip_ranges = List.map_filter (convert_ip_inet_to_cidr env) (source_ips r),
      dst_ip_ranges = List.map_filter (convert_ip_inet_to_cidr env) (destination_ips r),
      src_port_ranges = port_ranges (source_ports r), dst_port_ranges = port_ranges (ports r),
      source_groups = set (rule_source_groups r), destination_groups = set (rule_destination_groups r),
      action = Action_get (rule_action r), enabled = rule_enabled r, stateful = rule_stateful r,
      rate_limit = rule_rate_limit r, burst_limit = rule_burst_limit r, rule_stats = sid, stats_rule = r\<rparr>"

text \<open>The enabled rules of a chain, converted and in descending order of priority (a stable sort).\<close>

definition chain_lookup_rules :: "acl_env \<Rightarrow> nat \<Rightarrow> Chain \<Rightarrow> FastLookupRule list" where
  "chain_lookup_rules env ci c =
     sort_key (\<lambda>r. - int (unat (priority r)))
       (map (\<lambda>(ri, r). convert_to_fast_lookup_rule env (RuleStatsAt ci ri) r)
          (filter (\<lambda>(ri, r). rule_enabled r) (enumerate 0 (chain_rules c))))"

definition rules_of_type :: "acl_env \<Rightarrow> ChainType \<Rightarrow> (nat \<times> Chain) list \<Rightarrow> FastLookupRule list" where
  "rules_of_type env ct cs =
     concat (map (\<lambda>(ci, c). chain_lookup_rules env ci c)
       (filter (\<lambda>(ci, c). chain_enabled c \<and> ChainType_get (chain_chain_type c) = ct) cs))"

definition build_rules ::
  "acl_env \<Rightarrow> Acl \<Rightarrow> FastLookupRule list \<times> FastLookupRule list \<times> FastLookupRule list" where
  "build_rules env a =
     (case acl_v1 a of
        None \<Rightarrow> ([], [], [])
      | Some v1 \<Rightarrow>
          let cs = enumerate 0 (chains v1) in
          (rules_of_type env Inbound cs, rules_of_type env Outbound cs, rules_of_type env Forward cs))"

definition default_action_of :: "ChainType \<Rightarrow> Acl \<Rightarrow> Action" where
  "default_action_of ct a =
     (case acl_v1 a of
        None \<Rightarrow> Allow
      | Some v1 \<Rightarrow> (case List.find (\<lambda>c. chain_chain_type c = ChainType_i32 ct) (chains v1) of
          None \<Rightarrow> Allow | Some c \<Rightarrow> Action_get (chain_default_action c)))"

definition build_default_actions :: "Acl \<Rightarrow> Action \<times> Action \<times> Action" where
  "build_default_actions a = (default_action_of Inbound a, default_action_of Outbound a, default_action_of Forward a)"

section \<open>Whitelists\<close>

record AclRuleBuilder =
  acl :: "Acl option"
  tcp_whitelist :: "string list"
  udp_whitelist :: "string list"
  whitelist_priority :: "u32 option"

datatype builder_error = InvalidPortRange string | InvalidPort string | StartAfterEnd string

definition parse_port_spec :: "string \<Rightarrow> builder_error + string" where
  "parse_port_spec port_spec =
     (if CHR ''-'' \<in> set port_spec then
        let parts = split_at (CHR ''-'') port_spec in
        if length parts \<noteq> 2 then Inl (InvalidPortRange port_spec)
        else (case parse_u16 (parts ! 0) of
            None \<Rightarrow> Inl (InvalidPort port_spec)
          | Some start \<Rightarrow> (case parse_u16 (parts ! 1) of
              None \<Rightarrow> Inl (InvalidPort port_spec)
            | Some end \<Rightarrow> if start > end then Inl (StartAfterEnd port_spec) else Inr port_spec))
      else (case parse_u16 port_spec of
          None \<Rightarrow> Inl (InvalidPort port_spec)
        | Some port \<Rightarrow> Inr (show_nat (unat port))))"

fun parse_port_list :: "string list \<Rightarrow> builder_error + string list" where
  "parse_port_list [] = Inr []"
| "parse_port_list (s # ss) =
     rbind (parse_port_spec s) (\<lambda>p. rbind (parse_port_list ss) (\<lambda>ps. Inr (p # ps)))"

definition whitelist_rule :: "string \<Rightarrow> string \<Rightarrow> u32 \<Rightarrow> Protocol \<Rightarrow> bool \<Rightarrow> string list \<Rightarrow> Rule" where
  "whitelist_rule name descr prio proto st ps =
     \<lparr>rule_name = name, rule_description = descr, rule_priority = prio, rule_enabled = True,
      rule_protocol = Protocol_i32 proto, ports = ps, source_ips = [], destination_ips = [],
      source_ports = [], rule_action = Action_i32 Allow, rule_rate_limit = 0, rule_burst_limit = 0,
      rule_stateful = st, rule_source_groups = [], rule_destination_groups = []\<rparr>"

definition inbound_whitelist_chain :: "Rule list \<Rightarrow> Chain" where
  "inbound_whitelist_chain rs =
     \<lparr>chain_name = ''inbound_whitelist'', chain_chain_type = ChainType_i32 Inbound,
      chain_description = ''Auto-generated inbound whitelist from CLI'', chain_enabled = True,
      chain_rules = rs, chain_default_action = Action_i32 Drop\<rparr>"

definition push_chain :: "Chain \<Rightarrow> Acl option \<Rightarrow> Acl" where
  "push_chain c ao =
     (let a = (case ao of None \<Rightarrow> Acl_default | Some a \<Rightarrow> a) in
      case acl_v1 a of
        Some v1 \<Rightarrow> a\<lparr>acl_v1 := Some (v1\<lparr>chains := chains v1 @ [c]\<rparr>)\<rparr>
      | None \<Rightarrow> a\<lparr>acl_v1 := Some \<lparr>chains = [c], group = Some \<lparr>declares = [], members = []\<rparr>\<rparr>\<rparr>)"

definition generate_acl_from_whitelists ::
  "bool \<Rightarrow> AclRuleBuilder \<Rightarrow> (builder_error + AclRuleBuilder) may_panic" where
  "generate_acl_from_whitelists chk b =
     (if tcp_whitelist b = [] \<and> udp_whitelist b = [] then Inr (Inr b)
      else
        let prio = (case whitelist_priority b of Some p \<Rightarrow> p | None \<Rightarrow> 1000) in
        case (if tcp_whitelist b \<noteq> [] then parse_port_list (tcp_whitelist b) else Inr []) of
          Inl e \<Rightarrow> Inr (Inl e)
        | Inr tcp_ports \<Rightarrow>
            rbind (if tcp_whitelist b \<noteq> [] then usub chk prio 1 else Inr prio) (\<lambda>udp_prio.
            case (if udp_whitelist b \<noteq> [] then parse_port_list (udp_whitelist b) else Inr []) of
              Inl e \<Rightarrow> Inr (Inl e)
            | Inr udp_ports \<Rightarrow>
                let rules =
                      (if tcp_whitelist b \<noteq> []
                       then [whitelist_rule ''tcp_whitelist'' ''Auto-generated TCP whitelist rule'' prio Tcp True tcp_ports]
                       else []) @
                      (if udp_whitelist b \<noteq> []
                       then [whitelist_rule ''udp_whitelist'' ''Auto-generated UDP whitelist rule'' udp_prio Udp False udp_ports]
                       else [])
                in Inr (Inr (b\<lparr>acl := Some (push_chain (inbound_whitelist_chain rules) (acl b))\<rparr>))))"

definition do_build :: "bool \<Rightarrow> AclRuleBuilder \<Rightarrow> (builder_error + Acl option) may_panic" where
  "do_build chk b =
     rbind (generate_acl_from_whitelists chk b) (\<lambda>r.
       Inr (case r of Inl e \<Rightarrow> Inl e | Inr b \<Rightarrow> Inr (acl b)))"

end
