(* ===== verification/Token_Bucket.thy ===== *)
theory Token_Bucket
  imports Rust_Prelude
begin

text \<open>
  The token bucket, \<open>src/easytier/src/common/token_bucket.rs\<close>: its configuration, the operations
  \<open>try_consume\<close> and \<open>refill\<close> as sequential functions and, because the code runs them lock-free from
  many tasks, as a step relation whose steps are the accesses to the shared atomics, and the
  manager's table of buckets. The floating-point product that turns elapsed time into tokens is
  the parameter \<open>tokens_for\<close> of the fill rate and the elapsed microseconds; no property of it is
  assumed. Times are microseconds since the bucket was created.
\<close>

section \<open>Configuration\<close>

record LimiterConfig =
  burst_rate :: "u64 option"
  bps :: "u64 option"
  fill_duration_ms :: "u64 option"

record BucketConfig =
  capacity :: u64
  fill_rate :: u64
  refill_interval_ms :: u64

definition u64_MAX :: u64 where
  "u64_MAX = - 1"

definition BucketConfig_from :: "bool \<Rightarrow> LimiterConfig \<Rightarrow> BucketConfig may_panic" where
  "BucketConfig_from chk cfg =
     (let burst_rate = max 1 (case burst_rate cfg of Some x \<Rightarrow> x | None \<Rightarrow> 1);
          fill_rate = max 8196 (case bps cfg of Some x \<Rightarrow> x | None \<Rightarrow> u64_MAX div burst_rate);
          refill_interval = (case fill_duration_ms cfg of Some x \<Rightarrow> max 1 x | None \<Rightarrow> 10) in
      rbind (umul chk burst_rate fill_rate) (\<lambda>cap.
        Inr \<lparr>capacity = cap, fill_rate = fill_rate, refill_interval_ms = refill_interval\<rparr>))"

section \<open>The bucket, one operation at a time\<close>

record TokenBucket =
  available_tokens :: u64
  last_refill_time :: u64
  config :: BucketConfig

definition TokenBucket_new_from_cfg :: "BucketConfig \<Rightarrow> TokenBucket" where
  "TokenBucket_new_from_cfg cfg = \<lparr>available_tokens = capacity cfg, last_refill_time = 0, config = cfg\<rparr>"

definition TokenBucket_new :: "u64 \<Rightarrow> u64 \<Rightarrow> u64 \<Rightarrow> TokenBucket" where
  "TokenBucket_new cap rate interval =
     TokenBucket_new_from_cfg \<lparr>capacity = cap, fill_rate = rate, refill_interval_ms = interval\<rparr>"

definition saturating_add :: "u64 \<Rightarrow> u64 \<Rightarrow> u64" where
  "saturating_add a b = (if unat a + unat b < 2 ^ 64 then a + b else u64_MAX)"

definition saturating_sub :: "u64 \<Rightarrow> u64 \<Rightarrow> u64" where
  "saturating_sub a b = (if b \<le> a then a - b else 0)"

definition refilled :: "u64 \<Rightarrow> u64 \<Rightarrow> u64 \<Rightarrow> u64" where
  "refilled cap add current = min (saturating_add current add) cap"

definition tokens_to_add :: "(u64 \<Rightarrow> u64 \<Rightarrow> u64) \<Rightarrow> TokenBucket \<Rightarrow> u64 \<Rightarrow> u64" where
  "tokens_to_add tokens_for b now = tokens_for (fill_rate (config b)) (saturating_sub now (last_refill_time b))"

definition refill :: "(u64 \<Rightarrow> u64 \<Rightarrow> u64) \<Rightarrow> u64 \<Rightarrow> TokenBucket \<Rightarrow> TokenBucket" where
  "refill tokens_for now b =
     (let add = tokens_to_add tokens_for b now; b = b\<lparr>last_refill_time := now\<rparr> in
      if add = 0 then b
      else b\<lparr>available_tokens := refilled (capacity (config b)) add (available_tokens b)\<rparr>)"

definition try_consume :: "u64 \<Rightarrow> TokenBucket \<Rightarrow> bool \<times> TokenBucket" where
  "try_consume tokens b =
     (if tokens > capacity (config b) then (False, b)
      else if available_tokens b < tokens then (False, b)
      else (True, b\<lparr>available_tokens := available_tokens b - tokens\<rparr>))"

section \<open>The bucket under concurrency\<close>

text \<open>
  Where a task stands between two accesses to the atomics: in the loop of \<open>try_consume\<close> with the
  value it last read, or in \<open>refill\<close> after the swap or with the value it last read.
\<close>

datatype tb_pc =
    TIdle
  | TConsume u64 u64
  | TSwapped u64
  | TRefill u64 u64

datatype tb_event =
    Silent
  | Consumed u64 bool
  | Swapped u64
  | Added u64

text \<open>
  One access to the atomics by one task, with the local computation that follows it.
  \<open>compare_exchange_weak\<close> may fail although the value is the expected one.
\<close>

inductive tb_access ::
  "(u64 \<Rightarrow> u64 \<Rightarrow> u64) \<Rightarrow> TokenBucket \<Rightarrow> tb_pc \<Rightarrow> tb_event \<Rightarrow> TokenBucket \<Rightarrow> tb_pc \<Rightarrow> bool" for tokens_for where
  consume_oversized: "tokens > capacity (config b) \<Longrightarrow>
    tb_access tokens_for b TIdle (Consumed tokens False) b TIdle"
| consume_load: "tokens \<le> capacity (config b) \<Longrightarrow> tokens \<le> available_tokens b \<Longrightarrow>
    tb_access tokens_for b TIdle Silent b (TConsume tokens (available_tokens b))"
| consume_load_short: "tokens \<le> capacity (config b) \<Longrightarrow> available_tokens b < tokens \<Longrightarrow>
    tb_access tokens_for b TIdle (Consumed tokens False) b TIdle"
| consume_swap: "available_tokens b = current \<Longrightarrow>
    tb_access tokens_for b (TConsume tokens current) (Consumed tokens True)
      (b\<lparr>available_tokens := current - tokens\<rparr>) TIdle"
| consume_retry: "tokens \<le> available_tokens b \<Longrightarrow>
    tb_access tokens_for b (TConsume tokens current) Silent b (TConsume tokens (available_tokens b))"
| consume_retry_short: "available_tokens b < tokens \<Longrightarrow>
    tb_access tokens_for b (TConsume tokens current) (Consumed tokens False) b TIdle"
| refill_swap: "add = tokens_to_add tokens_for b now \<Longrightarrow>
    tb_access tokens_for b TIdle (Swapped now) (b\<lparr>last_refill_time := now\<rparr>) (if add = 0 then TIdle else TSwapped add)"
| refill_load: "tb_access tokens_for b (TSwapped add) Silent b (TRefill add (available_tokens b))"
| refill_exchange: "available_tokens b = current \<Longrightarrow>
    tb_access tokens_for b (TRefill add current) (Added add)
      (b\<lparr>available_tokens := refilled (capacity (config b)) add current\<rparr>) TIdle"
| refill_retry: "tb_access tokens_for b (TRefill add current) Silent b (TRefill add (available_tokens b))"

text \<open>Any number of tasks; each step is an access by one of them. The trace lists the events.\<close>

inductive tb_run ::
  "(u64 \<Rightarrow> u64 \<Rightarrow> u64) \<Rightarrow> TokenBucket \<Rightarrow> (nat \<Rightarrow> tb_pc) \<Rightarrow> tb_event list \<Rightarrow> TokenBucket \<Rightarrow> (nat \<Rightarrow> tb_pc) \<Rightarrow> bool"
  for tokens_for where
  tb_none: "tb_run tokens_for b pcs [] b pcs"
| tb_step: "tb_run tokens_for b pcs evs b' pcs' \<Longrightarrow> tb_access tokens_for b' (pcs' i) e b'' pc \<Longrightarrow>
    tb_run tokens_for b pcs (evs @ [e]) b'' (pcs'(i := pc))"

inductive_cases tb_accessE: "tb_access tokens_for b pc e b' pc'"

section \<open>The manager\<close>

text \<open>
  A bucket of the table with the number of strong references to it, the table's own included.
\<close>

type_synonym bucket_table = "string \<rightharpoonup> (nat \<times> nat)"

text \<open>
  \<open>get_or_create\<close> returns the bucket's identity; \<open>fresh\<close> is the identity a new bucket gets.
\<close>

definition get_or_create :: "nat \<Rightarrow> string \<Rightarrow> bucket_table \<Rightarrow> nat \<times> bucket_table" where
  "get_or_create fresh key t =
     (case t key of
        Some (b, n) \<Rightarrow> (b, t(key \<mapsto> (b, n + 1)))
      | None \<Rightarrow> (fresh, t(key \<mapsto> (fresh, 2))))"

definition retain_buckets :: "bucket_table \<Rightarrow> bucket_table" where
  "retain_buckets t = (\<lambda>k. case t k of Some (b, n) \<Rightarrow> if n > 1 then Some (b, n) else None | None \<Rightarrow> None)"

section \<open>Linearization\<close>

text \<open>The specification of a trace: the sequential operations, with the results they must have.\<close>

fun tb_spec :: "tb_event \<Rightarrow> TokenBucket \<Rightarrow> TokenBucket option" where
  "tb_spec Silent b = Some b"
| "tb_spec (Consumed n r) b = (if fst (try_consume n b) = r then Some (snd (try_consume n b)) else None)"
| "tb_spec (Swapped now) b = Some (b\<lparr>last_refill_time := now\<rparr>)"
| "tb_spec (Added add) b = Some (b\<lparr>available_tokens := refilled (capacity (config b)) add (available_tokens b)\<rparr>)"

fun tb_replay :: "tb_event list \<Rightarrow> TokenBucket \<Rightarrow> TokenBucket option" where
  "tb_replay [] b = Some b"
| "tb_replay (e # evs) b = Option.bind (tb_spec e b) (tb_replay evs)"

lemma tb_replay_append: "tb_replay (evs @ evs') b = Option.bind (tb_replay evs b) (tb_replay evs')"
  by (induction evs arbitrary: b) (auto split: Option.bind_splits)

definition pc_ok :: "TokenBucket \<Rightarrow> tb_pc \<Rightarrow> bool" where
  "pc_ok b pc = (case pc of TConsume n c \<Rightarrow> n \<le> capacity (config b) \<and> n \<le> c | _ \<Rightarrow> True)"

lemma tb_access_spec:
  assumes "tb_access tokens_for b pc e b' pc'" and "pc_ok b pc"
  shows "tb_spec e b = Some b' \<and> pc_ok b' pc' \<and> config b' = config b"
  using assms by (cases rule: tb_access.cases) (auto simp: pc_ok_def try_consume_def not_less)

lemma pc_ok_config: "config b' = config b \<Longrightarrow> pc_ok b' pc = pc_ok b pc"
  by (simp add: pc_ok_def split: tb_pc.splits)

lemma tb_run_replay:
  assumes "tb_run tokens_for b pcs evs b' pcs'" and "\<forall>i. pc_ok b (pcs i)"
  shows "tb_replay evs b = Some b' \<and> config b' = config b \<and> (\<forall>i. pc_ok b' (pcs' i))"
  using assms
proof (induction rule: tb_run.induct)
  case (tb_step b pcs evs b' pcs' i e b'' pc)
  then have "tb_spec e b' = Some b'' \<and> pc_ok b'' pc \<and> config b'' = config b'"
    using tb_access_spec by blast
  with tb_step pc_ok_config [of b'' b'] show ?case
    by (auto simp: tb_replay_append)
qed simp

section \<open>No more tokens than were granted\<close>

fun consumed :: "tb_event list \<Rightarrow> nat" where
  "consumed [] = 0"
| "consumed (Consumed n True # evs) = unat n + consumed evs"
| "consumed (_ # evs) = consumed evs"

fun added :: "tb_event list \<Rightarrow> nat" where
  "added [] = 0"
| "added (Added n # evs) = unat n + added evs"
| "added (_ # evs) = added evs"

text \<open>The tokens for the time between each swap of the refill time and the one before it.\<close>

fun granted :: "(u64 \<Rightarrow> u64 \<Rightarrow> u64) \<Rightarrow> u64 \<Rightarrow> u64 \<Rightarrow> tb_event list \<Rightarrow> nat" where
  "granted tokens_for rate prev [] = 0"
| "granted tokens_for rate prev (Swapped now # evs) =
     unat (tokens_for rate (saturating_sub now prev)) + granted tokens_for rate now evs"
| "granted tokens_for rate prev (_ # evs) = granted tokens_for rate prev evs"

fun last_swap :: "u64 \<Rightarrow> tb_event list \<Rightarrow> u64" where
  "last_swap prev [] = prev"
| "last_swap prev (Swapped now # evs) = last_swap now evs"
| "last_swap prev (_ # evs) = last_swap prev evs"

lemma consumed_append: "consumed (evs @ evs') = consumed evs + consumed evs'"
  by (induction evs rule: consumed.induct) simp_all

lemma added_append: "added (evs @ evs') = added evs + added evs'"
  by (induction evs rule: added.induct) simp_all

lemma granted_append:
  "granted tokens_for rate prev (evs @ evs') =
     granted tokens_for rate prev evs + granted tokens_for rate (last_swap prev evs) evs'"
  by (induction tokens_for rate prev evs rule: granted.induct) simp_all

lemma last_swap_append: "last_swap prev (evs @ evs') = last_swap (last_swap prev evs) evs'"
  by (induction prev evs rule: last_swap.induct) simp_all

lemma unat_refilled: "unat (refilled cap add c) \<le> unat c + unat add" "refilled cap add c \<le> cap"
proof -
  have "unat (saturating_add c add) \<le> unat c + unat add"
    using unsigned_less [of u64_MAX, where 'a = nat] by (auto simp: saturating_add_def unat_word_ariths)
  moreover have "unat (refilled cap add c) \<le> unat (saturating_add c add)"
    by (simp add: refilled_def flip: word_le_nat_alt)
  ultimately show "unat (refilled cap add c) \<le> unat c + unat add"
    by simp
qed (simp add: refilled_def)

lemma tb_spec_tokens:
  assumes "tb_spec e b = Some b'"
  shows "unat (available_tokens b') + consumed [e] \<le> unat (available_tokens b) + added [e]"
    and "available_tokens b \<le> capacity (config b) \<Longrightarrow> available_tokens b' \<le> capacity (config b')"
    and "config b' = config b" and "last_refill_time b' = last_swap (last_refill_time b) [e]"
  using assms unat_refilled
  by (cases e; auto simp: try_consume_def not_less unat_sub word_le_nat_alt split: if_splits bool.splits)+

definition pending :: "tb_pc \<Rightarrow> nat" where
  "pending pc = (case pc of TSwapped a \<Rightarrow> unat a | TRefill a c \<Rightarrow> unat a | _ \<Rightarrow> 0)"

lemma tb_access_pending:
  assumes "tb_access tokens_for b pc e b' pc'"
  shows "pending pc' + added [e] \<le> pending pc + granted tokens_for (fill_rate (config b)) (last_refill_time b) [e]"
  using assms by (cases rule: tb_access.cases) (auto simp: pending_def tokens_to_add_def)

lemma tb_run_pending:
  assumes "tb_run tokens_for b pcs evs b' pcs'" and "\<forall>i. pcs i = TIdle" and "finite A"
  shows "(\<Sum>i\<in>A. pending (pcs' i)) + added evs
           \<le> granted tokens_for (fill_rate (config b)) (last_refill_time b) evs"
  using assms
proof (induction arbitrary: A rule: tb_run.induct)
  case (tb_none b pcs)
  then show ?case
    by (simp add: pending_def)
next
  case (tb_step b pcs evs b' pcs' i e b'' pc)
  have idle: "\<forall>i. pc_ok b (pcs i)"
    using tb_step.prems by (simp add: pc_ok_def)
  note rep = tb_run_replay [OF tb_step.hyps(1) idle]
  have "last_refill_time b' = last_swap (last_refill_time b) evs"
  proof -
    have "tb_replay evs b = Some b' \<Longrightarrow> last_refill_time b' = last_swap (last_refill_time b) evs" for evs b
    proof (induction evs arbitrary: b)
      case (Cons e evs)
      then obtain c where "tb_spec e b = Some c" "tb_replay evs c = Some b'"
        by (auto split: Option.bind_splits)
      then show ?case
        using Cons.IH [of c] tb_spec_tokens(4) [of e b c] last_swap_append [of _ "[e]" evs] by simp
    qed simp
    with rep show ?thesis by blast
  qed
  then have acc: "pending pc + added [e] \<le> pending (pcs' i) +
      granted tokens_for (fill_rate (config b)) (last_swap (last_refill_time b) evs) [e]"
    using tb_access_pending [OF tb_step.hyps(2)] rep by simp
  have IH: "pending (pcs' i) + (\<Sum>j\<in>A - {i}. pending (pcs' j)) + added evs
      \<le> granted tokens_for (fill_rate (config b)) (last_refill_time b) evs"
    using tb_step.IH [of "insert i A"] tb_step.prems by (simp add: sum.insert_remove)
  have "(\<Sum>j\<in>A. pending ((pcs'(i := pc)) j)) \<le> pending pc + (\<Sum>j\<in>A - {i}. pending (pcs' j))"
  proof -
    have "(\<Sum>j\<in>A - {i}. pending ((pcs'(i := pc)) j)) = (\<Sum>j\<in>A - {i}. pending (pcs' j))"
      by (rule sum.cong) auto
    then show ?thesis
      using tb_step.prems(2) by (cases "i \<in> A") (simp_all add: sum.remove)
  qed
  with IH acc show ?case
    by (simp add: added_append granted_append)
qed

lemma tb_replay_tokens:
  assumes "tb_replay evs b = Some b'"
  shows "unat (available_tokens b') + consumed evs \<le> unat (available_tokens b) + added evs"
    and "available_tokens b \<le> capacity (config b) \<Longrightarrow> available_tokens b' \<le> capacity (config b')"
proof -
  have "unat (available_tokens b') + consumed evs \<le> unat (available_tokens b) + added evs \<and>
      (available_tokens b \<le> capacity (config b) \<longrightarrow> available_tokens b' \<le> capacity (config b'))"
    using assms
  proof (induction evs arbitrary: b)
    case (Cons e evs)
    then obtain c where c: "tb_spec e b = Some c" "tb_replay evs c = Some b'"
      by (auto split: Option.bind_splits)
    then show ?case
      using Cons.IH [OF c(2)] tb_spec_tokens(1,2) [OF c(1)] consumed_append [of "[e]" evs] added_append [of "[e]" evs]
      by simp
  qed simp
  then show "unat (available_tokens b') + consumed evs \<le> unat (available_tokens b) + added evs"
    and "available_tokens b \<le> capacity (config b) \<Longrightarrow> available_tokens b' \<le> capacity (config b')"
    by simp_all
qed


text \<open>
  C29: The bucket never hands out more than it was given. In every interleaving, the tokens of all
  successful calls of \<open>try_consume\<close> and those still there are at most the capacity and what the
  refills computed from the time that passed between them; and the bucket never holds more than
  its capacity.
\<close>

theorem token_bucket_rate:
  assumes run: "tb_run tokens_for (TokenBucket_new_from_cfg cfg) (\<lambda>_. TIdle) evs b' pcs'"
  shows "consumed evs + unat (available_tokens b') \<le> unat (capacity cfg) + granted tokens_for (fill_rate cfg) 0 evs \<and>
     available_tokens b' \<le> capacity cfg"
proof -
  let ?b = "TokenBucket_new_from_cfg cfg"
  have rep: "tb_replay evs ?b = Some b'" and cfg: "config b' = config ?b"
    using tb_run_replay [OF run] by (simp_all add: pc_ok_def)
  have "added evs \<le> granted tokens_for (fill_rate (config ?b)) (last_refill_time ?b) evs"
    using tb_run_pending [OF run, of "{}"] by simp
  then show ?thesis
    using tb_replay_tokens [OF rep] cfg by (simp add: TokenBucket_new_from_cfg_def)
qed

text \<open>Two tasks race for three of five tokens each; the loser's exchange fails and it gives up.\<close>

lemma race_run:
  defines "cfg \<equiv> \<lparr>capacity = 5, fill_rate = 10, refill_interval_ms = 10\<rparr>"
  shows "\<exists>pcs. tb_run tokens_for (TokenBucket_new_from_cfg cfg) (\<lambda>_. TIdle)
     [Silent, Silent, Consumed 3 True, Consumed 3 False]
     ((TokenBucket_new_from_cfg cfg)\<lparr>available_tokens := 2\<rparr>) pcs"
proof -
  let ?b = "TokenBucket_new_from_cfg cfg" and ?b' = "(TokenBucket_new_from_cfg cfg)\<lparr>available_tokens := 2\<rparr>"
  let ?w = "\<lambda>_ :: nat. TIdle" and ?c = "TConsume 3 5"
  have b: "available_tokens ?b = 5" "capacity (config ?b) = 5" "capacity (config ?b') = 5"
    by (simp_all add: TokenBucket_new_from_cfg_def cfg_def)
  have "tb_access tokens_for ?b TIdle Silent ?b ?c"
    using consume_load [of 3 ?b tokens_for] b by simp
  then have "tb_run tokens_for ?b ?w ([] @ [Silent]) ?b (?w(0 := ?c))"
    by (intro tb_step [OF tb_none]) simp
  then have "tb_run tokens_for ?b ?w ([Silent] @ [Silent]) ?b (?w(0 := ?c, 1 := ?c))"
    using consume_load [of 3 ?b tokens_for] b by (intro tb_step) simp_all
  then have "tb_run tokens_for ?b ?w ([Silent, Silent] @ [Consumed 3 True]) ?b' (?w(0 := ?c, 1 := ?c, 0 := TIdle))"
    using consume_swap [of ?b 5 tokens_for 3] b by (intro tb_step) simp_all
  then have "tb_run tokens_for ?b ?w ([Silent, Silent, Consumed 3 True] @ [Consumed 3 False]) ?b'
      (?w(0 := ?c, 1 := ?c, 0 := TIdle, 1 := TIdle))"
    using consume_retry_short [of ?b' 3 tokens_for 5] by (intro tb_step) simp_all
  then show ?thesis
    by auto
qed


theorem token_bucket_rate_witness:
  defines "cfg \<equiv> \<lparr>capacity = 5, fill_rate = 10, refill_interval_ms = 10\<rparr>"
  shows "consumed [Silent, Silent, Consumed 3 True, Consumed 3 False] + unat (2 :: u64) \<le>
     unat (capacity cfg) + granted (\<lambda>r e. 0) (fill_rate cfg) 0 [Silent, Silent, Consumed 3 True, Consumed 3 False] \<and>
     (2 :: u64) \<le> capacity cfg"
proof -
  obtain pcs where "tb_run (\<lambda>r e. 0) (TokenBucket_new_from_cfg cfg) (\<lambda>_. TIdle)
     [Silent, Silent, Consumed 3 True, Consumed 3 False]
     ((TokenBucket_new_from_cfg cfg)\<lparr>available_tokens := 2\<rparr>) pcs"
    using race_run [of "\<lambda>r e. 0"] unfolding cfg_def by blast
  from token_bucket_rate [OF this] show ?thesis
    by simp
qed

section \<open>Configured limits\<close>

definition cfg_burst :: "LimiterConfig \<Rightarrow> u64" where
  "cfg_burst cfg = max 1 (case burst_rate cfg of Some x \<Rightarrow> x | None \<Rightarrow> 1)"

definition cfg_rate :: "LimiterConfig \<Rightarrow> u64" where
  "cfg_rate cfg = max 8196 (case bps cfg of Some x \<Rightarrow> x | None \<Rightarrow> u64_MAX div cfg_burst cfg)"

text \<open>
  The bucket for a configured limit. When burst times rate fits 64 bits the configuration is
  built in every build, with a rate of at least 8196 bytes per second, a capacity of at least one
  second of it, and a refill interval of at least a millisecond. When it does not fit, a build
  with overflow checks panics, and one without them uses the product modulo \<open>2 ^ 64\<close>, so that a
  product that is a multiple of \<open>2 ^ 64\<close> gives a bucket that refuses every packet forever.
\<close>

theorem limiter_config_capacity:
  "if unat (cfg_burst cfg) * unat (cfg_rate cfg) < 2 ^ 64 then
     \<exists>c. BucketConfig_from chk cfg = Inr c \<and> fill_rate c = cfg_rate cfg \<and> 8196 \<le> fill_rate c \<and>
         unat (capacity c) = unat (cfg_burst cfg) * unat (cfg_rate cfg) \<and> fill_rate c \<le> capacity c \<and>
         1 \<le> refill_interval_ms c
   else BucketConfig_from True cfg = Inl ArithmeticOverflow \<and>
     (\<exists>c. BucketConfig_from False cfg = Inr c \<and>
          unat (capacity c) = unat (cfg_burst cfg) * unat (cfg_rate cfg) mod 2 ^ 64 \<and>
          (2 ^ 64 dvd unat (cfg_burst cfg) * unat (cfg_rate cfg) \<longrightarrow>
             (\<forall>n b. n \<noteq> 0 \<longrightarrow> config b = c \<longrightarrow> try_consume n b = (False, b))))"
proof -
  let ?b = "cfg_burst cfg" and ?r = "cfg_rate cfg"
  let ?i = "case fill_duration_ms cfg of Some x \<Rightarrow> max 1 x | None \<Rightarrow> (10 :: u64)"
  have eq: "BucketConfig_from chk cfg = rbind (umul chk ?b ?r) (\<lambda>cap.
      Inr \<lparr>capacity = cap, fill_rate = ?r, refill_interval_ms = ?i\<rparr>)" for chk
    unfolding BucketConfig_from_def cfg_rate_def cfg_burst_def Let_def ..
  have i: "1 \<le> ?i"
    by (simp split: option.splits)
  have b1: "1 \<le> ?b" and r: "8196 \<le> ?r"
    by (simp_all add: cfg_burst_def cfg_rate_def)
  have prod: "unat (?b * ?r) = unat ?b * unat ?r mod 2 ^ 64"
    by (simp add: unat_word_ariths)
  show ?thesis
  proof (cases "unat ?b * unat ?r < 2 ^ 64")
    case True
    have "unat ?r \<le> unat ?b * unat ?r"
      using b1 by (cases "unat ?b") (simp_all add: word_le_nat_alt)
    then have "?r \<le> ?b * ?r"
      using prod True by (simp add: word_le_nat_alt)
    then show ?thesis
      using True eq r i prod by (simp add: umul_def)
  next
    case False
    have "unat (?b * ?r) = 0 \<Longrightarrow> n \<noteq> 0 \<Longrightarrow> capacity (config b) = ?b * ?r \<Longrightarrow> try_consume n b = (False, b)" for n b
      by (simp add: try_consume_def word_gt_0 unat_eq_zero)
    then show ?thesis
      using False eq prod by (auto simp: umul_def dvd_eq_mod_eq_0)
  qed
qed

theorem limiter_config_capacity_witness:
  defines "cfg \<equiv> \<lparr>burst_rate = Some 2, bps = Some (2 ^ 63), fill_duration_ms = None\<rparr>"
  shows "BucketConfig_from True cfg = Inl ArithmeticOverflow \<and>
    (\<exists>c. BucketConfig_from False cfg = Inr c \<and> capacity c = 0 \<and>
         try_consume 1 (TokenBucket_new_from_cfg c) = (False, TokenBucket_new_from_cfg c))"
proof -
  have b: "unat (cfg_burst cfg) = 2" and r: "unat (cfg_rate cfg) = 2 ^ 63"
    by (simp_all add: cfg_def cfg_burst_def cfg_rate_def max_def)
  have "BucketConfig_from True cfg = Inl ArithmeticOverflow \<and>
    (\<exists>c. BucketConfig_from False cfg = Inr c \<and> unat (capacity c) = 2 * 2 ^ 63 mod 2 ^ 64 \<and>
          (2 ^ 64 dvd 2 * (2 ^ 63 :: nat) \<longrightarrow>
             (\<forall>n b. n \<noteq> 0 \<longrightarrow> config b = c \<longrightarrow> try_consume n b = (False, b))))"
    using limiter_config_capacity [of cfg True] unfolding b r by simp
  then obtain c where "BucketConfig_from True cfg = Inl ArithmeticOverflow" "BucketConfig_from False cfg = Inr c"
    and "unat (capacity c) = 0"
    and "\<And>n b. n \<noteq> 0 \<Longrightarrow> config b = c \<Longrightarrow> try_consume n b = (False, b)"
    by auto
  moreover have "config (TokenBucket_new_from_cfg c) = c"
    by (simp add: TokenBucket_new_from_cfg_def)
  ultimately show ?thesis
    by (simp add: unat_eq_zero)
qed

section \<open>Shared buckets\<close>

text \<open>A holder of a bucket keeps it in the table: later requests for the key get the same bucket.\<close>

lemma get_or_create_shares:
  assumes "get_or_create f key t = (b, t')" and "t key = None \<or> (\<exists>b n. t key = Some (b, n) \<and> 0 < n)"
  shows "fst (get_or_create f' key (retain_buckets t')) = b"
  using assms by (auto simp: get_or_create_def retain_buckets_def split: option.splits)

section \<open>Slow rates\<close>

text \<open>Every swap of the refill time comes before the fill rate has produced a whole token.\<close>

fun swaps_early :: "u64 \<Rightarrow> u64 \<Rightarrow> tb_event list \<Rightarrow> bool" where
  "swaps_early rate prev [] = True"
| "swaps_early rate prev (Swapped now # evs) =
     (unat rate * unat (saturating_sub now prev) < 1000000 \<and> swaps_early rate now evs)"
| "swaps_early rate prev (_ # evs) = swaps_early rate prev evs"

lemma granted_early:
  assumes "\<forall>r e. unat r * unat e < 1000000 \<longrightarrow> tokens_for r e = 0"
  shows "swaps_early rate prev evs \<Longrightarrow> granted tokens_for rate prev evs = 0"
  using assms by (induction tokens_for rate prev evs rule: granted.induct) auto

text \<open>
  A slow bucket is never refilled. The refill forgets the time for which it added no token, so
  when the background task comes round before the fill rate amounts to one token (as it does every
  10 ms for an access rule limited to fewer than 100 packets per second), nothing is ever added:
  all calls of \<open>try_consume\<close> together, for as long as the bucket lives, get no more than its
  initial capacity.
\<close>

theorem slow_bucket_never_refilled:
  assumes "\<forall>r e. unat r * unat e < 1000000 \<longrightarrow> tokens_for r e = 0"
    and "tb_run tokens_for (TokenBucket_new_from_cfg cfg) (\<lambda>_. TIdle) evs b' pcs'"
    and "swaps_early (fill_rate cfg) 0 evs"
  shows "consumed evs + unat (available_tokens b') \<le> unat (capacity cfg)"
proof -
  let ?b = "TokenBucket_new_from_cfg cfg"
  have "tb_replay evs ?b = Some b'"
    using tb_run_replay [OF assms(2)] by (simp add: pc_ok_def)
  moreover have "added evs \<le> granted tokens_for (fill_rate (config ?b)) (last_refill_time ?b) evs"
    using tb_run_pending [OF assms(2), of "{}"] by simp
  ultimately show ?thesis
    using tb_replay_tokens granted_early [OF assms(1,3)] by (fastforce simp: TokenBucket_new_from_cfg_def)
qed

lemma slow_run:
  defines "b \<equiv> TokenBucket_new_from_cfg \<lparr>capacity = 1, fill_rate = 50, refill_interval_ms = 10\<rparr>"
  assumes none: "tokens_for 50 10000 = 0"
  shows "\<exists>pcs. tb_run tokens_for b (\<lambda>_. TIdle) [Silent, Consumed 1 True, Swapped 10000, Swapped 20000]
     (b\<lparr>available_tokens := 0, last_refill_time := 20000\<rparr>) pcs"
proof -
  let ?w = "\<lambda>_ :: nat. TIdle" and ?c = "TConsume 1 1" and ?b0 = "b\<lparr>available_tokens := 0\<rparr>"
  have b: "available_tokens b = 1" "capacity (config b) = 1" "last_refill_time b = 0" "fill_rate (config b) = 50"
    by (simp_all add: TokenBucket_new_from_cfg_def b_def)
  have "tb_run tokens_for b ?w ([] @ [Silent]) b (?w(0 := ?c))"
    using consume_load [of 1 b tokens_for] b by (intro tb_step [OF tb_none]) simp
  then have "tb_run tokens_for b ?w ([Silent] @ [Consumed 1 True]) ?b0 (?w(0 := ?c, 0 := TIdle))"
    using consume_swap [of b 1 tokens_for 1] b by (intro tb_step) simp_all
  then have "tb_run tokens_for b ?w ([Silent, Consumed 1 True] @ [Swapped 10000]) (?b0\<lparr>last_refill_time := 10000\<rparr>)
      (?w(0 := ?c, 0 := TIdle, 1 := TIdle))"
    using refill_swap [of 0 tokens_for ?b0 10000] none b
    by (intro tb_step) (simp_all add: tokens_to_add_def saturating_sub_def)
  then have "tb_run tokens_for b ?w ([Silent, Consumed 1 True, Swapped 10000] @ [Swapped 20000])
      (?b0\<lparr>last_refill_time := 10000, last_refill_time := 20000\<rparr>)
      (?w(0 := ?c, 0 := TIdle, 1 := TIdle, 1 := TIdle))"
    using refill_swap [of 0 tokens_for "?b0\<lparr>last_refill_time := 10000\<rparr>" 20000] none b
    by (intro tb_step) (simp_all add: tokens_to_add_def saturating_sub_def)
  then show ?thesis
    by auto
qed

theorem slow_bucket_never_refilled_witness:
  defines "cfg \<equiv> \<lparr>capacity = 1, fill_rate = 50, refill_interval_ms = 10\<rparr>"
    and "evs \<equiv> [Silent, Consumed 1 True, Swapped 10000, Swapped 20000]"
    and "tokens_for \<equiv> (\<lambda>r e. of_nat (unat r * unat e div 1000000) :: u64)"
  shows "\<exists>b' pcs'. tb_run tokens_for (TokenBucket_new_from_cfg cfg) (\<lambda>_. TIdle) evs b' pcs' \<and>
    consumed evs + unat (available_tokens b') \<le> unat (capacity cfg) \<and> available_tokens b' = 0"
proof -
  let ?b = "(TokenBucket_new_from_cfg cfg)\<lparr>available_tokens := 0, last_refill_time := 20000\<rparr>"
  have "tokens_for 50 10000 = 0"
    by (simp add: tokens_for_def)
  then obtain pcs where run: "tb_run tokens_for (TokenBucket_new_from_cfg cfg) (\<lambda>_. TIdle) evs ?b pcs"
    using slow_run unfolding cfg_def evs_def by blast
  moreover have "\<forall>r e. unat r * unat e < 1000000 \<longrightarrow> tokens_for r e = 0"
    by (simp add: tokens_for_def del: of_nat_mult)
  moreover have "swaps_early (fill_rate cfg) 0 evs"
    by (simp add: cfg_def evs_def saturating_sub_def)
  ultimately show ?thesis
    using slow_bucket_never_refilled [of tokens_for cfg evs ?b pcs] by auto
qed

end
