(* ===== verification/Acl_Processor.thy ===== *)
theory Acl_Processor
  imports Acl_Rules Token_Bucket "HOL-Library.AList"
begin

text \<open>
  The packet side of access control, \<open>src/easytier/src/common/acl_processor.rs\<close>: matching a packet
  against the rules of a chain, the cache of decisions, rate limits, connection tracking,
  counters and the periodic cleanups. The cache is an association list in the (arbitrary) order in
  which the concurrent map iterates; so is the table of connections; the other tables are maps. \<open>now\<close> is the monotonic clock and
  \<open>wall\<close> the wall clock in seconds; monotonic instants are milliseconds. Counters are words; the
  overflow after \<open>2 ^ 64\<close> packets or bytes is not treated as a panic.
\<close>

section \<open>Packets, results, tables\<close>

record PacketInfo =
  src_ip :: IpAddr
  dst_ip :: IpAddr
  src_port :: "u16 option"
  dst_port :: "u16 option"
  pk_protocol :: Protocol
  packet_size :: nat
  src_groups :: "string list"
  dst_groups :: "string list"

datatype RuleId = RulePriority u32 | RuleStateful u32 | RuleDefault

definition RuleId_to_string :: "RuleId \<Rightarrow> string" where
  "RuleId_to_string r =
     (case r of RulePriority p \<Rightarrow> show_nat (unat p)
      | RuleStateful p \<Rightarrow> ''stateful-'' @ show_nat (unat p)
      | RuleDefault \<Rightarrow> ''default'')"

datatype AclLogContext =
    StatefulMatch IpAddr IpAddr
  | RuleMatch IpAddr IpAddr Action
  | DefaultDrop
  | DefaultAllow
  | UnsupportedChainType
  | RateLimitDrop

record AclResult =
  res_action :: Action
  matched_rule :: "RuleId option"
  should_log :: bool
  log_context :: "AclLogContext option"

type_synonym RateLimitKey = "ChainType \<times> u32"

record RateLimitValue =
  token_bucket :: TokenBucket
  last_update :: nat

record AclCacheKey =
  key_chain_type :: ChainType
  key_protocol :: Protocol
  key_src_ip :: IpAddr
  key_dst_ip :: IpAddr
  key_src_port :: u16
  key_dst_port :: u16
  key_src_groups :: "string list"
  key_dst_groups :: "string list"

definition port_or_0 :: "u16 option \<Rightarrow> u16" where
  "port_or_0 p = (case p of Some x \<Rightarrow> x | None \<Rightarrow> 0)"

definition AclCacheKey_from_packet_info :: "PacketInfo \<Rightarrow> ChainType \<Rightarrow> AclCacheKey" where
  "AclCacheKey_from_packet_info p ct =
     \<lparr>key_chain_type = ct, key_protocol = pk_protocol p, key_src_ip = src_ip p, key_dst_ip = dst_ip p,
      key_src_port = port_or_0 (src_port p), key_dst_port = port_or_0 (dst_port p),
      key_src_groups = src_groups p, key_dst_groups = dst_groups p\<rparr>"

record AclCacheEntry =
  entry_action :: Action
  entry_matched_rule :: RuleId
  last_access :: nat
  entry_conn_track_key :: "string option"
  rate_limit_keys :: "RateLimitKey list"
  entry_chain_type :: ChainType
  acl_result :: "AclResult option"
  rule_stats_vec :: "stats_id list"

datatype ConnState = ConnNew | ConnEstablished | ConnRelated | ConnInvalid

record ConnTrackEntry =
  src_addr :: "IpAddr \<times> u16"
  dst_addr :: "IpAddr \<times> u16"
  conn_protocol :: Protocol
  conn_state :: ConnState
  created_at :: u64
  last_seen :: u64
  conn_packet_count :: u64
  conn_byte_count :: u64

datatype AclStatType = StatTotal | StatAllowed | StatDropped | StatNoop

datatype AclStatKey =
    CacheHits | CacheSize | CacheMaxSize | RuleMatches | DefaultAllows | DefaultDrops
  | Packets AclStatType
  | ChainPackets ChainType AclStatType

definition AclStatKey_from_chain_and_action :: "ChainType \<Rightarrow> AclStatType \<Rightarrow> AclStatKey" where
  "AclStatKey_from_chain_and_action ct st = ChainPackets ct st"

record AclProcessor =
  inbound_rules :: "FastLookupRule list"
  outbound_rules :: "FastLookupRule list"
  forward_rules :: "FastLookupRule list"
  default_inbound_action :: Action
  default_outbound_action :: Action
  default_forward_action :: Action
  rule_stat_items :: "stats_id \<Rightarrow> u64 \<times> u64"
  conn_track :: "(string \<times> ConnTrackEntry) list"
  rate_limiters :: "RateLimitKey \<rightharpoonup> RateLimitValue"
  rule_cache :: "(AclCacheKey \<times> AclCacheEntry) list"
  cache_max_size :: nat
  cache_cleanup_interval :: nat
  stats :: "AclStatKey \<rightharpoonup> u64"

definition AclProcessor_new_with_shared_state ::
  "acl_env \<Rightarrow> Acl \<Rightarrow> (string \<times> ConnTrackEntry) list option \<Rightarrow> (RateLimitKey \<rightharpoonup> RateLimitValue) option \<Rightarrow>
     (AclStatKey \<rightharpoonup> u64) option \<Rightarrow> AclProcessor" where
  "AclProcessor_new_with_shared_state env a ct rl st =
     (let (inb, outb, fwd) = build_rules env a; (di, dout, df) = build_default_actions a in
      \<lparr>inbound_rules = inb, outbound_rules = outb, forward_rules = fwd,
       default_inbound_action = di, default_outbound_action = dout, default_forward_action = df,
       rule_stat_items = (\<lambda>_. (0, 0)),
       conn_track = (case ct of Some t \<Rightarrow> t | None \<Rightarrow> []),
       rate_limiters = (case rl of Some t \<Rightarrow> t | None \<Rightarrow> Map.empty),
       rule_cache = [], cache_max_size = 1024, cache_cleanup_interval = 20000,
       stats = (case st of Some t \<Rightarrow> t | None \<Rightarrow> Map.empty)\<rparr>)"

definition AclProcessor_new :: "acl_env \<Rightarrow> Acl \<Rightarrow> AclProcessor" where
  "AclProcessor_new env a = AclProcessor_new_with_shared_state env a None None None"

definition get_shared_state ::
  "AclProcessor \<Rightarrow> (string \<times> ConnTrackEntry) list \<times> (RateLimitKey \<rightharpoonup> RateLimitValue) \<times> (AclStatKey \<rightharpoonup> u64)" where
  "get_shared_state p = (conn_track p, rate_limiters p, stats p)"

section \<open>Matching\<close>

definition in_ranges :: "(u16 \<times> u16) list \<Rightarrow> u16 \<Rightarrow> bool" where
  "in_ranges rs x = list_ex (\<lambda>(a, b). x \<ge> a \<and> x \<le> b) rs"

definition rule_matches :: "acl_env \<Rightarrow> FastLookupRule \<Rightarrow> PacketInfo \<Rightarrow> bool" where
  "rule_matches env r p =
     (if protocol r \<noteq> AnyProto \<and> Protocol_i32 (protocol r) \<noteq> Protocol_i32 (pk_protocol p) then False
      else if src_ip_ranges r \<noteq> [] \<and> \<not> list_ex (\<lambda>c. cidr_contains env c (src_ip p)) (src_ip_ranges r) then False
      else if dst_ip_ranges r \<noteq> [] \<and> \<not> list_ex (\<lambda>c. cidr_contains env c (dst_ip p)) (dst_ip_ranges r) then False
      else if (case src_port p of Some x \<Rightarrow> src_port_ranges r \<noteq> [] \<and> \<not> in_ranges (src_port_ranges r) x | None \<Rightarrow> False)
      then False
      else if (case dst_port p of Some x \<Rightarrow> dst_port_ranges r \<noteq> [] \<and> \<not> in_ranges (dst_port_ranges r) x | None \<Rightarrow> False)
      then False
      else if source_groups r \<noteq> {} \<and> \<not> list_ex (\<lambda>g. g \<in> source_groups r) (src_groups p) then False
      else if destination_groups r \<noteq> {} \<and> \<not> list_ex (\<lambda>g. g \<in> destination_groups r) (dst_groups p) then False
      else True)"

section \<open>State changes\<close>

definition increment_stat :: "AclStatKey \<Rightarrow> AclProcessor \<Rightarrow> AclProcessor" where
  "increment_stat k p =
     p\<lparr>stats := (stats p)(k \<mapsto> (case stats p k of Some n \<Rightarrow> n + 1 | None \<Rightarrow> 1))\<rparr>"

definition bump :: "nat \<Rightarrow> stats_id \<Rightarrow> (stats_id \<Rightarrow> u64 \<times> u64) \<Rightarrow> stats_id \<Rightarrow> u64 \<times> u64" where
  "bump sz i f = f(i := (fst (f i) + 1, snd (f i) + of_nat sz))"

definition inc_cache_entry_stats :: "AclCacheEntry \<Rightarrow> PacketInfo \<Rightarrow> AclProcessor \<Rightarrow> AclProcessor" where
  "inc_cache_entry_stats e pk p =
     p\<lparr>rule_stat_items := fold (bump (packet_size pk)) (rule_stats_vec e) (rule_stat_items p)\<rparr>"

definition mk_conn_track_key :: "acl_env \<Rightarrow> PacketInfo \<Rightarrow> string" where
  "mk_conn_track_key env p =
     show_ip env (src_ip p) @ '':'' @ show_nat (unat (port_or_0 (src_port p))) @ ''->'' @
     show_ip env (dst_ip p) @ '':'' @ show_nat (unat (port_or_0 (dst_port p)))"

definition check_connection_state :: "u64 \<Rightarrow> string \<Rightarrow> PacketInfo \<Rightarrow> AclProcessor \<Rightarrow> AclProcessor" where
  "check_connection_state wall key pk p =
     p\<lparr>conn_track := AList.update key
        (case map_of (conn_track p) key of
           Some x \<Rightarrow> x\<lparr>last_seen := wall, conn_packet_count := conn_packet_count x + 1,
                      conn_byte_count := conn_byte_count x + of_nat (packet_size pk),
                      conn_state := ConnEstablished\<rparr>
         | None \<Rightarrow>
             \<lparr>src_addr = (src_ip pk, port_or_0 (src_port pk)), dst_addr = (dst_ip pk, port_or_0 (dst_port pk)),
              conn_protocol = pk_protocol pk, conn_state = ConnNew, created_at = wall, last_seen = wall,
              conn_packet_count = 1, conn_byte_count = of_nat (packet_size pk)\<rparr>) (conn_track p)\<rparr>"

definition check_rate_limit ::
  "nat \<Rightarrow> RateLimitKey \<Rightarrow> u32 \<Rightarrow> u32 \<Rightarrow> bool \<Rightarrow> AclProcessor \<Rightarrow> (bool \<times> AclProcessor) may_panic" where
  "check_rate_limit now key rate burst allow_create p =
     (if rate = 0 then Inr (True, p)
      else
        rbind (case rate_limiters p key of
                 Some v \<Rightarrow> Inr v
               | None \<Rightarrow>
                   if \<not> allow_create then Inl ExplicitPanic
                   else Inr \<lparr>token_bucket = TokenBucket_new (ucast burst) (ucast rate) 10, last_update = now\<rparr>)
          (\<lambda>v. let (ok, b) = try_consume 1 (token_bucket v) in
               Inr (ok, p\<lparr>rate_limiters := (rate_limiters p)(key \<mapsto> \<lparr>token_bucket = b, last_update = now\<rparr>)\<rparr>)))"

text \<open>
  \<open>cleanup_cache\<close>: entries not used in the last 15 seconds go; if more than \<open>max_size\<close> are left, the
  least recently used go, down to four fifths of it. Before 15 seconds have passed on the
  monotonic clock the subtraction fails and the current instant is the limit.
\<close>

definition cleanup_cache ::
  "nat \<Rightarrow> nat \<Rightarrow> (AclCacheKey \<times> AclCacheEntry) list \<Rightarrow> (AclCacheKey \<times> AclCacheEntry) list" where
  "cleanup_cache now max_size cache =
     (let expired_timepoint = (if now \<ge> 15000 then now - 15000 else now);
          cache = filter (\<lambda>(k, e). last_access e > expired_timepoint) cache;
          current_size = length cache in
      if current_size \<le> max_size then cache
      else
        let entries = sort_key snd (map (\<lambda>(k, e). (k, last_access e)) cache);
            to_remove = current_size - max_size + max_size div 5;
            gone = map fst (take to_remove entries)
        in filter (\<lambda>(k, e). k \<notin> set gone) cache)"

definition cache_result :: "nat \<Rightarrow> AclCacheKey \<Rightarrow> AclCacheEntry \<Rightarrow> AclProcessor \<Rightarrow> AclProcessor" where
  "cache_result now key e p =
     (let cache = AList.update key e (rule_cache p) in
      p\<lparr>rule_cache := (if length cache > cache_max_size p * 2 then cleanup_cache now (cache_max_size p) cache else cache)\<rparr>)"

definition cleanup_expired_connections ::
  "bool \<Rightarrow> u64 \<Rightarrow> u64 \<Rightarrow> (string \<times> ConnTrackEntry) list \<Rightarrow> (string \<times> ConnTrackEntry) list may_panic" where
  "cleanup_expired_connections chk current_time timeout_secs tbl =
     (if chk \<and> list_ex (\<lambda>(k, e). current_time < last_seen e) tbl then Inl ArithmeticOverflow
      else Inr (filter (\<lambda>(k, e). \<not> current_time - last_seen e > timeout_secs) tbl))"

text \<open>The two periodic tasks: one round of each.\<close>

definition cache_cleanup_tick :: "nat \<Rightarrow> nat \<Rightarrow> AclProcessor \<Rightarrow> AclProcessor" where
  "cache_cleanup_tick t1 t2 p =
     p\<lparr>rule_cache := cleanup_cache t1 (cache_max_size p) (rule_cache p),
       rate_limiters := (\<lambda>k. case rate_limiters p k of
          Some v \<Rightarrow> if t2 - last_update v < cache_cleanup_interval p then Some v else None | None \<Rightarrow> None)\<rparr>"

definition conn_cleanup_tick :: "bool \<Rightarrow> u64 \<Rightarrow> AclProcessor \<Rightarrow> AclProcessor may_panic" where
  "conn_cleanup_tick chk wall p =
     rbind (cleanup_expired_connections chk wall 60 (conn_track p)) (\<lambda>t. Inr (p\<lparr>conn_track := t\<rparr>))"

text \<open>One round of the background refill of a rule's bucket, \<open>us\<close> microseconds after its creation.\<close>

definition bucket_refill :: "(u64 \<Rightarrow> u64 \<Rightarrow> u64) \<Rightarrow> RateLimitKey \<Rightarrow> u64 \<Rightarrow> AclProcessor \<Rightarrow> AclProcessor" where
  "bucket_refill tokens_for k us p =
     (case rate_limiters p k of
        None \<Rightarrow> p
      | Some v \<Rightarrow> p\<lparr>rate_limiters := (rate_limiters p)(k \<mapsto> v\<lparr>token_bucket := refill tokens_for us (token_bucket v)\<rparr>)\<rparr>)"

section \<open>Processing a packet\<close>

definition rate_limit_drop :: "RuleId \<Rightarrow> AclResult" where
  "rate_limit_drop rid =
     \<lparr>res_action = Drop, matched_rule = Some rid, should_log = False, log_context = Some RateLimitDrop\<rparr>"

fun check_rate_limit_keys :: "nat \<Rightarrow> RateLimitKey list \<Rightarrow> AclProcessor \<Rightarrow> (bool \<times> AclProcessor) may_panic" where
  "check_rate_limit_keys now [] p = Inr (True, p)"
| "check_rate_limit_keys now (k # ks) p =
     rbind (check_rate_limit now k 1 1 False p) (\<lambda>(ok, p).
       if ok then check_rate_limit_keys now ks p else Inr (False, p))"

definition process_packet_with_cache_entry ::
  "nat \<Rightarrow> u64 \<Rightarrow> PacketInfo \<Rightarrow> AclCacheEntry \<Rightarrow> AclProcessor \<Rightarrow> (AclResult \<times> AclProcessor) may_panic" where
  "process_packet_with_cache_entry now wall pk e p =
     rbind (check_rate_limit_keys now (rate_limit_keys e) p) (\<lambda>(ok, p).
       if \<not> ok then Inr (rate_limit_drop (entry_matched_rule e), p)
       else
         let p = (case entry_conn_track_key e of Some k \<Rightarrow> check_connection_state wall k pk p | None \<Rightarrow> p);
             p = inc_cache_entry_stats e pk p
         in rbind (unwrap (acl_result e)) (\<lambda>r. Inr (r, p)))"

definition rules_for :: "AclProcessor \<Rightarrow> ChainType \<Rightarrow> FastLookupRule list option" where
  "rules_for p ct =
     (case ct of Inbound \<Rightarrow> Some (inbound_rules p) | Outbound \<Rightarrow> Some (outbound_rules p)
      | Forward \<Rightarrow> Some (forward_rules p) | UnspecifiedChain \<Rightarrow> None)"

definition default_action_for :: "AclProcessor \<Rightarrow> ChainType \<Rightarrow> Action" where
  "default_action_for p ct =
     (case ct of Inbound \<Rightarrow> default_inbound_action p | Outbound \<Rightarrow> default_outbound_action p
      | Forward \<Rightarrow> default_forward_action p | UnspecifiedChain \<Rightarrow> Allow)"

definition rule_result :: "FastLookupRule \<Rightarrow> PacketInfo \<Rightarrow> AclResult" where
  "rule_result r pk =
     (if stateful r \<and> action r = Allow
      then \<lparr>res_action = Allow, matched_rule = Some (RuleStateful (priority r)), should_log = False,
            log_context = Some (StatefulMatch (src_ip pk) (dst_ip pk))\<rparr>
      else \<lparr>res_action = action r, matched_rule = Some (RulePriority (priority r)), should_log = False,
            log_context = Some (RuleMatch (src_ip pk) (dst_ip pk) (action r))\<rparr>)"

text \<open>The entry that a matching rule puts into the cache: a rate-limited rule's counters are in it twice.\<close>

definition rule_entry :: "acl_env \<Rightarrow> nat \<Rightarrow> ChainType \<Rightarrow> FastLookupRule \<Rightarrow> PacketInfo \<Rightarrow> AclCacheEntry" where
  "rule_entry env now ct r pk =
     \<lparr>entry_action = Allow,
      entry_matched_rule = (if stateful r \<and> action r = Allow then RuleStateful (priority r) else RulePriority (priority r)),
      last_access = now,
      entry_conn_track_key = (if stateful r \<and> action r = Allow then Some (mk_conn_track_key env pk) else None),
      rate_limit_keys = (if rate_limit r > 0 then [(ct, priority r)] else []),
      entry_chain_type = ct, acl_result = Some (rule_result r pk),
      rule_stats_vec = (if rate_limit r > 0 then [rule_stats r] else []) @ [rule_stats r]\<rparr>"

definition default_result :: "Action \<Rightarrow> AclResult" where
  "default_result a =
     \<lparr>res_action = a, matched_rule = Some RuleDefault, should_log = False,
      log_context = Some (if a = Drop then DefaultDrop else DefaultAllow)\<rparr>"

definition default_entry :: "nat \<Rightarrow> ChainType \<Rightarrow> Action \<Rightarrow> AclCacheEntry" where
  "default_entry now ct a =
     \<lparr>entry_action = Allow, entry_matched_rule = RuleDefault, last_access = now, entry_conn_track_key = None, rate_limit_keys = [],
      entry_chain_type = ct, acl_result = Some (default_result a), rule_stats_vec = [DefaultStats]\<rparr>"

definition unsupported_result :: AclResult where
  "unsupported_result =
     \<lparr>res_action = Drop, matched_rule = Some RuleDefault, should_log = False, log_context = Some UnsupportedChainType\<rparr>"

fun process_rules ::
  "acl_env \<Rightarrow> nat \<Rightarrow> u64 \<Rightarrow> PacketInfo \<Rightarrow> ChainType \<Rightarrow> FastLookupRule list \<Rightarrow> AclProcessor \<Rightarrow>
     (AclResult \<times> AclProcessor) may_panic" where
  "process_rules env now wall pk ct [] p =
     (let a = default_action_for p ct;
          p = increment_stat (if a = Drop then DefaultDrops else DefaultAllows) p;
          e = default_entry now ct a;
          p = inc_cache_entry_stats e pk p;
          p = cache_result now (AclCacheKey_from_packet_info pk ct) e p
      in Inr (default_result a, p))"
| "process_rules env now wall pk ct (r # rs) p =
     (if \<not> enabled r \<or> \<not> rule_matches env r pk then process_rules env now wall pk ct rs p
      else
        rbind (if rate_limit r > 0
               then check_rate_limit now (ct, priority r) (rate_limit r) (burst_limit r) True p
               else Inr (True, p))
          (\<lambda>(ok, p).
             if \<not> ok then Inr (rate_limit_drop (RulePriority (priority r)), p)
             else
               let p = (if stateful r \<and> action r = Allow
                        then check_connection_state wall (mk_conn_track_key env pk) pk p else p);
                   e = rule_entry env now ct r pk;
                   p = increment_stat RuleMatches p;
                   p = inc_cache_entry_stats e pk p;
                   p = cache_result now (AclCacheKey_from_packet_info pk ct) e p
               in Inr (rule_result r pk, p)))"

definition process_packet ::
  "acl_env \<Rightarrow> nat \<Rightarrow> u64 \<Rightarrow> PacketInfo \<Rightarrow> ChainType \<Rightarrow> AclProcessor \<Rightarrow> (AclResult \<times> AclProcessor) may_panic" where
  "process_packet env now wall pk ct p =
     (let key = AclCacheKey_from_packet_info pk ct in
      case map_of (rule_cache p) key of
        Some cached \<Rightarrow>
          let cached = cached\<lparr>last_access := now\<rparr>;
              p = p\<lparr>rule_cache := AList.update key cached (rule_cache p)\<rparr>;
              p = increment_stat CacheHits p
          in process_packet_with_cache_entry now wall pk cached p
      | None \<Rightarrow> (case rules_for p ct of
          None \<Rightarrow> Inr (unsupported_result, p)
        | Some rules \<Rightarrow> process_rules env now wall pk ct rules p))"

definition get_rules_stats :: "AclProcessor \<Rightarrow> (Rule \<times> u64 \<times> u64) list" where
  "get_rules_stats p =
     map (\<lambda>r. (stats_rule r, rule_stat_items p (rule_stats r)))
       (inbound_rules p @ outbound_rules p @ forward_rules p)"

definition get_stats :: "AclProcessor \<Rightarrow> AclStatKey \<rightharpoonup> u64" where
  "get_stats p = (stats p)(CacheSize \<mapsto> of_nat (length (rule_cache p)), CacheMaxSize \<mapsto> of_nat (cache_max_size p))"

section \<open>The decision without cache\<close>

definition matching_rule :: "acl_env \<Rightarrow> FastLookupRule list \<Rightarrow> PacketInfo \<Rightarrow> FastLookupRule option" where
  "matching_rule env rs pk = List.find (\<lambda>r. enabled r \<and> rule_matches env r pk) rs"

definition decide :: "acl_env \<Rightarrow> AclProcessor \<Rightarrow> ChainType \<Rightarrow> PacketInfo \<Rightarrow> AclResult" where
  "decide env p ct pk =
     (case rules_for p ct of
        None \<Rightarrow> unsupported_result
      | Some rs \<Rightarrow> (case matching_rule env rs pk of
          Some r \<Rightarrow> rule_result r pk | None \<Rightarrow> default_result (default_action_for p ct)))"

text \<open>TCP and UDP packets have ports, others have none: so are the packets the filter extracts.\<close>

definition wf_packet_info :: "PacketInfo \<Rightarrow> bool" where
  "wf_packet_info pk \<longleftrightarrow>
     (src_port pk \<noteq> None \<longleftrightarrow> pk_protocol pk \<in> {Tcp, Udp}) \<and> (dst_port pk \<noteq> None \<longleftrightarrow> pk_protocol pk \<in> {Tcp, Udp})"

lemma cache_key_determines:
  assumes "wf_packet_info pk" and "wf_packet_info pk'"
    and "AclCacheKey_from_packet_info pk ct = AclCacheKey_from_packet_info pk' ct'"
  shows "ct = ct'" and "pk\<lparr>packet_size := 0\<rparr> = pk'\<lparr>packet_size := 0\<rparr>"
proof -
  from assms(3) have eqs: "ct = ct'" "pk_protocol pk = pk_protocol pk'" "src_ip pk = src_ip pk'" "dst_ip pk = dst_ip pk'"
    "port_or_0 (src_port pk) = port_or_0 (src_port pk')" "port_or_0 (dst_port pk) = port_or_0 (dst_port pk')"
    "src_groups pk = src_groups pk'" "dst_groups pk = dst_groups pk'"
    by (simp_all add: AclCacheKey_from_packet_info_def)
  then show "ct = ct'" by simp
  have "src_port pk = src_port pk'" "dst_port pk = dst_port pk'"
    using assms(1,2) eqs by (auto simp: wf_packet_info_def port_or_0_def split: option.splits)
  then show "pk\<lparr>packet_size := 0\<rparr> = pk'\<lparr>packet_size := 0\<rparr>"
    using eqs by (intro PacketInfo.equality) simp_all
qed

definition expected_entry :: "acl_env \<Rightarrow> AclProcessor \<Rightarrow> nat \<Rightarrow> ChainType \<Rightarrow> PacketInfo \<Rightarrow> AclCacheEntry" where
  "expected_entry env p now ct pk =
     (case Option.bind (rules_for p ct) (\<lambda>rs. matching_rule env rs pk) of
        Some r \<Rightarrow> rule_entry env now ct r pk
      | None \<Rightarrow> default_entry now ct (default_action_for p ct))"

lemma rule_matches_size: "rule_matches env r (pk\<lparr>packet_size := n\<rparr>) = rule_matches env r pk"
  by (simp add: rule_matches_def)

lemma rule_entry_size: "rule_entry env now ct r (pk\<lparr>packet_size := n\<rparr>) = rule_entry env now ct r pk"
proof -
  have "mk_conn_track_key env (pk\<lparr>packet_size := n\<rparr>) = mk_conn_track_key env pk"
    and "rule_result r (pk\<lparr>packet_size := n\<rparr>) = rule_result r pk"
    by (simp_all add: mk_conn_track_key_def rule_result_def)
  then show ?thesis
    unfolding rule_entry_def by simp
qed

lemma expected_entry_size:
  "expected_entry env p now ct (pk\<lparr>packet_size := n\<rparr>) = expected_entry env p now ct pk"
  by (simp add: expected_entry_def matching_rule_def rule_matches_size rule_entry_size split: option.split)

lemma expected_entry_key:
  assumes "wf_packet_info pk" and "wf_packet_info pk'"
    and "AclCacheKey_from_packet_info pk ct = AclCacheKey_from_packet_info pk' ct'"
  shows "expected_entry env p now ct pk = expected_entry env p now ct' pk'"
  using cache_key_determines [OF assms] expected_entry_size [where n = 0] by metis

section \<open>Invariant\<close>

definition static :: "AclProcessor \<Rightarrow> FastLookupRule list \<times> FastLookupRule list \<times> FastLookupRule list \<times>
    Action \<times> Action \<times> Action \<times> nat \<times> nat" where
  "static p = (inbound_rules p, outbound_rules p, forward_rules p, default_inbound_action p,
     default_outbound_action p, default_forward_action p, cache_max_size p, cache_cleanup_interval p)"

text \<open>Every cached entry is the one the rules give, for every packet that would hit it.\<close>

definition cache_sound :: "acl_env \<Rightarrow> AclProcessor \<Rightarrow> (AclCacheKey \<times> AclCacheEntry) list \<Rightarrow> bool" where
  "cache_sound env p cache \<longleftrightarrow> distinct (map fst cache) \<and>
     (\<forall>k e. map_of cache k = Some e \<longrightarrow> (\<forall>pk ct. wf_packet_info pk \<longrightarrow> AclCacheKey_from_packet_info pk ct = k \<longrightarrow>
        rules_for p ct \<noteq> None \<and> e = expected_entry env p (last_access e) ct pk))"

text \<open>Every cached entry's bucket exists and was used no earlier than the entry.\<close>

definition buckets_live ::
  "(RateLimitKey \<rightharpoonup> RateLimitValue) \<Rightarrow> (AclCacheKey \<times> AclCacheEntry) list \<Rightarrow> bool" where
  "buckets_live lims cache \<longleftrightarrow>
     (\<forall>k e. map_of cache k = Some e \<longrightarrow> (\<forall>rk\<in>set (rate_limit_keys e).
        \<exists>v. lims rk = Some v \<and> last_access e \<le> last_update v))"

definition updates_before :: "nat \<Rightarrow> (RateLimitKey \<rightharpoonup> RateLimitValue) \<Rightarrow> bool" where
  "updates_before now lims \<longleftrightarrow> (\<forall>rk v. lims rk = Some v \<longrightarrow> last_update v \<le> now)"

definition acl_inv :: "acl_env \<Rightarrow> nat \<Rightarrow> AclProcessor \<Rightarrow> bool" where
  "acl_inv env now p \<longleftrightarrow> cache_sound env p (rule_cache p) \<and>
     buckets_live (rate_limiters p) (rule_cache p) \<and> updates_before now (rate_limiters p) \<and>
     cache_cleanup_interval p = 20000"

lemma static_eqD:
  assumes "static p' = static p"
  shows "rules_for p' ct = rules_for p ct" and "default_action_for p' ct = default_action_for p ct"
    and "expected_entry env p' now ct pk = expected_entry env p now ct pk"
    and "cache_sound env p' cache = cache_sound env p cache"
    and "decide env p' ct pk = decide env p ct pk"
    and "cache_cleanup_interval p' = cache_cleanup_interval p"
proof -
  show r: "rules_for p' ct = rules_for p ct" and d: "default_action_for p' ct = default_action_for p ct" for ct
    using assms by (simp_all add: static_def rules_for_def default_action_for_def split: ChainType.splits)
  then show e: "expected_entry env p' now ct pk = expected_entry env p now ct pk" for now ct pk
    by (simp add: expected_entry_def split: option.split)
  show "cache_sound env p' cache = cache_sound env p cache"
    by (simp add: cache_sound_def r e)
  show "decide env p' ct pk = decide env p ct pk"
    by (simp add: decide_def r d split: option.split)
  show "cache_cleanup_interval p' = cache_cleanup_interval p"
    using assms by (simp add: static_def)
qed

lemma cleanup_cache_kept:
  assumes "distinct (map fst cache)"
  shows "distinct (map fst (cleanup_cache now m cache))"
    and "map_of (cleanup_cache now m cache) k = Some e \<Longrightarrow>
         map_of cache k = Some e \<and> last_access e > (if now \<ge> 15000 then now - 15000 else now)"
proof -
  have filt: "distinct (map fst (filter P cache))" for P
    using assms by (simp add: distinct_map_filter)
  show "distinct (map fst (cleanup_cache now m cache))"
    using filt by (simp add: cleanup_cache_def Let_def filter_filter)
  assume "map_of (cleanup_cache now m cache) k = Some e"
  then have "(k, e) \<in> set (cleanup_cache now m cache)"
    by (rule map_of_SomeD)
  then have "(k, e) \<in> set cache" and "last_access e > (if now \<ge> 15000 then now - 15000 else now)"
    by (auto simp: cleanup_cache_def Let_def split: if_splits)
  then show "map_of cache k = Some e \<and> last_access e > (if now \<ge> 15000 then now - 15000 else now)"
    using assms by simp
qed

lemma cache_sound_cleanup:
  assumes "cache_sound env p cache" and "buckets_live lims cache"
  shows "cache_sound env p (cleanup_cache now m cache)" and "buckets_live lims (cleanup_cache now m cache)"
proof -
  have d: "distinct (map fst cache)"
    using assms(1) by (simp add: cache_sound_def)
  note kept = cleanup_cache_kept [OF d, of now m]
  show "cache_sound env p (cleanup_cache now m cache)"
    using assms(1) kept unfolding cache_sound_def by blast
  show "buckets_live lims (cleanup_cache now m cache)"
    using assms(2) kept(2) unfolding buckets_live_def by blast
qed

lemma cache_sound_update:
  assumes snd: "cache_sound env p cache" and wf: "wf_packet_info pk" and rules: "rules_for p ct \<noteq> None"
    and e: "e = expected_entry env p now ct pk"
  shows "cache_sound env p (AList.update (AclCacheKey_from_packet_info pk ct) e cache)"
proof -
  have la: "last_access e = now"
    by (simp add: e expected_entry_def rule_entry_def default_entry_def split: option.split)
  have "rules_for p ct' \<noteq> None \<and> e = expected_entry env p (last_access e) ct' pk'"
    if "wf_packet_info pk'" "AclCacheKey_from_packet_info pk' ct' = AclCacheKey_from_packet_info pk ct" for pk' ct'
    using cache_key_determines(1) [OF that(1) wf that(2)] expected_entry_key [OF that(1) wf that(2)] rules e la by simp
  then show ?thesis
    using snd unfolding cache_sound_def by (auto simp: update_conv' distinct_update)
qed

lemma buckets_live_update:
  assumes "buckets_live lims cache"
    and "\<And>rk. rk \<in> set (rate_limit_keys e) \<Longrightarrow> \<exists>v. lims rk = Some v \<and> last_access e \<le> last_update v"
  shows "buckets_live lims (AList.update k e cache)"
  using assms unfolding buckets_live_def by (auto simp: update_conv')

lemma buckets_live_touch:
  assumes "buckets_live lims cache" and "updates_before t lims" and "t \<le> now" and "last_update v = now"
  shows "buckets_live (lims(k \<mapsto> v)) cache" and "updates_before now (lims(k \<mapsto> v))"
proof -
  have "\<exists>v'. (lims(k \<mapsto> v)) rk = Some v' \<and> n \<le> last_update v'" if "lims rk = Some v0" "n \<le> last_update v0" for rk n v0
    using that assms(2-4) unfolding updates_before_def by (metis fun_upd_apply le_trans)
  then show "buckets_live (lims(k \<mapsto> v)) cache"
    using assms(1) unfolding buckets_live_def by blast
  show "updates_before now (lims(k \<mapsto> v))"
    using assms(2-4) unfolding updates_before_def by (auto intro: le_trans)
qed

lemma updates_before_mono: "updates_before t lims \<Longrightarrow> t \<le> now \<Longrightarrow> updates_before now lims"
  unfolding updates_before_def by (meson le_trans)

text \<open>A check of a rate limit touches the bucket of its key and nothing else.\<close>

lemma check_rate_limit_effect:
  assumes "check_rate_limit now k rate burst create p = Inr (ok, p')" and "rate \<noteq> 0"
  obtains v where "p' = p\<lparr>rate_limiters := (rate_limiters p)(k \<mapsto> v)\<rparr>" and "last_update v = now"
  using assms by (auto simp: check_rate_limit_def rbind_eq_Inr_iff Let_def case_prod_beta)

lemma check_rate_limit_total:
  assumes "create \<or> rate_limiters p k \<noteq> None"
  shows "\<exists>ok p'. check_rate_limit now k rate burst create p = Inr (ok, p')"
  using assms by (auto simp: check_rate_limit_def Let_def case_prod_beta split: option.split)

lemma static_updates [simp]:
  "static (p\<lparr>rate_limiters := l\<rparr>) = static p" "static (p\<lparr>rule_cache := c\<rparr>) = static p"
  "static (increment_stat k p) = static p" "static (inc_cache_entry_stats e pk p) = static p"
  "static (check_connection_state wall key pk p) = static p" "static (cache_result now key' e p) = static p"
  by (simp_all add: static_def increment_stat_def inc_cache_entry_stats_def check_connection_state_def
      cache_result_def Let_def)

lemma tables_updates [simp]:
  "rule_cache (increment_stat k p) = rule_cache p" "rate_limiters (increment_stat k p) = rate_limiters p"
  "rule_cache (inc_cache_entry_stats e pk p) = rule_cache p"
  "rate_limiters (inc_cache_entry_stats e pk p) = rate_limiters p"
  "rule_cache (check_connection_state wall key pk p) = rule_cache p"
  "rate_limiters (check_connection_state wall key pk p) = rate_limiters p"
  "rate_limiters (cache_result now key' e p) = rate_limiters p"
  "cache_max_size (increment_stat k p) = cache_max_size p"
  by (simp_all add: increment_stat_def inc_cache_entry_stats_def check_connection_state_def cache_result_def Let_def)

lemma acl_inv_frame:
  assumes "acl_inv env t p" and "static p' = static p" and "rule_cache p' = rule_cache p"
    and "rate_limiters p' = rate_limiters p" and "t \<le> now"
  shows "acl_inv env now p'"
  using assms static_eqD [OF assms(2)] updates_before_mono unfolding acl_inv_def by metis

lemma acl_inv_cache_result:
  assumes inv: "acl_inv env now p" and wf: "wf_packet_info pk" and rules: "rules_for p ct \<noteq> None"
    and e: "e = expected_entry env p now ct pk"
    and live: "\<And>rk. rk \<in> set (rate_limit_keys e) \<Longrightarrow> \<exists>v. rate_limiters p rk = Some v \<and> last_update v = now"
  shows "acl_inv env now (cache_result now (AclCacheKey_from_packet_info pk ct) e p)" (is "acl_inv _ _ ?p'")
proof -
  let ?c = "AList.update (AclCacheKey_from_packet_info pk ct) e (rule_cache p)"
  have la: "last_access e = now"
    by (simp add: e expected_entry_def rule_entry_def default_entry_def split: option.split)
  have s: "cache_sound env p ?c"
    using cache_sound_update [OF _ wf rules e] inv by (simp add: acl_inv_def)
  have b: "buckets_live (rate_limiters p) ?c"
  proof (rule buckets_live_update)
    show "buckets_live (rate_limiters p) (rule_cache p)"
      using inv by (simp add: acl_inv_def)
    show "\<exists>v. rate_limiters p rk = Some v \<and> last_access e \<le> last_update v" if "rk \<in> set (rate_limit_keys e)" for rk
      using live [OF that] la by auto
  qed
  have "cache_sound env p (rule_cache ?p') \<and> buckets_live (rate_limiters p) (rule_cache ?p')"
    using s b cache_sound_cleanup [OF s b] by (simp add: cache_result_def Let_def)
  moreover have "cache_sound env ?p' (rule_cache ?p') = cache_sound env p (rule_cache ?p')"
    and "cache_cleanup_interval ?p' = cache_cleanup_interval p"
    by (rule static_eqD; simp)+
  ultimately show ?thesis
    using inv by (simp add: acl_inv_def)
qed

lemma process_rules_match:
  "process_rules env now wall pk ct rs p =
     (case matching_rule env rs pk of
        None \<Rightarrow> process_rules env now wall pk ct [] p
      | Some r \<Rightarrow> process_rules env now wall pk ct [r] p)"
  by (induction rs) (auto simp: matching_rule_def)

lemma matching_rule_Some:
  "matching_rule env rs pk = Some r \<Longrightarrow> r \<in> set rs \<and> enabled r \<and> rule_matches env r pk"
  by (auto simp: matching_rule_def find_Some_iff in_set_conv_nth)

text \<open>What a packet may get: the decision of the rules, or a drop by the limit of the matching rule.\<close>

definition limited_by_rule :: "acl_env \<Rightarrow> AclProcessor \<Rightarrow> ChainType \<Rightarrow> PacketInfo \<Rightarrow> AclResult \<Rightarrow> bool" where
  "limited_by_rule env p ct pk r \<longleftrightarrow>
     (\<exists>rs rl. rules_for p ct = Some rs \<and> matching_rule env rs pk = Some rl \<and> rate_limit rl > 0 \<and>
        res_action r = Drop \<and> log_context r = Some RateLimitDrop)"

lemma touch_inv:
  assumes inv: "acl_inv env t p" and "t \<le> now" and "last_update v = now"
  shows "acl_inv env now (p\<lparr>rate_limiters := (rate_limiters p)(k \<mapsto> v)\<rparr>)" (is "acl_inv _ _ ?p'")
proof -
  note st = static_eqD [of ?p' p, simplified]
  show ?thesis
    using inv buckets_live_touch [of "rate_limiters p" "rule_cache p" t now v k] assms(2,3)
    by (simp add: acl_inv_def st)
qed

lemma rule_hit:
  assumes inv: "acl_inv env t p" and t: "t \<le> now" and wf: "wf_packet_info pk"
    and rules: "rules_for p ct = Some rs" and m: "matching_rule env rs pk = Some r"
  shows "\<exists>res p'. process_rules env now wall pk ct [r] p = Inr (res, p') \<and> acl_inv env now p' \<and> static p' = static p \<and>
     (res = decide env p ct pk \<or> limited_by_rule env p ct pk res)"
proof -
  have en: "enabled r" "rule_matches env r pk"
    using matching_rule_Some [OF m] by simp_all
  obtain ok p1 where lim: "(if rate_limit r > 0
      then check_rate_limit now (ct, priority r) (rate_limit r) (burst_limit r) True p else Inr (True, p)) = Inr (ok, p1)"
    using check_rate_limit_total [of True p "(ct, priority r)" now "rate_limit r" "burst_limit r"]
    by (cases "rate_limit r > 0") auto
  have p1: "acl_inv env now p1 \<and> static p1 = static p \<and>
      (rate_limit r > 0 \<longrightarrow> (\<exists>v. rate_limiters p1 (ct, priority r) = Some v \<and> last_update v = now)) \<and>
      (rate_limit r = 0 \<longrightarrow> ok)"
  proof (cases "rate_limit r > 0")
    case True
    with lim have "check_rate_limit now (ct, priority r) (rate_limit r) (burst_limit r) True p = Inr (ok, p1)"
      by simp
    moreover have "rate_limit r \<noteq> 0"
      using True by auto
    ultimately obtain v where "p1 = p\<lparr>rate_limiters := (rate_limiters p)((ct, priority r) \<mapsto> v)\<rparr>" "last_update v = now"
      by (rule check_rate_limit_effect)
    then show ?thesis
      using touch_inv [OF inv t] True by auto
  next
    case False
    with lim show ?thesis
      using acl_inv_frame [OF inv _ _ _ t, of p] by simp
  qed
  show ?thesis
  proof (cases ok)
    case False
    then have "process_rules env now wall pk ct [r] p = Inr (rate_limit_drop (RulePriority (priority r)), p1)"
      using en lim by simp
    moreover have "rate_limit r > 0"
      using False p1 by (auto simp: word_gt_0)
    then have "limited_by_rule env p ct pk (rate_limit_drop (RulePriority (priority r)))"
      using rules m by (simp add: limited_by_rule_def rate_limit_drop_def)
    ultimately show ?thesis
      using p1 by blast
  next
    case True
    let ?e = "rule_entry env now ct r pk"
    define p2 where "p2 = inc_cache_entry_stats ?e pk (increment_stat RuleMatches
        (if stateful r \<and> action r = Allow
         then check_connection_state wall (mk_conn_track_key env pk) pk p1 else p1))"
    have p2: "static p2 = static p1" "rule_cache p2 = rule_cache p1" "rate_limiters p2 = rate_limiters p1"
      by (simp_all add: p2_def)
    have run: "process_rules env now wall pk ct [r] p =
        Inr (rule_result r pk, cache_result now (AclCacheKey_from_packet_info pk ct) ?e p2)"
      using en lim True by (simp add: Let_def p2_def)
    have st: "static p2 = static p"
      using p2 p1 by simp
    have "?e = expected_entry env p2 now ct pk"
      using rules m by (simp add: static_eqD [OF st] expected_entry_def)
    moreover have "rules_for p2 ct \<noteq> None"
      using rules by (simp add: static_eqD [OF st])
    moreover have "\<exists>v. rate_limiters p2 rk = Some v \<and> last_update v = now" if "rk \<in> set (rate_limit_keys ?e)" for rk
      using that p1 p2 by (auto simp: rule_entry_def split: if_splits)
    ultimately have "acl_inv env now (cache_result now (AclCacheKey_from_packet_info pk ct) ?e p2)"
      using acl_inv_frame [OF _ p2 order_refl, of env now] p1 wf by (intro acl_inv_cache_result) auto
    moreover have "rule_result r pk = decide env p ct pk"
      using rules m by (simp add: decide_def)
    ultimately show ?thesis
      using run st by auto
  qed
qed

lemma default_hit:
  assumes inv: "acl_inv env t p" and t: "t \<le> now" and wf: "wf_packet_info pk"
    and rules: "rules_for p ct = Some rs" and m: "matching_rule env rs pk = None"
  shows "\<exists>res p'. process_rules env now wall pk ct [] p = Inr (res, p') \<and> acl_inv env now p' \<and> static p' = static p \<and>
     res = decide env p ct pk"
proof -
  let ?a = "default_action_for p ct"
  let ?e = "default_entry now ct ?a"
  define p2 where "p2 = inc_cache_entry_stats ?e pk (increment_stat (if ?a = Drop then DefaultDrops else DefaultAllows) p)"
  have p2: "static p2 = static p" "rule_cache p2 = rule_cache p" "rate_limiters p2 = rate_limiters p"
    by (simp_all add: p2_def)
  have "?e = expected_entry env p2 now ct pk"
    using rules m by (simp add: static_eqD [OF p2(1)] expected_entry_def)
  moreover have "rate_limit_keys ?e = []"
    by (simp add: default_entry_def)
  ultimately have "acl_inv env now (cache_result now (AclCacheKey_from_packet_info pk ct) ?e p2)"
    using acl_inv_frame [OF inv p2 t] wf rules static_eqD(1) [OF p2(1)] by (intro acl_inv_cache_result) auto
  moreover have "process_rules env now wall pk ct [] p =
      Inr (default_result ?a, cache_result now (AclCacheKey_from_packet_info pk ct) ?e p2)"
    by (simp add: Let_def p2_def)
  ultimately show ?thesis
    using rules m p2(1) by (auto simp: decide_def)
qed

lemma expected_entry_keys:
  "rate_limit_keys (expected_entry env p now ct pk) = [] \<or>
   (\<exists>rs r. rules_for p ct = Some rs \<and> matching_rule env rs pk = Some r \<and> rate_limit r > 0 \<and>
      rate_limit_keys (expected_entry env p now ct pk) = [(ct, priority r)])"
  by (auto simp: expected_entry_def rule_entry_def default_entry_def Option.bind_eq_Some_conv split: option.split)

lemma expected_entry_result:
  assumes "rules_for p ct \<noteq> None"
  shows "acl_result (expected_entry env p now ct pk) = Some (decide env p ct pk)"
  using assms by (auto simp: expected_entry_def decide_def rule_entry_def default_entry_def split: option.split)

lemma expected_entry_access:
  "(expected_entry env p t ct pk)\<lparr>last_access := now\<rparr> = expected_entry env p now ct pk"
  by (simp add: expected_entry_def rule_entry_def default_entry_def split: option.split)

lemma cache_hit:
  assumes inv: "acl_inv env t p" and t: "t \<le> now" and wf: "wf_packet_info pk"
    and hit: "map_of (rule_cache p) (AclCacheKey_from_packet_info pk ct) = Some e"
  shows "\<exists>res p'. process_packet env now wall pk ct p = Inr (res, p') \<and> acl_inv env now p' \<and> static p' = static p \<and>
     (res = decide env p ct pk \<or> limited_by_rule env p ct pk res)"
proof -
  let ?k = "AclCacheKey_from_packet_info pk ct"
  define e' where "e' = e\<lparr>last_access := now\<rparr>"
  define p1 where "p1 = increment_stat CacheHits (p\<lparr>rule_cache := AList.update ?k e' (rule_cache p)\<rparr>)"
  have run: "process_packet env now wall pk ct p = process_packet_with_cache_entry now wall pk e' p1"
    by (simp add: process_packet_def hit e'_def p1_def Let_def)
  have rules: "rules_for p ct \<noteq> None" and e: "e = expected_entry env p (last_access e) ct pk"
    using inv wf hit unfolding acl_inv_def cache_sound_def by blast+
  have e': "e' = expected_entry env p now ct pk"
    unfolding e'_def using e expected_entry_access by metis
  have live: "\<exists>v. rate_limiters p rk = Some v" if "rk \<in> set (rate_limit_keys e')" for rk
    using inv hit that unfolding acl_inv_def buckets_live_def e'_def by fastforce
  have st1: "static p1 = static p" and tab1: "rate_limiters p1 = rate_limiters p"
      "rule_cache p1 = AList.update ?k e' (rule_cache p)"
    by (simp_all add: p1_def)
  have sound1: "cache_sound env p (AList.update ?k e' (rule_cache p))"
    using cache_sound_update [OF _ wf rules e'] inv by (simp add: acl_inv_def)
  have fin: "acl_inv env now q \<Longrightarrow> static q = static p \<Longrightarrow>
      \<exists>p'. rbind (unwrap (acl_result e')) (\<lambda>r. Inr (r, inc_cache_entry_stats e' pk
        (case entry_conn_track_key e' of Some k \<Rightarrow> check_connection_state wall k pk q | None \<Rightarrow> q))) =
        Inr (decide env p ct pk, p') \<and> acl_inv env now p' \<and> static p' = static p" for q
    using expected_entry_result [OF rules, of env now pk]
    by (auto simp: e' split: option.split intro: acl_inv_frame [of env now q])
  consider (none) "rate_limit_keys e' = []"
    | (limited) rs r where "rules_for p ct = Some rs" "matching_rule env rs pk = Some r" "rate_limit r > 0"
        "rate_limit_keys e' = [(ct, priority r)]"
    using expected_entry_keys [of env p now ct pk] e' by auto
  then show ?thesis
  proof cases
    case none
    have "buckets_live (rate_limiters p) (AList.update ?k e' (rule_cache p))"
      using inv none by (intro buckets_live_update) (auto simp: acl_inv_def)
    then have "acl_inv env now p1"
      using inv t sound1 updates_before_mono st1 static_eqD(4,6) [OF st1] by (auto simp: acl_inv_def tab1)
    with fin [OF _ st1] none run show ?thesis
      by (auto simp: process_packet_with_cache_entry_def Let_def)
  next
    case limited
    obtain v0 where v0: "rate_limiters p (ct, priority r) = Some v0"
      using live limited by auto
    obtain ok p2 where chk: "check_rate_limit now (ct, priority r) 1 1 False p1 = Inr (ok, p2)"
      using check_rate_limit_total [of False p1] v0 tab1 by fastforce
    then obtain v where p2: "p2 = p1\<lparr>rate_limiters := (rate_limiters p1)((ct, priority r) \<mapsto> v)\<rparr>" "last_update v = now"
      by (rule check_rate_limit_effect) simp
    have "buckets_live ((rate_limiters p)((ct, priority r) \<mapsto> v)) (AList.update ?k e' (rule_cache p))"
      using buckets_live_touch(1) [of "rate_limiters p" "rule_cache p" t now v] inv t p2(2) limited(4)
      by (intro buckets_live_update) (auto simp: acl_inv_def e'_def)
    moreover have "updates_before now ((rate_limiters p)((ct, priority r) \<mapsto> v))"
      using buckets_live_touch(2) inv t p2(2) by (auto simp: acl_inv_def)
    moreover have st2: "static p2 = static p"
      using p2 st1 by simp
    ultimately have inv2: "acl_inv env now p2"
      using inv sound1 static_eqD(4,6) [OF st2] by (simp add: acl_inv_def tab1 p2)
    have keys: "check_rate_limit_keys now (rate_limit_keys e') p1 = Inr (ok, p2)"
      using chk limited(4) by simp
    show ?thesis
    proof (cases ok)
      case True
      with fin [OF inv2 st2] keys run show ?thesis
        by (auto simp: process_packet_with_cache_entry_def Let_def)
    next
      case False
      then have "process_packet env now wall pk ct p = Inr (rate_limit_drop (entry_matched_rule e'), p2)"
        using keys run by (simp add: process_packet_with_cache_entry_def)
      moreover have "limited_by_rule env p ct pk (rate_limit_drop (entry_matched_rule e'))"
        using limited by (simp add: limited_by_rule_def rate_limit_drop_def)
      ultimately show ?thesis
        using inv2 st2 by blast
    qed
  qed
qed

lemma process_packet_inv:
  assumes inv: "acl_inv env t p" and t: "t \<le> now" and wf: "wf_packet_info pk"
  shows "\<exists>res p'. process_packet env now wall pk ct p = Inr (res, p') \<and> acl_inv env now p' \<and> static p' = static p \<and>
     (res = decide env p ct pk \<or> limited_by_rule env p ct pk res)"
proof (cases "map_of (rule_cache p) (AclCacheKey_from_packet_info pk ct)")
  case (Some e)
  then show ?thesis
    using cache_hit [OF inv t wf] by blast
next
  case None
  note miss = None
  show ?thesis
  proof (cases "rules_for p ct")
    case None
    then show ?thesis
      using miss acl_inv_frame [OF inv _ _ _ t, of p] by (simp add: process_packet_def decide_def)
  next
    case (Some rs)
    have "process_packet env now wall pk ct p = process_rules env now wall pk ct rs p"
      using miss Some by (simp add: process_packet_def)
    then show ?thesis
      using process_rules_match [of env now wall pk ct rs p] rule_hit [OF inv t wf Some]
        default_hit [OF inv t wf Some]
      by (cases "matching_rule env rs pk") auto
  qed
qed

section \<open>Reachable processors\<close>

text \<open>
  A processor for the configuration \<open>a\<close>, created with tables of an earlier one or fresh ones, after
  packets, cleanups, refills and counter updates at increasing times. In a round of the cleanup
  task at most five seconds pass between the cache and the buckets.
\<close>

inductive acl_reach :: "acl_env \<Rightarrow> Acl \<Rightarrow> nat \<Rightarrow> AclProcessor \<Rightarrow> bool" for env a where
  reach_new: "updates_before t (case rl of Some l \<Rightarrow> l | None \<Rightarrow> Map.empty) \<Longrightarrow>
    acl_reach env a t (AclProcessor_new_with_shared_state env a ct rl st)"
| reach_packet: "acl_reach env a t p \<Longrightarrow> t \<le> now \<Longrightarrow> wf_packet_info pk \<Longrightarrow>
    process_packet env now wall pk ct p = Inr (r, p') \<Longrightarrow> acl_reach env a now p'"
| reach_tick: "acl_reach env a t p \<Longrightarrow> t \<le> t1 \<Longrightarrow> t1 \<le> t2 \<Longrightarrow> t2 \<le> t1 + 5000 \<Longrightarrow>
    acl_reach env a t2 (cache_cleanup_tick t1 t2 p)"
| reach_conn: "acl_reach env a t p \<Longrightarrow> conn_cleanup_tick chk wall p = Inr p' \<Longrightarrow> acl_reach env a t p'"
| reach_refill: "acl_reach env a t p \<Longrightarrow> acl_reach env a t (bucket_refill tokens_for k us p)"
| reach_stat: "acl_reach env a t p \<Longrightarrow> acl_reach env a t (increment_stat k p)"

lemma acl_inv_tick:
  assumes inv: "acl_inv env t p" and times: "t \<le> t1" "t1 \<le> t2" "t2 \<le> t1 + 5000"
  shows "acl_inv env t2 (cache_cleanup_tick t1 t2 p)" (is "acl_inv _ _ ?p'")
proof -
  have st: "static ?p' = static p"
    by (simp add: static_def cache_cleanup_tick_def)
  let ?c = "cleanup_cache t1 (cache_max_size p) (rule_cache p)"
  have s: "cache_sound env p (rule_cache p)" and b: "buckets_live (rate_limiters p) (rule_cache p)"
    and u: "updates_before t (rate_limiters p)" and i: "cache_cleanup_interval p = 20000"
    using inv by (simp_all add: acl_inv_def)
  have kept: "\<exists>v. rate_limiters ?p' rk = Some v \<and> last_access e \<le> last_update v"
    if e: "map_of ?c k = Some e" and rk: "rk \<in> set (rate_limit_keys e)" for k e rk
  proof -
    have "map_of (rule_cache p) k = Some e" and la: "last_access e > (if t1 \<ge> 15000 then t1 - 15000 else t1)"
      using cleanup_cache_kept(2) [OF _ e] s by (auto simp: cache_sound_def)
    then obtain v where v: "rate_limiters p rk = Some v" "last_access e \<le> last_update v"
      using b rk unfolding buckets_live_def by blast
    have "last_update v \<le> t"
      using u v(1) unfolding updates_before_def by blast
    then have "t2 - last_update v < 20000"
      using la v(2) times by (auto split: if_splits)
    then show ?thesis
      using v i by (simp add: cache_cleanup_tick_def)
  qed
  have "buckets_live (rate_limiters ?p') ?c"
    using kept unfolding buckets_live_def by blast
  moreover have "updates_before t2 (rate_limiters ?p')"
    using u times unfolding updates_before_def cache_cleanup_tick_def
    by (fastforce split: option.splits if_splits)
  moreover have "rule_cache ?p' = ?c"
    by (simp add: cache_cleanup_tick_def)
  ultimately show ?thesis
    using cache_sound_cleanup(1) [OF s b] static_eqD(4,6) [OF st] i by (simp add: acl_inv_def)
qed

lemma acl_inv_refill:
  assumes inv: "acl_inv env t p"
  shows "acl_inv env t (bucket_refill tokens_for k us p)" (is "acl_inv _ _ ?p'")
proof -
  have st: "static ?p' = static p"
    by (simp add: static_def bucket_refill_def split: option.split)
  have "\<exists>v'. rate_limiters ?p' rk = Some v' \<and> last_update v' = last_update v" if "rate_limiters p rk = Some v" for rk v
    using that by (auto simp: bucket_refill_def split: option.splits)
  then have "buckets_live (rate_limiters ?p') (rule_cache p)"
    using inv unfolding acl_inv_def buckets_live_def by metis
  moreover have "updates_before t (rate_limiters ?p')"
    using inv unfolding acl_inv_def updates_before_def bucket_refill_def by (auto split: option.splits if_splits)
  moreover have "rule_cache ?p' = rule_cache p"
    by (simp add: bucket_refill_def split: option.split)
  ultimately show ?thesis
    using inv static_eqD(4,6) [OF st] by (simp add: acl_inv_def)
qed

lemma static_new:
  "static (AclProcessor_new_with_shared_state env a ct rl st) = static (AclProcessor_new env a)"
  by (simp add: static_def AclProcessor_new_def AclProcessor_new_with_shared_state_def case_prod_beta)

lemma acl_reach_inv:
  "acl_reach env a t p \<Longrightarrow> acl_inv env t p \<and> static p = static (AclProcessor_new env a)"
proof (induction rule: acl_reach.induct)
  case (reach_new t rl ct st)
  then show ?case
    by (auto simp: static_new)
      (simp add: acl_inv_def AclProcessor_new_with_shared_state_def case_prod_beta cache_sound_def buckets_live_def)
next
  case (reach_packet t p now pk wall ct r p')
  then show ?case
    using process_packet_inv [of env t p now pk wall ct] by auto
next
  case (reach_tick t p t1 t2)
  moreover have "static (cache_cleanup_tick t1 t2 p) = static p"
    by (simp add: static_def cache_cleanup_tick_def)
  ultimately show ?case
    using acl_inv_tick [of env t p t1 t2] by simp
next
  case (reach_conn t p chk wall p')
  then show ?case
    using acl_inv_frame [of env t p p' t] by (auto simp: conn_cleanup_tick_def rbind_eq_Inr_iff static_def)
next
  case (reach_refill t p tokens_for k us)
  moreover have "static (bucket_refill tokens_for k us p) = static p"
    by (simp add: static_def bucket_refill_def split: option.split)
  ultimately show ?case
    using acl_inv_refill by simp
next
  case (reach_stat t p k)
  then show ?case
    using acl_inv_frame [of env t p "increment_stat k p" t] by simp
qed

text \<open>
  C24: The cache never changes a decision and never fails. In every state that a processor can
  reach, whatever packets, cleanups, refills and reuse of tables came before, processing a packet
  does not panic, and its result is the one the rules of the configuration give without any cache,
  unless the matching rule has a rate limit and the packet is dropped for it.
\<close>

theorem acl_decision_sound:
  assumes "acl_reach env a t p" and "t \<le> now" and "wf_packet_info pk"
  shows "\<exists>r p'. process_packet env now wall pk ct p = Inr (r, p') \<and>
     (r = decide env (AclProcessor_new env a) ct pk \<or> limited_by_rule env (AclProcessor_new env a) ct pk r)"
proof -
  have inv: "acl_inv env t p" and st: "static p = static (AclProcessor_new env a)"
    using acl_reach_inv [OF assms(1)] by simp_all
  have "limited_by_rule env p ct pk r = limited_by_rule env (AclProcessor_new env a) ct pk r" for r
    by (simp add: limited_by_rule_def static_eqD(1) [OF st])
  then show ?thesis
    using process_packet_inv [OF inv assms(2,3), of wall ct] static_eqD(5) [OF st] by auto
qed

theorem acl_decision_sound_witness:
  defines "env \<equiv> \<lparr>cidr_from_str = \<lambda>_. None, v4_contains = \<lambda>_ _ _. False, v6_contains = \<lambda>_ _ _. False, show_ip = \<lambda>_. ''''\<rparr>"
  defines "pk \<equiv> \<lparr>src_ip = V4 1, dst_ip = V4 2, src_port = Some 1000, dst_port = Some 80, pk_protocol = Tcp,
     packet_size = 60, src_groups = [], dst_groups = []\<rparr>"
  shows "\<exists>r p'. process_packet env 5 0 pk Inbound (AclProcessor_new env Acl_default) = Inr (r, p') \<and>
     res_action r = Allow"
proof -
  have "acl_reach env Acl_default 0 (AclProcessor_new env Acl_default)"
    unfolding AclProcessor_new_def by (rule reach_new) (simp add: updates_before_def)
  moreover have "wf_packet_info pk"
    by (simp add: wf_packet_info_def pk_def)
  ultimately obtain r p' where run: "process_packet env 5 0 pk Inbound (AclProcessor_new env Acl_default) = Inr (r, p')"
    and r: "r = decide env (AclProcessor_new env Acl_default) Inbound pk \<or>
      limited_by_rule env (AclProcessor_new env Acl_default) Inbound pk r"
    using acl_decision_sound [of env Acl_default 0 _ 5 pk 0 Inbound] by blast
  have rules: "rules_for (AclProcessor_new env Acl_default) Inbound = Some []"
    and def: "default_action_for (AclProcessor_new env Acl_default) Inbound = Allow"
    by (simp_all add: rules_for_def default_action_for_def AclProcessor_new_def AclProcessor_new_with_shared_state_def
        build_rules_def build_default_actions_def default_action_of_def Acl_default_def)
  then have "res_action r = Allow"
    using r by (auto simp: decide_def limited_by_rule_def matching_rule_def default_result_def)
  with run show ?thesis
    by blast
qed

section \<open>Order of the rules\<close>

lemma rules_for_new:
  assumes "acl_v1 a = Some v1" and "ct \<noteq> UnspecifiedChain"
  shows "rules_for (AclProcessor_new env a) ct = Some (rules_of_type env ct (enumerate 0 (chains v1)))"
  using assms
  by (cases ct) (simp_all add: rules_for_def AclProcessor_new_def AclProcessor_new_with_shared_state_def
      build_rules_def build_default_actions_def Let_def)

definition chain_applies :: "ChainType \<Rightarrow> Chain \<Rightarrow> bool" where
  "chain_applies ct c \<longleftrightarrow> chain_enabled c \<and> ChainType_get (chain_chain_type c) = ct"

lemma find_append: "List.find P (xs @ ys) = (case List.find P xs of Some x \<Rightarrow> Some x | None \<Rightarrow> List.find P ys)"
  by (induction xs) auto

lemma matching_rule_chains:
  assumes "matching_rule env (rules_of_type env ct cs) pk = Some r"
  shows "\<exists>n<length cs. chain_applies ct (snd (cs ! n)) \<and>
     matching_rule env (chain_lookup_rules env (fst (cs ! n)) (snd (cs ! n))) pk = Some r \<and>
     (\<forall>m<n. chain_applies ct (snd (cs ! m)) \<longrightarrow>
        matching_rule env (chain_lookup_rules env (fst (cs ! m)) (snd (cs ! m))) pk = None)"
  using assms
proof (induction cs)
  case (Cons x cs)
  show ?case
  proof (cases "chain_applies ct (snd x) \<and> matching_rule env (chain_lookup_rules env (fst x) (snd x)) pk \<noteq> None")
    case True
    with Cons.prems have "matching_rule env (chain_lookup_rules env (fst x) (snd x)) pk = Some r"
      by (auto simp: rules_of_type_def matching_rule_def find_append chain_applies_def case_prod_beta)
    with True show ?thesis
      by (intro exI [of _ 0]) simp
  next
    case False
    with Cons.prems have "matching_rule env (rules_of_type env ct cs) pk = Some r"
      by (auto simp: rules_of_type_def matching_rule_def find_append chain_applies_def case_prod_beta split: if_splits)
    with Cons.IH obtain n where "n < length cs" and "chain_applies ct (snd (cs ! n))"
      and "matching_rule env (chain_lookup_rules env (fst (cs ! n)) (snd (cs ! n))) pk = Some r"
      and "\<forall>m<n. chain_applies ct (snd (cs ! m)) \<longrightarrow>
        matching_rule env (chain_lookup_rules env (fst (cs ! m)) (snd (cs ! m))) pk = None"
      by blast
    with False show ?thesis
      by (intro exI [of _ "Suc n"]) (auto simp: less_Suc_eq_0_disj)
  qed
qed (simp add: rules_of_type_def matching_rule_def)

lemma matching_rule_highest:
  assumes "matching_rule env (chain_lookup_rules env ci c) pk = Some r"
    and "r' \<in> set (chain_lookup_rules env ci c)" and "enabled r'" and "rule_matches env r' pk"
  shows "priority r' \<le> priority r"
proof -
  let ?rs = "chain_lookup_rules env ci c" and ?key = "\<lambda>r. - int (unat (priority r))"
  have sorted: "sorted (map ?key ?rs)"
    by (simp add: chain_lookup_rules_def)
  obtain i where i: "i < length ?rs" "r = ?rs ! i" "\<forall>j<i. \<not> (enabled (?rs ! j) \<and> rule_matches env (?rs ! j) pk)"
    using assms(1) by (auto simp: matching_rule_def find_Some_iff)
  obtain j where j: "j < length ?rs" "r' = ?rs ! j"
    using assms(2) by (auto simp: in_set_conv_nth)
  have "i \<le> j"
    using i(3) j assms(3,4) not_less by blast
  then have "?key r \<le> ?key r'"
    using sorted_nth_mono [OF sorted, of i j] i j by simp
  then show ?thesis
    by (simp add: word_le_def)
qed

text \<open>
  C26: Which rule decides. The decisive rule of a packet is in the first enabled chain of its type,
  in the order of the configuration, that has a matching enabled rule, and has the highest
  priority among the matching rules of that chain. Priorities do not order rules of different
  chains.
\<close>

theorem acl_rule_order:
  assumes "acl_v1 a = Some v1" and "ct \<noteq> UnspecifiedChain"
    and "rules_for (AclProcessor_new env a) ct = Some rs" and "matching_rule env rs pk = Some r"
  shows "\<exists>n<length (chains v1). chain_applies ct (chains v1 ! n) \<and>
     r \<in> set (chain_lookup_rules env n (chains v1 ! n)) \<and>
     (\<forall>r'\<in>set (chain_lookup_rules env n (chains v1 ! n)). enabled r' \<and> rule_matches env r' pk \<longrightarrow> priority r' \<le> priority r) \<and>
     (\<forall>m<n. chain_applies ct (chains v1 ! m) \<longrightarrow>
        (\<forall>r'\<in>set (chain_lookup_rules env m (chains v1 ! m)). \<not> (enabled r' \<and> rule_matches env r' pk)))"
proof -
  let ?cs = "enumerate 0 (chains v1)"
  have "matching_rule env (rules_of_type env ct ?cs) pk = Some r"
    using assms rules_for_new by simp
  from matching_rule_chains [OF this] obtain n where n: "n < length (chains v1)" "chain_applies ct (chains v1 ! n)"
    "matching_rule env (chain_lookup_rules env n (chains v1 ! n)) pk = Some r"
    and none: "\<forall>m<n. chain_applies ct (chains v1 ! m) \<longrightarrow>
        matching_rule env (chain_lookup_rules env m (chains v1 ! m)) pk = None"
    by (auto simp: nth_enumerate_eq)
  have "\<forall>m<n. chain_applies ct (chains v1 ! m) \<longrightarrow>
      (\<forall>r'\<in>set (chain_lookup_rules env m (chains v1 ! m)). \<not> (enabled r' \<and> rule_matches env r' pk))"
    using none by (auto simp: matching_rule_def find_None_iff)
  then show ?thesis
    using n matching_rule_highest [OF n(3)] matching_rule_Some [OF n(3)] by (intro exI [of _ n]) blast
qed

section \<open>Counters\<close>

lemma bump_twice: "fst (fold (bump sz) [i, i] f i) = fst (f i) + 2" "fst (fold (bump sz) [i] f i) = fst (f i) + 1"
  by (simp_all add: bump_def)

text \<open>
  The counters of a rate-limited rule count double. When a packet that is not in the cache is
  let through a rule without a rate limit, the packet counter of the rule grows by one; when the
  rule has a rate limit, it grows by two.
\<close>

theorem rate_limited_rule_counts_twice:
  assumes miss: "map_of (rule_cache p) (AclCacheKey_from_packet_info pk ct) = None"
    and rules: "rules_for p ct = Some rs" and m: "matching_rule env rs pk = Some r"
    and run: "process_packet env now wall pk ct p = Inr (res, p')" and passed: "log_context res \<noteq> Some RateLimitDrop"
  shows "fst (rule_stat_items p' (rule_stats r)) =
     fst (rule_stat_items p (rule_stats r)) + (if rate_limit r > 0 then 2 else 1)"
proof -
  have en: "enabled r" "rule_matches env r pk"
    using matching_rule_Some [OF m] by simp_all
  have run': "process_rules env now wall pk ct [r] p = Inr (res, p')"
    using run miss rules process_rules_match [of env now wall pk ct rs p] m by (simp add: process_packet_def)
  obtain ok p1 where lim: "(if rate_limit r > 0
      then check_rate_limit now (ct, priority r) (rate_limit r) (burst_limit r) True p else Inr (True, p)) = Inr (ok, p1)"
    using check_rate_limit_total [of True p "(ct, priority r)" now "rate_limit r" "burst_limit r"]
    by (cases "rate_limit r > 0") auto
  have items: "rule_stat_items p1 = rule_stat_items p"
  proof (cases "rate_limit r > 0")
    case True
    then have "check_rate_limit now (ct, priority r) (rate_limit r) (burst_limit r) True p = Inr (ok, p1)" "rate_limit r \<noteq> 0"
      using lim by auto
    then show ?thesis
      by (rule check_rate_limit_effect) simp
  qed (use lim in simp)
  have ok
  proof (rule ccontr)
    assume "\<not> ok"
    then have "res = rate_limit_drop (RulePriority (priority r))"
      using run' en lim by simp
    with passed show False
      by (simp add: rate_limit_drop_def)
  qed
  then have "rule_stat_items p' = fold (bump (packet_size pk)) (rule_stats_vec (rule_entry env now ct r pk)) (rule_stat_items p1)"
    using run' en lim
    by (auto simp: Let_def cache_result_def inc_cache_entry_stats_def increment_stat_def check_connection_state_def)
  then show ?thesis
    using bump_twice items by (simp add: rule_entry_def)
qed

text \<open>A configuration for the examples: one inbound chain, a rate-limited rule above an unlimited one.\<close>

definition sample_rule :: "u32 \<Rightarrow> u32 \<Rightarrow> Rule" where
  "sample_rule prio limit =
     \<lparr>rule_name = ''r'', rule_description = '''', rule_priority = prio, rule_enabled = True,
      rule_protocol = Protocol_i32 AnyProto, ports = [], source_ips = [], destination_ips = [], source_ports = [],
      rule_action = Action_i32 Allow, rule_rate_limit = limit, rule_burst_limit = 5, rule_stateful = False,
      rule_source_groups = [], rule_destination_groups = []\<rparr>"

definition sample_chain :: Chain where
  "sample_chain = \<lparr>chain_name = ''c'', chain_chain_type = ChainType_i32 Inbound, chain_description = '''',
     chain_enabled = True, chain_rules = [sample_rule 10 0, sample_rule 20 7], chain_default_action = Action_i32 Drop\<rparr>"

definition sample_acl :: Acl where
  "sample_acl = \<lparr>acl_v1 = Some \<lparr>chains = [sample_chain], group = None\<rparr>\<rparr>"

definition sample_env :: acl_env where
  "sample_env = \<lparr>cidr_from_str = \<lambda>_. None, v4_contains = \<lambda>_ _ _. False, v6_contains = \<lambda>_ _ _. False, show_ip = \<lambda>_. ''''\<rparr>"

definition sample_packet :: PacketInfo where
  "sample_packet = \<lparr>src_ip = V4 1, dst_ip = V4 2, src_port = Some 1000, dst_port = Some 80, pk_protocol = Tcp,
     packet_size = 60, src_groups = [], dst_groups = []\<rparr>"

lemma sample_lookup:
  "chain_lookup_rules sample_env 0 sample_chain =
     [convert_to_fast_lookup_rule sample_env (RuleStatsAt 0 1) (sample_rule 20 7),
      convert_to_fast_lookup_rule sample_env (RuleStatsAt 0 0) (sample_rule 10 0)]"
  by (simp add: chain_lookup_rules_def sample_chain_def sample_rule_def convert_to_fast_lookup_rule_def)

lemma sample_rules:
  "rules_for (AclProcessor_new sample_env sample_acl) Inbound = Some (chain_lookup_rules sample_env 0 sample_chain)"
  using rules_for_new [of sample_acl _ Inbound sample_env]
  by (simp add: sample_acl_def rules_of_type_def sample_chain_def ChainType_get_def)

lemma sample_match:
  "matching_rule sample_env (chain_lookup_rules sample_env 0 sample_chain) sample_packet =
     Some (convert_to_fast_lookup_rule sample_env (RuleStatsAt 0 1) (sample_rule 20 7))"
  by (simp add: sample_lookup matching_rule_def rule_matches_def convert_to_fast_lookup_rule_def sample_rule_def
      Protocol_get_def sample_packet_def port_ranges_def map_filter_def)

theorem acl_rule_order_witness:
  "\<exists>n<1. chain_applies Inbound ([sample_chain] ! n) \<and>
     convert_to_fast_lookup_rule sample_env (RuleStatsAt 0 1) (sample_rule 20 7) \<in>
       set (chain_lookup_rules sample_env n ([sample_chain] ! n))"
  using acl_rule_order [OF _ _ sample_rules sample_match]
  by (fastforce simp: sample_acl_def)

theorem rate_limited_rule_counts_twice_witness:
  "\<exists>res p'. process_packet sample_env 5 0 sample_packet Inbound (AclProcessor_new sample_env sample_acl) = Inr (res, p') \<and>
     fst (rule_stat_items p' (RuleStatsAt 0 1)) = 2"
proof -
  let ?p = "AclProcessor_new sample_env sample_acl"
  let ?r = "convert_to_fast_lookup_rule sample_env (RuleStatsAt 0 1) (sample_rule 20 7)"
  have fresh: "rule_cache ?p = []" "rate_limiters ?p = Map.empty" "rule_stat_items ?p = (\<lambda>_. (0, 0))"
    by (simp_all add: AclProcessor_new_def AclProcessor_new_with_shared_state_def case_prod_beta)
  then have miss: "map_of (rule_cache ?p) (AclCacheKey_from_packet_info sample_packet Inbound) = None"
    by simp
  have r: "enabled ?r" "rate_limit ?r = 7" "burst_limit ?r = 5" "rule_stats ?r = RuleStatsAt 0 1"
    "rule_matches sample_env ?r sample_packet"
    using matching_rule_Some [OF sample_match] by (simp_all add: convert_to_fast_lookup_rule_def sample_rule_def)
  have run: "process_packet sample_env 5 0 sample_packet Inbound ?p =
      process_rules sample_env 5 0 sample_packet Inbound [?r] ?p"
    using miss sample_rules process_rules_match [of sample_env 5 0 sample_packet Inbound] sample_match
    by (simp add: process_packet_def)
  have "\<exists>p1. check_rate_limit 5 (Inbound, priority ?r) 7 5 True ?p = Inr (True, p1)"
    by (simp add: check_rate_limit_def fresh TokenBucket_new_def TokenBucket_new_from_cfg_def try_consume_def Let_def)
  then obtain p' where p': "process_packet sample_env 5 0 sample_packet Inbound ?p = Inr (rule_result ?r sample_packet, p')"
    using run r by (auto simp: Let_def)
  moreover have "log_context (rule_result ?r sample_packet) \<noteq> Some RateLimitDrop"
    by (simp add: rule_result_def)
  ultimately have "fst (rule_stat_items p' (rule_stats ?r)) =
      fst (rule_stat_items ?p (rule_stats ?r)) + (if rate_limit ?r > 0 then 2 else 1)"
    by (rule rate_limited_rule_counts_twice [OF miss sample_rules sample_match])
  with p' r fresh show ?thesis
    by simp
qed

end
