(* ===== verification/Acl_Whitelist.thy ===== *)
theory Acl_Whitelist
  imports Acl_Processor
begin

text \<open>
  What the port whitelists of the command line enforce once the rule builder of
  \<open>src/easytier/src/common/acl_processor.rs\<close> has turned them into a chain and the processor runs it,
  and where the conversion of rules gives up restrictions silently.
\<close>

section \<open>Numbers as text\<close>

lemma of_char_digit: "k < 10 \<Longrightarrow> (of_char (char_of (48 + k :: nat)) :: nat) = 48 + k"
  by (simp add: of_char_of)

lemma digits_val_append: "digits_val (xs @ ys) acc = digits_val ys (digits_val xs acc)"
  by (induction xs acc rule: digits_val.induct) simp_all

lemma show_nat_digits: "list_all is_digit (show_nat n) \<and> digits_val (show_nat n) 0 = n \<and> show_nat n \<noteq> []"
proof (induction n rule: show_nat.induct)
  case (1 n)
  have d: "is_digit (char_of (48 + k))" if "k < 10" for k :: nat
    using of_char_digit [OF that] that by (simp add: is_digit_def)
  show ?case
  proof (cases "n < 10")
    case True
    then show ?thesis
      using d [OF True] of_char_digit [OF True] by (simp add: show_nat.simps [of n])
  next
    case False
    then show ?thesis
      using 1 d [of "n mod 10"] of_char_digit [of "n mod 10"]
      by (simp add: show_nat.simps [of n] digits_val_append)
  qed
qed

definition number_char :: "char \<Rightarrow> bool" where
  "number_char c \<longleftrightarrow> is_digit c \<or> c = CHR ''+''"

lemma number_char_plain: "number_char c \<Longrightarrow> \<not> is_space c \<and> c \<noteq> CHR ''-''"
  by (auto simp: number_char_def is_space_def is_digit_def)

lemma parse_u16_chars:
  assumes "parse_u16 s = Some n"
  shows "list_all number_char s" and "s \<noteq> []"
proof -
  show "s \<noteq> []"
    using assms by (auto simp: parse_u16_def)
  show "list_all number_char s"
    using assms by (cases s)
      (auto simp: parse_u16_def number_char_def Let_def list_all_iff split: if_splits)
qed

lemma trim_number: "list_all number_char s \<Longrightarrow> trim s = s"
proof -
  assume s: "list_all number_char s"
  have "dropWhile is_space xs = xs" if "list_all number_char xs" for xs
    using that by (cases xs) (auto dest: number_char_plain)
  then show ?thesis
    using s by (simp add: trim_def)
qed

lemma no_dash_number: "list_all number_char s \<Longrightarrow> CHR ''-'' \<notin> set s"
  using number_char_plain by (auto simp: list_all_iff)

lemma parse_u16_show_nat:
  assumes "n < 2 ^ 16"
  shows "parse_u16 (show_nat n) = Some (of_nat n)" and "list_all number_char (show_nat n)"
proof -
  note sd = show_nat_digits [of n]
  then obtain c cs where s: "show_nat n = c # cs" "is_digit c"
    by (cases "show_nat n") auto
  then have "c \<noteq> CHR ''+''"
    by (auto simp: is_digit_def)
  then show "parse_u16 (show_nat n) = Some (of_nat n)"
    using sd assms s by (simp add: parse_u16_def)
  show "list_all number_char (show_nat n)"
    using sd by (auto simp: list_all_iff number_char_def)
qed

lemma parse_port_range_single:
  assumes "parse_u16 s = Some p"
  shows "parse_port_range s = Some (p, p)"
  using assms no_dash_number [OF parse_u16_chars(1) [OF assms]] trim_number [OF parse_u16_chars(1) [OF assms]]
  by (simp add: parse_port_range_def split_once_def)

lemma split_at_once: "split_at c s = [x, y] \<Longrightarrow> split_once c s = Some (x, y)"
proof -
  have none: "c \<notin> set s \<Longrightarrow> split_at c s = [s]" for s
    by (induction s) auto
  have eq: "c \<in> set s \<Longrightarrow> split_at c s =
      takeWhile (\<lambda>x. x \<noteq> c) s # split_at c (drop 1 (dropWhile (\<lambda>x. x \<noteq> c) s))" for s
    by (induction s) auto
  have single: "split_at c t = [y] \<Longrightarrow> t = y" for t y
  proof (induction t arbitrary: y)
    case (Cons a t)
    have "split_at c t \<noteq> []"
      by (cases t) (auto split: list.split)
    with Cons show ?case
      by (auto split: if_splits list.splits)
  qed simp
  assume "split_at c s = [x, y]"
  then show ?thesis
    using none [of s] eq [of s] single by (cases "c \<in> set s") (auto simp: split_once_def)
qed

text \<open>A port of a whitelist keeps its range on the way into the rule.\<close>

lemma parse_port_spec_range:
  assumes "parse_port_spec s = Inr s'"
  shows "\<exists>lo hi. parse_port_range s = Some (lo, hi) \<and> parse_port_range s' = Some (lo, hi) \<and> lo \<le> hi"
proof (cases "CHR ''-'' \<in> set s")
  case True
  then obtain a b where s': "s' = s" and len: "length (split_at (CHR ''-'') s) = 2"
    and a: "parse_u16 (split_at (CHR ''-'') s ! 0) = Some a"
    and b: "parse_u16 (split_at (CHR ''-'') s ! 1) = Some b" and le: "\<not> a > b"
    using assms by (auto simp: parse_port_spec_def Let_def split: if_splits option.splits)
  obtain x y where xy: "split_at (CHR ''-'') s = [x, y]"
    using len by (auto simp: length_Suc_conv numeral_2_eq_2)
  have "trim x = x" and "trim y = y"
    using a b xy parse_u16_chars(1) trim_number by auto
  then have "parse_port_range s = Some (a, b)"
    using split_at_once [OF xy] a b xy by (simp add: parse_port_range_def)
  then show ?thesis
    using s' le by auto
next
  case False
  then obtain p where "parse_u16 s = Some p" and s': "s' = show_nat (unat p)"
    using assms by (auto simp: parse_port_spec_def split: option.splits)
  moreover have "parse_u16 (show_nat (unat p)) = Some p"
    using parse_u16_show_nat(1) [of "unat p"] unsigned_less [of p] by simp
  ultimately show ?thesis
    using parse_port_range_single by auto
qed

section \<open>What a whitelist enforces\<close>

definition listed :: "string list \<Rightarrow> u16 \<Rightarrow> bool" where
  "listed ws x = list_ex (\<lambda>s. case parse_port_range s of Some (lo, hi) \<Rightarrow> lo \<le> x \<and> x \<le> hi | None \<Rightarrow> False) ws"

lemma parse_port_list_ranges:
  assumes "parse_port_list ws = Inr ps"
  shows "in_ranges (port_ranges ps) x = listed ws x" and "ws \<noteq> [] \<Longrightarrow> port_ranges ps \<noteq> []"
proof -
  have "in_ranges (port_ranges ps) x = listed ws x \<and> (ws \<noteq> [] \<longrightarrow> port_ranges ps \<noteq> [])"
    using assms
  proof (induction ws arbitrary: ps)
    case Nil
    then show ?case
      by (simp add: port_ranges_def map_filter_simps in_ranges_def listed_def)
  next
    case (Cons s ws)
    then obtain s' ps' where s': "parse_port_spec s = Inr s'" "parse_port_list ws = Inr ps'" "ps = s' # ps'"
      by (auto simp: rbind_eq_Inr_iff)
    with Cons.IH parse_port_spec_range [OF s'(1)] show ?case
      by (auto simp: port_ranges_def map_filter_simps in_ranges_def listed_def)
  qed
  then show "in_ranges (port_ranges ps) x = listed ws x" and "ws \<noteq> [] \<Longrightarrow> port_ranges ps \<noteq> []"
    by auto
qed

lemma whitelist_rule_matches:
  assumes "dst_port pk = Some x" and "parse_port_list ws = Inr ps" and "ws \<noteq> []" and "proto \<noteq> AnyProto"
  shows "rule_matches env (convert_to_fast_lookup_rule env sid (whitelist_rule n d prio proto st ps)) pk \<longleftrightarrow>
     pk_protocol pk = proto \<and> listed ws x"
proof -
  have "Protocol_get (Protocol_i32 proto) = proto"
    by (cases proto) (simp_all add: Protocol_get_def)
  moreover have "Protocol_i32 proto = Protocol_i32 (pk_protocol pk) \<longleftrightarrow> pk_protocol pk = proto"
    by (cases proto; cases "pk_protocol pk") simp_all
  ultimately show ?thesis
    using parse_port_list_ranges [OF assms(2)] assms(1,3,4)
    by (auto simp: rule_matches_def convert_to_fast_lookup_rule_def whitelist_rule_def port_ranges_def
        map_filter_simps split: option.splits)
qed

definition whitelist_rules :: "AclRuleBuilder \<Rightarrow> u32 \<Rightarrow> u32 \<Rightarrow> string list \<Rightarrow> string list \<Rightarrow> Rule list" where
  "whitelist_rules b p1 p2 tp up =
     (if tcp_whitelist b \<noteq> []
      then [whitelist_rule ''tcp_whitelist'' ''Auto-generated TCP whitelist rule'' p1 Tcp True tp] else []) @
     (if udp_whitelist b \<noteq> []
      then [whitelist_rule ''udp_whitelist'' ''Auto-generated UDP whitelist rule'' p2 Udp False up] else [])"

lemma do_build_rules:
  assumes ne: "tcp_whitelist b \<noteq> [] \<or> udp_whitelist b \<noteq> []" and ok: "do_build chk b = Inr (Inr ao)"
  shows "\<exists>tp up p1 p2. ao = Some (push_chain (inbound_whitelist_chain (whitelist_rules b p1 p2 tp up)) (acl b)) \<and>
    (tcp_whitelist b \<noteq> [] \<longrightarrow> parse_port_list (tcp_whitelist b) = Inr tp) \<and>
    (udp_whitelist b \<noteq> [] \<longrightarrow> parse_port_list (udp_whitelist b) = Inr up)"
proof -
  define T where "T = (if tcp_whitelist b \<noteq> [] then parse_port_list (tcp_whitelist b) else Inr [])"
  define U where "U = (if udp_whitelist b \<noteq> [] then parse_port_list (udp_whitelist b) else Inr [])"
  define p1 where "p1 = (case whitelist_priority b of Some p \<Rightarrow> p | None \<Rightarrow> 1000)"
  obtain b' where gen: "generate_acl_from_whitelists chk b = Inr (Inr b')" and ao: "ao = acl b'"
    using ok by (cases "generate_acl_from_whitelists chk b"; cases "projr (generate_acl_from_whitelists chk b)")
      (auto simp: do_build_def)
  have eq: "generate_acl_from_whitelists chk b = (case T of
          Inl e \<Rightarrow> Inr (Inl e)
        | Inr tp \<Rightarrow>
            rbind (if tcp_whitelist b \<noteq> [] then usub chk p1 1 else Inr p1) (\<lambda>p2.
            case U of
              Inl e \<Rightarrow> Inr (Inl e)
            | Inr up \<Rightarrow>
                Inr (Inr (b\<lparr>acl := Some (push_chain (inbound_whitelist_chain (whitelist_rules b p1 p2 tp up)) (acl b))\<rparr>))))"
  proof -
    have "\<not> (tcp_whitelist b = [] \<and> udp_whitelist b = [])"
      using ne by blast
    then show ?thesis
      unfolding generate_acl_from_whitelists_def T_def U_def p1_def whitelist_rules_def Let_def
      by (simp only: if_False)
  qed
  obtain tp where tp: "T = Inr tp"
    using gen unfolding eq by (cases T) auto
  obtain p2 where p2: "(if tcp_whitelist b \<noteq> [] then usub chk p1 1 else Inr p1) = Inr p2"
    using gen unfolding eq tp sum.case rbind_eq_Inr_iff by blast
  obtain up where up: "U = Inr up"
    using gen unfolding eq tp p2 by (cases U) auto
  have "b' = b\<lparr>acl := Some (push_chain (inbound_whitelist_chain (whitelist_rules b p1 p2 tp up)) (acl b))\<rparr>"
    using gen unfolding eq tp p2 up by simp
  then have "ao = Some (push_chain (inbound_whitelist_chain (whitelist_rules b p1 p2 tp up)) (acl b))"
    using ao by simp
  moreover have "tcp_whitelist b \<noteq> [] \<longrightarrow> parse_port_list (tcp_whitelist b) = Inr tp"
    and "udp_whitelist b \<noteq> [] \<longrightarrow> parse_port_list (udp_whitelist b) = Inr up"
    using tp up unfolding T_def U_def by auto
  ultimately show ?thesis
    by blast
qed

lemma whitelist_decides:
  assumes a: "a = \<lparr>acl_v1 = Some \<lparr>chains = [inbound_whitelist_chain rs], group = g\<rparr>\<rparr>"
    and allow: "\<And>r. r \<in> set rs \<Longrightarrow> rule_enabled r \<and> rule_action r = Action_i32 Allow"
  shows "res_action (decide env (AclProcessor_new env a) Inbound pk) =
    (if \<exists>i<length rs. rule_matches env (convert_to_fast_lookup_rule env (RuleStatsAt 0 i) (rs ! i)) pk then Allow else Drop)"
proof -
  let ?c = "inbound_whitelist_chain rs" and ?p = "AclProcessor_new env a"
  let ?rs = "chain_lookup_rules env 0 ?c"
  have rules: "rules_for ?p Inbound = Some ?rs"
    using rules_for_new [of a _ Inbound env]
    by (simp add: a rules_of_type_def inbound_whitelist_chain_def ChainType_get_def)
  have def: "default_action_for ?p Inbound = Drop"
    by (simp add: default_action_for_def AclProcessor_new_def AclProcessor_new_with_shared_state_def a
        build_default_actions_def default_action_of_def inbound_whitelist_chain_def Action_get_def case_prod_beta)
  have set_rs: "set ?rs = (\<lambda>i. convert_to_fast_lookup_rule env (RuleStatsAt 0 i) (rs ! i)) ` {..<length rs}"
    using allow by (force simp: chain_lookup_rules_def inbound_whitelist_chain_def in_set_enumerate_eq image_iff)
  have en: "r \<in> set ?rs \<Longrightarrow> enabled r \<and> action r = Allow" for r
    using allow unfolding set_rs by (auto simp: convert_to_fast_lookup_rule_def Action_get_def)
  show ?thesis
  proof (cases "matching_rule env ?rs pk")
    case None
    then have "\<forall>r\<in>set ?rs. \<not> rule_matches env r pk"
      using en by (auto simp: matching_rule_def find_None_iff)
    then show ?thesis
      using rules def None unfolding set_rs by (auto simp: decide_def default_result_def)
  next
    case (Some r)
    then have "r \<in> set ?rs" "rule_matches env r pk"
      using matching_rule_Some by blast+
    then show ?thesis
      using rules Some en unfolding set_rs by (auto simp: decide_def rule_result_def)
  qed
qed


lemma sample_ports:
  "parse_u16 ''80'' = Some 80" "parse_u16 ''8000'' = Some 8000" "parse_u16 ''8002'' = Some 8002"
  by (simp_all add: parse_u16_def is_digit_def)

lemma sample_port_specs: "parse_port_spec ''80'' = Inr ''80''" "parse_port_spec ''8000-8002'' = Inr ''8000-8002''"
proof -
  have "show_nat 80 = ''80''"
    by code_simp
  then show "parse_port_spec ''80'' = Inr ''80''"
    by (simp add: parse_port_spec_def sample_ports)
  show "parse_port_spec ''8000-8002'' = Inr ''8000-8002''"
    by (simp add: parse_port_spec_def sample_ports)
qed

lemma sample_port_ranges:
  "parse_port_range ''80'' = Some (80, 80)" "parse_port_range ''8000-8002'' = Some (8000, 8002)"
  by (simp_all add: parse_port_range_def split_once_def trim_def is_space_def sample_ports)


section \<open>A whitelist beside other rules\<close>

text \<open>
  A whitelist does not close the node when there is another inbound chain. If the
  configuration already has a chain of type inbound, even a disabled one, the default action for
  inbound packets stays that of the first such chain, and the default deny of the generated
  whitelist chain has no effect.
\<close>

theorem whitelist_default_not_applied:
  assumes "acl b = Some a0" and "acl_v1 a0 = Some v1"
    and "List.find (\<lambda>c. chain_chain_type c = ChainType_i32 Inbound) (chains v1) = Some c"
    and "tcp_whitelist b \<noteq> [] \<or> udp_whitelist b \<noteq> []" and "do_build chk b = Inr (Inr (Some a))"
  shows "default_action_for (AclProcessor_new env a) Inbound = Action_get (chain_default_action c)"
proof -
  obtain tp up p1 p2 where
    "Some a = Some (push_chain (inbound_whitelist_chain (whitelist_rules b p1 p2 tp up)) (acl b))"
    using do_build_rules [OF assms(4,5)] by (elim exE conjE)
  then show ?thesis
    using assms(1-3)
    by (simp add: push_chain_def default_action_for_def AclProcessor_new_def AclProcessor_new_with_shared_state_def
        build_default_actions_def default_action_of_def case_prod_beta find_append)
qed

theorem whitelist_default_not_applied_witness:
  defines "b \<equiv> \<lparr>acl = Some \<lparr>acl_v1 = Some \<lparr>chains = [sample_chain\<lparr>chain_enabled := False, chain_default_action := Action_i32 Allow\<rparr>],
      group = None\<rparr>\<rparr>, tcp_whitelist = [''8000-8002''], udp_whitelist = [], whitelist_priority = None\<rparr>"
  shows "\<exists>a. do_build True b = Inr (Inr (Some a)) \<and>
    default_action_for (AclProcessor_new sample_env a) Inbound = Allow"
proof -
  have "\<exists>a. do_build True b = Inr (Inr (Some a))"
    by (simp add: sample_port_specs do_build_def generate_acl_from_whitelists_def b_def usub_def Let_def)
  then obtain a where a: "do_build True b = Inr (Inr (Some a))" ..
  then show ?thesis
    using whitelist_default_not_applied [of b _ _ "sample_chain\<lparr>chain_enabled := False, chain_default_action := Action_i32 Allow\<rparr>" True a sample_env]
    by (simp add: b_def sample_chain_def Action_get_def)
qed

section \<open>Restrictions that do not parse\<close>

text \<open>
  A restriction of a rule that does not parse is dropped, not rejected. A rule whose source
  address ranges, destination address ranges, source ports or destination ports are all malformed
  matches exactly the packets that the rule without any of these matches: an allow rule for one
  misspelt network admits every address.
\<close>

theorem malformed_restriction_widens:
  assumes "\<forall>s\<in>set (source_ips r). cidr_from_str env s = None"
    and "\<forall>s\<in>set (destination_ips r). cidr_from_str env s = None"
    and "\<forall>s\<in>set (source_ports r). parse_port_range s = None" and "\<forall>s\<in>set (ports r). parse_port_range s = None"
  shows "rule_matches env (convert_to_fast_lookup_rule env sid r) pk =
    rule_matches env (convert_to_fast_lookup_rule env sid
      (r\<lparr>source_ips := [], destination_ips := [], source_ports := [], ports := []\<rparr>)) pk"
proof -
  have none: "\<forall>x\<in>set xs. f x = None \<Longrightarrow> List.map_filter f xs = []" for f :: "string \<Rightarrow> 'b option" and xs
    by (induction xs) (simp_all add: map_filter_simps)
  show ?thesis
    using assms
    by (simp add: rule_matches_def convert_to_fast_lookup_rule_def port_ranges_def convert_ip_inet_to_cidr_def
        none map_filter_simps split: option.split)
qed

theorem malformed_restriction_widens_witness:
  "rule_matches sample_env (convert_to_fast_lookup_rule sample_env DefaultStats
      ((sample_rule 5 0)\<lparr>source_ips := [''10.0.0.0/33''], ports := [''http'']\<rparr>)) sample_packet"
proof -
  have "parse_port_range ''http'' = None"
    by (simp add: parse_port_range_def split_once_def parse_u16_def is_digit_def trim_def is_space_def)
  then have "rule_matches sample_env (convert_to_fast_lookup_rule sample_env DefaultStats
      ((sample_rule 5 0)\<lparr>source_ips := [''10.0.0.0/33''], ports := [''http'']\<rparr>)) sample_packet =
    rule_matches sample_env (convert_to_fast_lookup_rule sample_env DefaultStats
      ((sample_rule 5 0)\<lparr>source_ips := [''10.0.0.0/33''], ports := [''http''],
         source_ips := [], destination_ips := [], source_ports := [], ports := []\<rparr>)) sample_packet"
    by (intro malformed_restriction_widens) (simp_all add: sample_env_def sample_rule_def)
  then show ?thesis
    by (simp add: rule_matches_def convert_to_fast_lookup_rule_def sample_rule_def Protocol_get_def sample_packet_def
        port_ranges_def map_filter_simps)
qed

end
