(* ===== verification/Acl_Filter.thy ===== *)
theory Acl_Filter
  imports Packet_Def Acl_Processor
begin

text \<open>
  The packet filter in front of access control, \<open>src/easytier/src/peers/acl_filter.rs\<close>: which packets
  of the virtual network are put before the rules, under which chain, what becomes of the answer,
  and the exchange of the rules at run time. The parsers of IP, TCP and UDP headers are pnet's and
  a parameter, \<open>pnet\<close>; each gives the fields the filter reads or nothing for a buffer it refuses.
  \<open>peer_groups\<close> is the route's \<open>get_peer_groups\<close>. The log has no effect on the verdict and is left out.
\<close>

section \<open>State and exchange of rules\<close>

record AclFilter =
  acl_processor :: AclProcessor
  acl_enabled :: bool
  quic_udp_port :: u16

definition AclFilter_new :: "acl_env \<Rightarrow> AclFilter" where
  "AclFilter_new env = \<lparr>acl_processor = AclProcessor_new env Acl_default, acl_enabled = False, quic_udp_port = 0\<rparr>"

definition reload_rules :: "acl_env \<Rightarrow> Acl option \<Rightarrow> AclFilter \<Rightarrow> AclFilter" where
  "reload_rules env acl_config f =
     (case acl_config of
        None \<Rightarrow> f\<lparr>acl_enabled := False\<rparr>
      | Some a \<Rightarrow>
          let (ct, rl, st) = get_shared_state (acl_processor f)
          in f\<lparr>acl_processor := AclProcessor_new_with_shared_state env a (Some ct) (Some rl) (Some st), acl_enabled := True\<rparr>)"

definition set_quic_udp_port :: "u16 \<Rightarrow> AclFilter \<Rightarrow> AclFilter" where
  "set_quic_udp_port port f = f\<lparr>quic_udp_port := port\<rparr>"

record AclStats =
  stats_global :: "AclStatKey \<rightharpoonup> u64"
  stats_conn_track :: "ConnTrackEntry list"
  stats_rules :: "(Rule \<times> u64 \<times> u64) list"

definition filter_get_stats :: "AclFilter \<Rightarrow> AclStats" where
  "filter_get_stats f =
     (let p = acl_processor f; (ct, rl, st) = get_shared_state p in
      \<lparr>stats_global = get_stats p, stats_conn_track = map snd ct, stats_rules = get_rules_stats p\<rparr>)"

section \<open>Reading a packet\<close>

record ip_view =
  iv_version :: u8
  iv_source :: IpAddr
  iv_destination :: IpAddr
  iv_protocol :: u8
  iv_payload :: bytes

record pnet =
  Ipv4Packet_new :: "bytes \<Rightarrow> ip_view option"
  Ipv6Packet_new :: "bytes \<Rightarrow> ip_view option"
  TcpPacket_new :: "bytes \<Rightarrow> (u16 \<times> u16) option"
  UdpPacket_new :: "bytes \<Rightarrow> (u16 \<times> u16) option"

definition ip_icmp :: u8 where "ip_icmp = 1"
definition ip_tcp :: u8 where "ip_tcp = 6"
definition ip_udp :: u8 where "ip_udp = 17"
definition ip_icmpv6 :: u8 where "ip_icmpv6 = 58"

lemmas ip_protocols = ip_icmp_def ip_tcp_def ip_udp_def ip_icmpv6_def

text \<open>The ports of a packet: none for protocols without ports, no packet info if the header is refused.\<close>

definition read_ports :: "pnet \<Rightarrow> ip_view \<Rightarrow> (u16 option \<times> u16 option) option" where
  "read_ports pn v =
     (if iv_protocol v = ip_tcp then map_option (\<lambda>(s, d). (Some s, Some d)) (TcpPacket_new pn (iv_payload v))
      else if iv_protocol v = ip_udp then map_option (\<lambda>(s, d). (Some s, Some d)) (UdpPacket_new pn (iv_payload v))
      else Some (None, None))"

definition acl_protocol :: "u8 \<Rightarrow> Protocol" where
  "acl_protocol p =
     (if p = ip_tcp then Tcp else if p = ip_udp then Udp else if p = ip_icmp then Icmp
      else if p = ip_icmpv6 then IcmPv6 else ProtoUnspecified)"

text \<open>The IP header: the version is read from what the IPv4 parser makes of the buffer.\<close>

definition read_ip :: "pnet \<Rightarrow> bytes \<Rightarrow> ip_view option" where
  "read_ip pn body =
     Option.bind (Ipv4Packet_new pn body) (\<lambda>v.
       if iv_version v = 4 then Some v else if iv_version v = 6 then Ipv6Packet_new pn body else None)"

definition extract_packet_info :: "pnet \<Rightarrow> (u32 \<Rightarrow> string list) \<Rightarrow> ZCPacket \<Rightarrow> PacketInfo option may_panic" where
  "extract_packet_info pn peer_groups packet =
     rbind (payload packet) (\<lambda>body.
       case Option.bind (read_ip pn body) (\<lambda>v. map_option (Pair v) (read_ports pn v)) of
         None \<Rightarrow> Inr None
       | Some (v, sp, dp) \<Rightarrow>
           rbind (get_src_peer_id packet) (\<lambda>src.
           rbind (get_dst_peer_id packet) (\<lambda>dst.
             Inr (Some \<lparr>src_ip = iv_source v, dst_ip = iv_destination v, src_port = sp, dst_port = dp,
               pk_protocol = acl_protocol (iv_protocol v), packet_size = length body,
               src_groups = (case src of Some p \<Rightarrow> peer_groups p | None \<Rightarrow> []),
               dst_groups = (case dst of Some p \<Rightarrow> peer_groups p | None \<Rightarrow> [])\<rparr>))))"

section \<open>Judging a packet\<close>

definition stat_of :: "Action \<Rightarrow> AclStatType" where
  "stat_of a = (case a of Allow \<Rightarrow> StatAllowed | Drop \<Rightarrow> StatDropped | Noop \<Rightarrow> StatNoop)"

definition handle_acl_result :: "AclResult \<Rightarrow> ChainType \<Rightarrow> AclProcessor \<Rightarrow> AclProcessor" where
  "handle_acl_result r ct p =
     (let p = increment_stat (Packets (stat_of (res_action r))) p;
          p = increment_stat (AclStatKey_from_chain_and_action ct (stat_of (res_action r))) p;
          p = increment_stat (AclStatKey_from_chain_and_action ct StatTotal) p
      in increment_stat (Packets StatTotal) p)"

text \<open>An address of this node; without an address of a kind, the unspecified one of that kind counts.\<close>

definition is_mine :: "u32 option \<Rightarrow> 128 word option \<Rightarrow> IpAddr \<Rightarrow> bool" where
  "is_mine my_ipv4 my_ipv6 ip \<longleftrightarrow>
     ip = V4 (case my_ipv4 of Some a \<Rightarrow> a | None \<Rightarrow> 0) \<or> ip = V6 (case my_ipv6 of Some a \<Rightarrow> a | None \<Rightarrow> 0)"

definition check_is_quic_packet :: "PacketInfo \<Rightarrow> u32 option \<Rightarrow> 128 word option \<Rightarrow> AclFilter \<Rightarrow> bool" where
  "check_is_quic_packet pk my_ipv4 my_ipv6 f =
     (if pk_protocol pk \<noteq> Udp then False
      else if quic_udp_port f = 0 then False
      else if dst_port pk = Some (quic_udp_port f) \<and> is_mine my_ipv4 my_ipv6 (dst_ip pk) then True
      else if src_port pk = Some (quic_udp_port f) \<and> is_mine my_ipv4 my_ipv6 (src_ip pk) then True
      else False)"

definition chain_for :: "bool \<Rightarrow> u32 option \<Rightarrow> 128 word option \<Rightarrow> PacketInfo \<Rightarrow> ChainType" where
  "chain_for is_in my_ipv4 my_ipv6 pk =
     (if is_in then if is_mine my_ipv4 my_ipv6 (dst_ip pk) then Inbound else Forward else Outbound)"

definition process_packet_with_acl ::
  "acl_env \<Rightarrow> pnet \<Rightarrow> (u32 \<Rightarrow> string list) \<Rightarrow> nat \<Rightarrow> u64 \<Rightarrow> ZCPacket \<Rightarrow> bool \<Rightarrow> u32 option \<Rightarrow> 128 word option \<Rightarrow>
     AclFilter \<Rightarrow> (bool \<times> AclFilter) may_panic" where
  "process_packet_with_acl env pn peer_groups now wall packet is_in my_ipv4 my_ipv6 f =
     (if \<not> acl_enabled f then Inr (True, f)
      else
        rbind (peer_manager_header packet) (\<lambda>hdr.
        rbind (unwrap hdr) (\<lambda>h.
          if hdr_packet_type h \<noteq> PacketType_u8 Data then Inr (True, f)
          else
            rbind (extract_packet_info pn peer_groups packet) (\<lambda>info.
              case info of
                None \<Rightarrow> Inr (True, f)
              | Some pk \<Rightarrow>
                  if check_is_quic_packet pk my_ipv4 my_ipv6 f then Inr (True, f)
                  else
                    let ct = chain_for is_in my_ipv4 my_ipv6 pk in
                    rbind (process_packet env now wall pk ct (acl_processor f)) (\<lambda>(r, p).
                      Inr (res_action r \<noteq> Drop, f\<lparr>acl_processor := handle_acl_result r ct p\<rparr>))))))"

section \<open>Reachable filters\<close>

text \<open>
  A filter after packets, exchanges of the rules, and the background work of its processor, at
  increasing times: \<open>a\<close> are the rules loaded last, \<open>on\<close> whether the filter is in force.
\<close>

inductive acl_filter_reach :: "acl_env \<Rightarrow> Acl \<Rightarrow> bool \<Rightarrow> nat \<Rightarrow> AclFilter \<Rightarrow> bool" for env where
  filter_new: "acl_filter_reach env Acl_default False t (AclFilter_new env)"
| filter_load: "acl_filter_reach env a on t f \<Longrightarrow> acl_filter_reach env b True t (reload_rules env (Some b) f)"
| filter_off: "acl_filter_reach env a on t f \<Longrightarrow> acl_filter_reach env a False t (reload_rules env None f)"
| filter_port: "acl_filter_reach env a on t f \<Longrightarrow> acl_filter_reach env a on t (set_quic_udp_port port f)"
| filter_packet: "acl_filter_reach env a on t f \<Longrightarrow> t \<le> now \<Longrightarrow>
    process_packet_with_acl env pn peer_groups now wall packet is_in my_ipv4 my_ipv6 f = Inr (v, f') \<Longrightarrow>
    acl_filter_reach env a on now f'"
| filter_tick: "acl_filter_reach env a on t f \<Longrightarrow> t \<le> t1 \<Longrightarrow> t1 \<le> t2 \<Longrightarrow> t2 \<le> t1 + 5000 \<Longrightarrow>
    acl_filter_reach env a on t2 (f\<lparr>acl_processor := cache_cleanup_tick t1 t2 (acl_processor f)\<rparr>)"
| filter_conn: "acl_filter_reach env a on t f \<Longrightarrow> conn_cleanup_tick chk wall (acl_processor f) = Inr p \<Longrightarrow>
    acl_filter_reach env a on t (f\<lparr>acl_processor := p\<rparr>)"
| filter_refill: "acl_filter_reach env a on t f \<Longrightarrow>
    acl_filter_reach env a on t (f\<lparr>acl_processor := bucket_refill tokens_for k us (acl_processor f)\<rparr>)"

lemma read_ports_protocol:
  "read_ports pn v = Some (sp, dp) \<Longrightarrow> (sp \<noteq> None \<longleftrightarrow> acl_protocol (iv_protocol v) \<in> {Tcp, Udp}) \<and> (dp \<noteq> None \<longleftrightarrow> sp \<noteq> None)"
  by (auto simp: read_ports_def acl_protocol_def ip_protocols split: if_splits)

lemma extracted_wf:
  assumes "extract_packet_info pn peer_groups packet = Inr (Some pk)"
  shows "wf_packet_info pk"
proof -
  obtain body where body: "payload packet = Inr body"
    using assms by (auto simp: extract_packet_info_def rbind_eq_Inr_iff)
  obtain v sp dp where view: "Option.bind (read_ip pn body) (\<lambda>v. map_option (Pair v) (read_ports pn v)) = Some (v, sp, dp)"
    using assms body by (cases "Option.bind (read_ip pn body) (\<lambda>v. map_option (Pair v) (read_ports pn v))")
      (auto simp: extract_packet_info_def)
  then have "read_ports pn v = Some (sp, dp)"
    by (auto simp: bind_eq_Some_conv)
  moreover have "src_port pk = sp" "dst_port pk = dp" "pk_protocol pk = acl_protocol (iv_protocol v)"
    using assms body view by (auto simp: extract_packet_info_def rbind_eq_Inr_iff)
  ultimately show ?thesis
    using read_ports_protocol [of pn v sp dp] by (simp add: wf_packet_info_def)
qed

text \<open>What a packet before the rules does to the filter.\<close>

lemma filter_run_eq:
  assumes "acl_enabled f" and "peer_manager_header packet = Inr (Some h)" and "hdr_packet_type h = PacketType_u8 Data"
    and "extract_packet_info pn peer_groups packet = Inr info"
  shows "process_packet_with_acl env pn peer_groups now wall packet is_in my_ipv4 my_ipv6 f =
    (case info of
       None \<Rightarrow> Inr (True, f)
     | Some pk \<Rightarrow>
         if check_is_quic_packet pk my_ipv4 my_ipv6 f then Inr (True, f)
         else rbind (process_packet env now wall pk (chain_for is_in my_ipv4 my_ipv6 pk) (acl_processor f)) (\<lambda>(r, p).
           Inr (res_action r \<noteq> Drop, f\<lparr>acl_processor := handle_acl_result r (chain_for is_in my_ipv4 my_ipv6 pk) p\<rparr>)))"
  using assms unfolding process_packet_with_acl_def Let_def by (simp add: unwrap_def)

lemma process_packet_with_acl_cases:
  assumes "process_packet_with_acl env pn peer_groups now wall packet is_in my_ipv4 my_ipv6 f = Inr (v, f')"
  obtains "v" "f' = f"
  | pk r p where "acl_enabled f" "extract_packet_info pn peer_groups packet = Inr (Some pk)" "\<not> check_is_quic_packet pk my_ipv4 my_ipv6 f"
      "process_packet env now wall pk (chain_for is_in my_ipv4 my_ipv6 pk) (acl_processor f) = Inr (r, p)"
      "v \<longleftrightarrow> res_action r \<noteq> Drop"
      "f' = f\<lparr>acl_processor := handle_acl_result r (chain_for is_in my_ipv4 my_ipv6 pk) p\<rparr>"
proof -
  let ?run = "process_packet_with_acl env pn peer_groups now wall packet is_in my_ipv4 my_ipv6 f"
  consider "v \<and> f' = f" | h info where "acl_enabled f" "peer_manager_header packet = Inr (Some h)"
      "hdr_packet_type h = PacketType_u8 Data" "extract_packet_info pn peer_groups packet = Inr info"
    using assms by (auto simp: process_packet_with_acl_def rbind_eq_Inr_iff unwrap_def split: if_splits option.splits)
  then show ?thesis
  proof cases
    case 1
    then show ?thesis
      using that(1) by blast
  next
    case 2
    note run = filter_run_eq [OF 2, of env now wall is_in my_ipv4 my_ipv6]
    show ?thesis
    proof (cases "\<exists>pk. info = Some pk \<and> \<not> check_is_quic_packet pk my_ipv4 my_ipv6 f")
      case True
      then obtain pk where pk: "info = Some pk" "\<not> check_is_quic_packet pk my_ipv4 my_ipv6 f"
        by blast
      then obtain r p where r: "process_packet env now wall pk (chain_for is_in my_ipv4 my_ipv6 pk) (acl_processor f) = Inr (r, p)"
          "v \<longleftrightarrow> res_action r \<noteq> Drop" "f' = f\<lparr>acl_processor := handle_acl_result r (chain_for is_in my_ipv4 my_ipv6 pk) p\<rparr>"
        using assms unfolding run by (auto simp: rbind_eq_Inr_iff)
      show ?thesis
        by (rule that(2) [OF 2(1) 2(4) [unfolded pk(1)] pk(2) r])
    next
      case False
      then have "?run = Inr (True, f)"
        unfolding run by (cases info) auto
      then show ?thesis
        using assms that(1) by simp
    qed
  qed
qed

lemma handle_acl_result_frame [simp]:
  "static (handle_acl_result r ct p) = static p" "rule_cache (handle_acl_result r ct p) = rule_cache p"
  "rate_limiters (handle_acl_result r ct p) = rate_limiters p"
  by (simp_all add: handle_acl_result_def Let_def)

definition filter_inv :: "acl_env \<Rightarrow> Acl \<Rightarrow> bool \<Rightarrow> nat \<Rightarrow> AclFilter \<Rightarrow> bool" where
  "filter_inv env a on t f \<longleftrightarrow>
     acl_inv env t (acl_processor f) \<and> static (acl_processor f) = static (AclProcessor_new env a) \<and> acl_enabled f = on"

lemma filter_inv_later: "filter_inv env a on t f \<Longrightarrow> t \<le> now \<Longrightarrow> filter_inv env a on now f"
  using acl_inv_frame [of env t "acl_processor f" "acl_processor f" now] by (simp add: filter_inv_def)

lemma filter_inv_load:
  assumes "filter_inv env a on t f"
  shows "filter_inv env b True t (reload_rules env (Some b) f)"
proof -
  have "updates_before t (rate_limiters (acl_processor f))"
    using assms by (simp add: filter_inv_def acl_inv_def)
  then have "acl_reach env b t (acl_processor (reload_rules env (Some b) f))"
    using reach_new [where rl = "Some (rate_limiters (acl_processor f))"] by (simp add: reload_rules_def get_shared_state_def)
  from acl_reach_inv [OF this] show ?thesis
    by (simp add: filter_inv_def reload_rules_def get_shared_state_def)
qed

lemma filter_inv_packet:
  assumes "filter_inv env a on t f" and "t \<le> now"
    and "process_packet_with_acl env pn peer_groups now wall packet is_in my_ipv4 my_ipv6 f = Inr (v, f')"
  shows "filter_inv env a on now f'"
  using assms(3)
proof (cases rule: process_packet_with_acl_cases)
  case 1
  then show ?thesis
    using filter_inv_later [OF assms(1,2)] by simp
next
  case (2 pk r p)
  have "acl_inv env t (acl_processor f)"
    using assms(1) by (simp add: filter_inv_def)
  from process_packet_inv [OF this assms(2) extracted_wf [OF 2(2)], of wall "chain_for is_in my_ipv4 my_ipv6 pk"]
  have "acl_inv env now p" "static p = static (acl_processor f)"
    using 2(4) by auto
  then show ?thesis
    using acl_inv_frame [of env now p _ now] assms(1) 2(6) by (simp add: filter_inv_def)
qed

lemma acl_filter_reach_inv: "acl_filter_reach env a on t f \<Longrightarrow> filter_inv env a on t f"
proof (induction rule: acl_filter_reach.induct)
  case (filter_new t)
  have "acl_reach env Acl_default t (AclProcessor_new_with_shared_state env Acl_default None None None)"
    by (rule reach_new) (simp add: updates_before_def)
  from acl_reach_inv [OF this] show ?case
    by (simp add: filter_inv_def AclFilter_new_def AclProcessor_new_def)
next
  case (filter_tick a on t f t1 t2)
  moreover have "static (cache_cleanup_tick t1 t2 p) = static p" for p
    by (simp add: static_def cache_cleanup_tick_def)
  ultimately show ?case
    using acl_inv_tick [of env t "acl_processor f" t1 t2] by (simp add: filter_inv_def)
next
  case (filter_conn a on t f chk wall p)
  then show ?case
    using acl_inv_frame [of env t "acl_processor f" p t]
    by (auto simp: filter_inv_def conn_cleanup_tick_def rbind_eq_Inr_iff static_def)
next
  case (filter_refill a on t f tokens_for k us)
  moreover have "static (bucket_refill tokens_for k us p) = static p" for p
    by (simp add: static_def bucket_refill_def split: option.split)
  ultimately show ?case
    using acl_inv_refill by (simp add: filter_inv_def)
next
  case (filter_packet a on t f now pn peer_groups wall packet is_in my_ipv4 my_ipv6 v f')
  then show ?case
    using filter_inv_packet by blast
next
  case (filter_load a on t f b)
  then show ?case
    using filter_inv_load by blast
qed (simp_all add: filter_inv_def reload_rules_def set_quic_udp_port_def)

section \<open>The verdict\<close>

text \<open>The packet as it is put before the rules, if it is.\<close>

definition judged ::
  "pnet \<Rightarrow> (u32 \<Rightarrow> string list) \<Rightarrow> u32 option \<Rightarrow> 128 word option \<Rightarrow> AclFilter \<Rightarrow> PeerManagerHeader \<Rightarrow> ZCPacket \<Rightarrow> PacketInfo option" where
  "judged pn peer_groups my_ipv4 my_ipv6 f h packet =
     (if acl_enabled f \<and> hdr_packet_type h = PacketType_u8 Data
      then case extract_packet_info pn peer_groups packet of
             Inr (Some pk) \<Rightarrow> if check_is_quic_packet pk my_ipv4 my_ipv6 f then None else Some pk
           | _ \<Rightarrow> None
      else None)"

lemma extract_total:
  assumes "peer_manager_header packet = Inr (Some h)" and "payload packet = Inr body"
  shows "\<exists>info. extract_packet_info pn peer_groups packet = Inr info"
  using assms by (auto simp: extract_packet_info_def get_src_peer_id_def get_dst_peer_id_def split: option.split)

text \<open>
  C25: The verdict of the filter. In every state the filter can reach, through packets, exchanges of
  the rules that hand over the tables of connections and rates, and background work, a packet with
  a header and a payload is judged without a panic. A packet that is not put before the rules
  passes and changes nothing. One that is put before them passes exactly when the rules
  loaded last do not drop it, under the chain of its direction and destination, unless it exceeds the rate limit of
  the rule it matches.
\<close>

theorem acl_filter_verdict:
  assumes "acl_filter_reach env a on t f" and "t \<le> now"
    and "peer_manager_header packet = Inr (Some h)" and "payload packet = Inr body"
  shows "\<exists>v f'. process_packet_with_acl env pn peer_groups now wall packet is_in my_ipv4 my_ipv6 f = Inr (v, f') \<and>
    acl_filter_reach env a on now f' \<and>
    (case judged pn peer_groups my_ipv4 my_ipv6 f h packet of
       None \<Rightarrow> v \<and> f' = f
     | Some pk \<Rightarrow>
         let ct = chain_for is_in my_ipv4 my_ipv6 pk; rules = AclProcessor_new env a in
         (v \<longleftrightarrow> res_action (decide env rules ct pk) \<noteq> Drop) \<or> (\<not> v \<and> (\<exists>r. limited_by_rule env rules ct pk r)))"
proof -
  have inv: "acl_inv env t (acl_processor f)" and st: "static (acl_processor f) = static (AclProcessor_new env a)"
    using acl_filter_reach_inv [OF assms(1)] by (simp_all add: filter_inv_def)
  obtain info where info: "extract_packet_info pn peer_groups packet = Inr info"
    using extract_total [OF assms(3,4)] by blast
  let ?run = "process_packet_with_acl env pn peer_groups now wall packet is_in my_ipv4 my_ipv6 f"
  show ?thesis
  proof (cases "judged pn peer_groups my_ipv4 my_ipv6 f h packet")
    case None
    then have "?run = Inr (True, f)"
      using assms(3) info by (auto simp: judged_def process_packet_with_acl_def unwrap_def split: if_splits option.splits)
    then show ?thesis
      using None filter_packet [OF assms(1,2)] by auto
  next
    case (Some pk)
    then have pk: "info = Some pk" "acl_enabled f" "hdr_packet_type h = PacketType_u8 Data" "\<not> check_is_quic_packet pk my_ipv4 my_ipv6 f"
      using info by (auto simp: judged_def split: if_splits option.splits)
    let ?ct = "chain_for is_in my_ipv4 my_ipv6 pk"
    obtain r p where r: "process_packet env now wall pk ?ct (acl_processor f) = Inr (r, p)"
        "r = decide env (acl_processor f) ?ct pk \<or> limited_by_rule env (acl_processor f) ?ct pk r"
      using process_packet_inv [OF inv assms(2) extracted_wf [OF info [unfolded pk(1)]]] by blast
    have lim: "limited_by_rule env (acl_processor f) ?ct pk r = limited_by_rule env (AclProcessor_new env a) ?ct pk r"
      by (simp add: limited_by_rule_def static_eqD(1) [OF st])
    have "limited_by_rule env (acl_processor f) ?ct pk r \<Longrightarrow> res_action r = Drop"
      by (auto simp: limited_by_rule_def rate_limit_drop_def)
    moreover have "?run = Inr (res_action r \<noteq> Drop, f\<lparr>acl_processor := handle_acl_result r ?ct p\<rparr>)"
      using assms(3) info pk r(1) by (simp add: process_packet_with_acl_def unwrap_def)
    ultimately show ?thesis
      using Some r(2) lim filter_packet [OF assms(1,2)] static_eqD(5) [OF st] by (auto simp: Let_def)
  qed
qed

section \<open>Counters\<close>

definition count :: "(AclStatKey \<rightharpoonup> u64) \<Rightarrow> AclStatKey \<Rightarrow> u64" where
  "count st k = (case st k of Some n \<Rightarrow> n | None \<Rightarrow> 0)"

text \<open>The counters of verdicts; the processor's own counters are about the cache and the rules.\<close>

definition verdict_counts :: "AclProcessor \<Rightarrow> AclStatKey \<Rightarrow> u64" where
  "verdict_counts p k = (case k of Packets s \<Rightarrow> count (stats p) k | ChainPackets ct s \<Rightarrow> count (stats p) k | _ \<Rightarrow> 0)"

lemma count_increment: "count (stats (increment_stat k p)) k' = count (stats p) k' + (if k' = k then 1 else 0)"
  by (simp add: count_def increment_stat_def split: option.split)

lemma verdict_counts_stats: "stats p' = stats p \<Longrightarrow> verdict_counts p' = verdict_counts p"
  by (auto simp: verdict_counts_def fun_eq_iff count_def split: AclStatKey.split)

lemma verdict_counts_own [simp]:
  "verdict_counts (increment_stat CacheHits p) = verdict_counts p" "verdict_counts (increment_stat RuleMatches p) = verdict_counts p"
  "verdict_counts (increment_stat DefaultAllows p) = verdict_counts p" "verdict_counts (increment_stat DefaultDrops p) = verdict_counts p"
  by (simp_all add: verdict_counts_def count_increment fun_eq_iff split: AclStatKey.split)

lemma verdict_counts_frame [simp]:
  "verdict_counts (inc_cache_entry_stats e pk p) = verdict_counts p" "verdict_counts (cache_result now k e p) = verdict_counts p"
  "verdict_counts (check_connection_state wall key pk p) = verdict_counts p"
  "verdict_counts (p\<lparr>rule_cache := c\<rparr>) = verdict_counts p" "verdict_counts (cache_cleanup_tick t1 t2 p) = verdict_counts p"
  "verdict_counts (bucket_refill tokens_for rk us p) = verdict_counts p"
  by (rule verdict_counts_stats; simp add: inc_cache_entry_stats_def cache_result_def check_connection_state_def
      cache_cleanup_tick_def bucket_refill_def Let_def split: option.split)+

lemma check_rate_limit_counts:
  "check_rate_limit now key rate burst cr p = Inr (ok, p') \<Longrightarrow> verdict_counts p' = verdict_counts p"
  by (rule verdict_counts_stats) (auto simp: check_rate_limit_def rbind_eq_Inr_iff case_prod_beta Let_def split: if_splits)

lemma check_rate_limit_keys_counts:
  "check_rate_limit_keys now ks p = Inr (ok, p') \<Longrightarrow> verdict_counts p' = verdict_counts p"
proof (induction ks arbitrary: p)
  case (Cons k ks)
  then obtain ok1 p1 where 1: "check_rate_limit now k 1 1 False p = Inr (ok1, p1)"
    by (auto simp: rbind_eq_Inr_iff)
  show ?case
    using Cons check_rate_limit_counts [OF 1] 1 by (auto split: if_splits)
qed simp

lemma process_rules_counts:
  "process_rules env now wall pk ct rs p = Inr (r, p') \<Longrightarrow> verdict_counts p' = verdict_counts p"
proof (induction rs)
  case (Cons rl rs)
  show ?case
  proof (cases "\<not> enabled rl \<or> \<not> rule_matches env rl pk")
    case False
    obtain ok p1 where 1: "(if rate_limit rl > 0 then check_rate_limit now (ct, priority rl) (rate_limit rl) (burst_limit rl) True p
        else Inr (True, p)) = Inr (ok, p1)"
      using Cons.prems False by (auto simp: rbind_eq_Inr_iff)
    then have "verdict_counts p1 = verdict_counts p"
      using check_rate_limit_counts by (auto split: if_splits)
    then show ?thesis
      using Cons.prems False 1 by (auto simp: Let_def split: if_splits)
  qed (use Cons in auto)
qed (auto simp: Let_def)

lemma process_packet_counts:
  assumes "process_packet env now wall pk ct p = Inr (r, p')"
  shows "verdict_counts p' = verdict_counts p"
proof (cases "map_of (rule_cache p) (AclCacheKey_from_packet_info pk ct)")
  case None
  then show ?thesis
    using assms process_rules_counts by (auto simp: process_packet_def split: option.splits)
next
  case (Some e)
  let ?p = "increment_stat CacheHits (p\<lparr>rule_cache := AList.update (AclCacheKey_from_packet_info pk ct) (e\<lparr>last_access := now\<rparr>) (rule_cache p)\<rparr>)"
  obtain ok p1 where 1: "check_rate_limit_keys now (rate_limit_keys e) ?p = Inr (ok, p1)"
    using assms Some by (auto simp: process_packet_def process_packet_with_cache_entry_def rbind_eq_Inr_iff Let_def)
  have "verdict_counts p1 = verdict_counts p"
    using check_rate_limit_keys_counts [OF 1] by simp
  then show ?thesis
    using assms Some 1 by (auto simp: process_packet_def process_packet_with_cache_entry_def rbind_eq_Inr_iff Let_def split: if_splits option.splits)
qed

text \<open>The books balance: what was judged was allowed, dropped or left alone, and fell under one of three chains.\<close>

definition balanced :: "(AclStatKey \<Rightarrow> u64) \<Rightarrow> bool" where
  "balanced c \<longleftrightarrow>
     (\<forall>ct. c (ChainPackets ct StatTotal) =
        c (ChainPackets ct StatAllowed) + c (ChainPackets ct StatDropped) + c (ChainPackets ct StatNoop)) \<and>
     (\<forall>s. c (Packets s) = c (ChainPackets Inbound s) + c (ChainPackets Outbound s) + c (ChainPackets Forward s))"

lemma balanced_handle:
  assumes "balanced (verdict_counts p)" and "ct \<in> {Inbound, Outbound, Forward}"
  shows "balanced (verdict_counts (handle_acl_result r ct p))"
  using assms by (cases "res_action r")
    (auto simp: balanced_def verdict_counts_def handle_acl_result_def Let_def count_increment AclStatKey_from_chain_and_action_def stat_of_def)

lemma acl_filter_reach_balanced: "acl_filter_reach env a on t f \<Longrightarrow> balanced (verdict_counts (acl_processor f))"
proof (induction rule: acl_filter_reach.induct)
  case (filter_packet a on t f now pn peer_groups wall packet is_in my_ipv4 my_ipv6 v f')
  from filter_packet.hyps(3) show ?case
  proof (cases rule: process_packet_with_acl_cases)
    case (2 pk r p)
    have "balanced (verdict_counts p)"
      using filter_packet.IH process_packet_counts [OF 2(4)] by simp
    then show ?thesis
      using balanced_handle [of p "chain_for is_in my_ipv4 my_ipv6 pk" r] 2(6) by (simp add: chain_for_def)
  qed (use filter_packet.IH in simp)
next
  case (filter_new t)
  then show ?case
    by (simp add: AclFilter_new_def AclProcessor_new_def AclProcessor_new_with_shared_state_def case_prod_beta balanced_def
        verdict_counts_def count_def)
next
  case (filter_load a on t f b)
  moreover have "stats (acl_processor (reload_rules env (Some b) f)) = stats (acl_processor f)"
    by (simp add: reload_rules_def get_shared_state_def AclProcessor_new_with_shared_state_def case_prod_beta)
  ultimately show ?case
    using verdict_counts_stats by metis
next
  case (filter_conn a on t f chk wall p)
  then have "stats p = stats (acl_processor f)"
    by (auto simp: conn_cleanup_tick_def rbind_eq_Inr_iff)
  from verdict_counts_stats [OF this] show ?case
    using filter_conn.IH by simp
qed (simp_all add: reload_rules_def set_quic_udp_port_def)

text \<open>
  C27: The counters the filter reports add up, across exchanges of the rules: the packets judged are
  those allowed, dropped and left alone, in total and for each chain, and every kind is the sum over
  the inbound, outbound and forward chain. (Modulo the width of the counters.)
\<close>

theorem acl_filter_counts_balance:
  assumes "acl_filter_reach env a on t f"
  shows "let c = count (stats_global (filter_get_stats f)) in
    c (Packets StatTotal) = c (Packets StatAllowed) + c (Packets StatDropped) + c (Packets StatNoop) \<and>
    (\<forall>ct. c (ChainPackets ct StatTotal) =
        c (ChainPackets ct StatAllowed) + c (ChainPackets ct StatDropped) + c (ChainPackets ct StatNoop)) \<and>
    (\<forall>s. c (Packets s) = c (ChainPackets Inbound s) + c (ChainPackets Outbound s) + c (ChainPackets Forward s))"
proof -
  have "count (stats_global (filter_get_stats f)) (Packets s) = verdict_counts (acl_processor f) (Packets s)"
    "count (stats_global (filter_get_stats f)) (ChainPackets ct s) = verdict_counts (acl_processor f) (ChainPackets ct s)" for ct s
    by (simp_all add: filter_get_stats_def get_shared_state_def get_stats_def verdict_counts_def count_def Let_def)
  then show ?thesis
    using acl_filter_reach_balanced [OF assms] by (simp add: Let_def balanced_def)
qed

section \<open>What the filter lets slip\<close>


text \<open>
  Loading rules with a changed rate limit does not change the rate. Buckets are handed over under
  chain and priority; while there is one, a packet that matches a rule of that priority in the new
  rules is charged to the old bucket, whose capacity and rate stay, and the limits of the new
  rule are not looked at.
\<close>

theorem reload_keeps_old_rate:
  assumes "rate_limiters (acl_processor f) (ct, priority rl) = Some v"
    and "rules_for (acl_processor (reload_rules env (Some b) f)) ct = Some rs" and "matching_rule env rs pk = Some rl"
    and "rate_limit rl > 0"
  shows "\<exists>r p'. process_packet env now wall pk ct (acl_processor (reload_rules env (Some b) f)) = Inr (r, p') \<and>
    rate_limiters p' (ct, priority rl) = Some \<lparr>token_bucket = snd (try_consume 1 (token_bucket v)), last_update = now\<rparr> \<and>
    config (snd (try_consume 1 (token_bucket v))) = config (token_bucket v) \<and>
    r = (if fst (try_consume 1 (token_bucket v)) then rule_result rl pk else rate_limit_drop (RulePriority (priority rl)))"
proof -
  let ?p = "acl_processor (reload_rules env (Some b) f)"
  have p: "rule_cache ?p = []" "rate_limiters ?p = rate_limiters (acl_processor f)"
    by (simp_all add: reload_rules_def get_shared_state_def AclProcessor_new_with_shared_state_def case_prod_beta)
  obtain ok tb where tc: "try_consume 1 (token_bucket v) = (ok, tb)"
    by (cases "try_consume 1 (token_bucket v)")
  let ?p1 = "?p\<lparr>rate_limiters := (rate_limiters ?p)((ct, priority rl) \<mapsto> \<lparr>token_bucket = tb, last_update = now\<rparr>)\<rparr>"
  have rl: "enabled rl" "rule_matches env rl pk" "rate_limit rl \<noteq> 0"
    using matching_rule_Some [OF assms(3)] assms(4) by auto
  have lim: "check_rate_limit now (ct, priority rl) (rate_limit rl) (burst_limit rl) True ?p = Inr (ok, ?p1)"
    using assms(1) p(2) rl(3) tc by (simp add: check_rate_limit_def)
  have "process_packet env now wall pk ct ?p = process_rules env now wall pk ct [rl] ?p"
    using p(1) assms(2,3) process_rules_match [of env now wall pk ct rs ?p] by (simp add: process_packet_def)
  moreover have "rate_limiters (check_connection_state wall key pk q) = rate_limiters q"
    "rate_limiters (increment_stat k q) = rate_limiters q" "rate_limiters (inc_cache_entry_stats e pk q) = rate_limiters q"
    "rate_limiters (cache_result now ck e q) = rate_limiters q" for key k e ck q
    by (simp_all add: check_connection_state_def increment_stat_def inc_cache_entry_stats_def cache_result_def Let_def)
  moreover have "config tb = config (token_bucket v)"
    using tc by (auto simp: try_consume_def split: if_splits)
  ultimately show ?thesis
    using lim rl assms(4) tc by (cases ok) (simp_all add: Let_def)
qed

section \<open>Examples\<close>

definition sample_pnet :: pnet where
  "sample_pnet =
     \<lparr>Ipv4Packet_new = \<lambda>b. if length b < 20 then None
        else Some \<lparr>iv_version = 4, iv_source = V4 1, iv_destination = V4 2, iv_protocol = ip_tcp, iv_payload = drop 20 b\<rparr>,
      Ipv6Packet_new = \<lambda>b. None, TcpPacket_new = \<lambda>b. if length b < 20 then None else Some (1000, 80), UdpPacket_new = \<lambda>b. None\<rparr>"

definition sample_hdr :: PeerManagerHeader where
  "sample_hdr = \<lparr>from_peer_id = 7, to_peer_id = 8, hdr_packet_type = 1, flags = 0, forward_counter = 1, reserved = 0, pm_len = 40\<rparr>"

definition sample_tcp :: "nat \<Rightarrow> ZCPacket" where
  "sample_tcp n = mk_packet DummyTunnel [] sample_hdr (replicate n 0)"

lemma sample_tcp_parts:
  "peer_manager_header (sample_tcp n) = Inr (Some sample_hdr)" "payload (sample_tcp n) = Inr (replicate n 0)"
  by (simp_all add: sample_tcp_def mk_payload mk_header)

text \<open>Rules that drop all inbound packets.\<close>

definition deny_acl :: Acl where
  "deny_acl = \<lparr>acl_v1 = Some \<lparr>chains = [sample_chain\<lparr>chain_rules := []\<rparr>], group = None\<rparr>\<rparr>"

definition deny_filter :: AclFilter where
  "deny_filter = reload_rules sample_env (Some deny_acl) (AclFilter_new sample_env)"

lemma deny_filter_reach: "acl_filter_reach sample_env deny_acl True 0 deny_filter"
  unfolding deny_filter_def by (rule filter_load, rule filter_new)

lemma deny_decides: "rules_for (AclProcessor_new sample_env deny_acl) Inbound = Some []"
  "default_action_for (AclProcessor_new sample_env deny_acl) Inbound = Drop"
  by (simp_all add: rules_for_def default_action_for_def AclProcessor_new_def AclProcessor_new_with_shared_state_def
      build_rules_def build_default_actions_def default_action_of_def deny_acl_def rules_of_type_def chain_lookup_rules_def
      sample_chain_def ChainType_get_def Action_get_def)

lemma sample_tcp_extract:
  "extract_packet_info sample_pnet (\<lambda>_. []) (sample_tcp 40) =
     Inr (Some \<lparr>src_ip = V4 1, dst_ip = V4 2, src_port = Some 1000, dst_port = Some 80, pk_protocol = Tcp, packet_size = 40,
       src_groups = [], dst_groups = []\<rparr>)"
  by (simp add: extract_packet_info_def sample_tcp_parts read_ip_def read_ports_def sample_pnet_def acl_protocol_def ip_protocols
      get_src_peer_id_def get_dst_peer_id_def)

lemma deny_filter_state: "acl_enabled deny_filter" "quic_udp_port deny_filter = 0"
  by (simp_all add: deny_filter_def reload_rules_def get_shared_state_def AclFilter_new_def)

theorem acl_filter_verdict_witness:
  "\<exists>f'. process_packet_with_acl sample_env sample_pnet (\<lambda>_. []) 5 0 (sample_tcp 40) True (Some 2) None deny_filter = Inr (False, f')"
proof -
  let ?pk = "\<lparr>src_ip = V4 1, dst_ip = V4 2, src_port = Some 1000, dst_port = Some 80, pk_protocol = Tcp, packet_size = 40,
       src_groups = [], dst_groups = []\<rparr>"
  have "judged sample_pnet (\<lambda>_. []) (Some 2) None deny_filter sample_hdr (sample_tcp 40) = Some ?pk"
    by (simp add: judged_def sample_tcp_extract check_is_quic_packet_def deny_filter_state sample_hdr_def)
  moreover have "chain_for True (Some 2) None ?pk = Inbound"
    by (simp add: chain_for_def is_mine_def)
  moreover have "res_action (decide sample_env (AclProcessor_new sample_env deny_acl) Inbound ?pk) = Drop"
    by (simp add: decide_def deny_decides matching_rule_def default_result_def)
  ultimately show ?thesis
    using acl_filter_verdict [OF deny_filter_reach _ sample_tcp_parts(1,2), of 5 sample_pnet "\<lambda>_. []" 0 40 True "Some 2" None]
    by (auto simp: Let_def)
qed

theorem acl_filter_counts_balance_witness:
  "let c = count (stats_global (filter_get_stats deny_filter)) in
     c (Packets StatTotal) = c (Packets StatAllowed) + c (Packets StatDropped) + c (Packets StatNoop)"
  using acl_filter_counts_balance [OF deny_filter_reach] by (simp add: Let_def)


text \<open>The rate-limited rule of \<open>sample_acl\<close> is loaded while its priority has a bucket with another rate.\<close>

definition limited_filter :: AclFilter where
  "limited_filter = (AclFilter_new sample_env)\<lparr>acl_processor := (AclProcessor_new sample_env sample_acl)
     \<lparr>rate_limiters := [(Inbound, 20) \<mapsto> \<lparr>token_bucket = TokenBucket_new 1 1 10, last_update = 0\<rparr>]\<rparr>\<rparr>"

theorem reload_keeps_old_rate_witness:
  "\<exists>r p'. process_packet sample_env 5 0 sample_packet Inbound (acl_processor (reload_rules sample_env (Some sample_acl) limited_filter)) = Inr (r, p') \<and>
     map_option (\<lambda>v. fill_rate (config (token_bucket v))) (rate_limiters p' (Inbound, 20)) = Some 1"
proof -
  let ?r = "convert_to_fast_lookup_rule sample_env (RuleStatsAt 0 1) (sample_rule 20 7)"
  have r: "priority ?r = 20" "rate_limit ?r > 0"
    by (simp_all add: convert_to_fast_lookup_rule_def sample_rule_def)
  have "static (acl_processor (reload_rules sample_env (Some sample_acl) limited_filter)) = static (AclProcessor_new sample_env sample_acl)"
    by (simp add: reload_rules_def get_shared_state_def static_new)
  note rules = static_eqD(1) [OF this, of Inbound, unfolded sample_rules]
  have "rate_limiters (acl_processor limited_filter) (Inbound, priority ?r) = Some \<lparr>token_bucket = TokenBucket_new 1 1 10, last_update = 0\<rparr>"
    by (simp only: r(1)) (simp add: limited_filter_def)
  from reload_keeps_old_rate [OF this rules sample_match r(2), of 5 0] show ?thesis
    by (auto simp: r(1) [unfolded One_nat_def] TokenBucket_new_def TokenBucket_new_from_cfg_def)
qed

end
