(* ===== verification/Versioned_Store.thy ===== *)
theory Versioned_Store
  imports Rust_Prelude
begin

text \<open>
  The contract the route synchronisation relies on: a table in which every key holds a value with
  a version, and an offered item replaces what is stored only when its version is greater. The
  interface is a labelled step relation (the label lists the items offered); its clients learn
  that versions never fall, that an offered item is not lost, and that stores which were offered
  the same items agree, whatever the order, grouping and repetition.
\<close>

definition newer :: "('v \<times> 'w::linorder) option \<Rightarrow> 'v \<times> 'w \<Rightarrow> ('v \<times> 'w) option" where
  "newer acc x = (case acc of None \<Rightarrow> Some x | Some y \<Rightarrow> if snd y < snd x then Some x else Some y)"

definition newest :: "('v \<times> 'w::linorder) option \<Rightarrow> ('v \<times> 'w) list \<Rightarrow> ('v \<times> 'w) option" where
  "newest acc xs = foldl newer acc xs"

definition items_for :: "'k \<Rightarrow> ('k \<times> 'v \<times> 'w) list \<Rightarrow> ('v \<times> 'w) list" where
  "items_for k xs = map snd (filter (\<lambda>i. fst i = k) xs)"

lemma newest_simps [simp]: "newest acc [] = acc" "newest acc (x # xs) = newest (newer acc x) xs"
  by (simp_all add: newest_def)

lemma newest_append: "newest acc (xs @ ys) = newest (newest acc xs) ys"
  by (simp add: newest_def)

lemma items_for_simps [simp]:
  "items_for k [] = []" "items_for k (x # xs) = (if fst x = k then snd x # items_for k xs else items_for k xs)"
  "items_for k (xs @ ys) = items_for k xs @ items_for k ys"
  by (simp_all add: items_for_def)

lemma in_items_for: "x \<in> set (items_for k xs) \<longleftrightarrow> (k, x) \<in> set xs"
  by (force simp: items_for_def)

lemma newest_Some:
  assumes "newest acc xs = Some x"
  shows "x \<in> set_option acc \<union> set xs" and "\<forall>y\<in>set_option acc \<union> set xs. snd y \<le> snd x"
proof -
  have "x \<in> set_option acc \<union> set xs \<and> (\<forall>y\<in>set_option acc \<union> set xs. snd y \<le> snd x)"
    using assms
  proof (induction xs arbitrary: acc)
    case (Cons a xs)
    then have "x \<in> set_option (newer acc a) \<union> set xs" and "\<forall>y\<in>set_option (newer acc a) \<union> set xs. snd y \<le> snd x"
      by auto
    then show ?case
      by (cases acc) (auto simp: newer_def split: if_splits)
  qed simp
  then show "x \<in> set_option acc \<union> set xs" and "\<forall>y\<in>set_option acc \<union> set xs. snd y \<le> snd x"
    by blast+
qed

lemma newest_None: "newest acc xs = None \<longleftrightarrow> acc = None \<and> xs = []"
proof (induction xs arbitrary: acc)
  case (Cons a xs)
  then show ?case
    by (auto simp: newer_def split: option.splits)
qed simp

text \<open>When a version names one value, the result depends on the set of items only.\<close>

lemma newest_unique:
  assumes "set_option acc \<union> set xs = set_option acc' \<union> set ys"
    and "\<forall>x\<in>set_option acc \<union> set xs. \<forall>y\<in>set_option acc \<union> set xs. snd x = snd y \<longrightarrow> x = y"
  shows "newest acc xs = newest acc' ys"
proof (cases "newest acc xs")
  case None
  then show ?thesis
    using assms(1) newest_None [of acc' ys] newest_None [of acc xs] by (cases acc') auto
next
  case (Some x)
  then have "newest acc' ys \<noteq> None"
    using assms(1) newest_None [of acc' ys] newest_Some(1) [OF Some] by auto
  then obtain y where y: "newest acc' ys = Some y"
    by blast
  have "snd x = snd y"
    using newest_Some [OF Some] newest_Some [OF y] assms(1) by (intro order_antisym) auto
  then show ?thesis
    using assms(2) newest_Some(1) [OF Some] newest_Some(1) [OF y] assms(1) Some y by auto
qed

text \<open>A sequence of steps, with everything that was offered in them.\<close>

inductive store_run :: "('s \<Rightarrow> 'i list \<Rightarrow> 's \<Rightarrow> bool) \<Rightarrow> 's \<Rightarrow> 'i list \<Rightarrow> 's \<Rightarrow> bool" for step where
  run_none: "store_run step s [] s"
| run_step: "store_run step s xs s' \<Longrightarrow> step s' ys s'' \<Longrightarrow> store_run step s (xs @ ys) s''"

locale versioned_store =
  fixes get :: "'s \<Rightarrow> 'k \<Rightarrow> ('v \<times> 'w::linorder) option"
    and step :: "'s \<Rightarrow> ('k \<times> 'v \<times> 'w) list \<Rightarrow> 's \<Rightarrow> bool"
  assumes get_step: "step s xs s' \<Longrightarrow> get s' k = newest (get s k) (items_for k xs)"
begin

lemma get_run: "store_run step s xs s' \<Longrightarrow> get s' k = newest (get s k) (items_for k xs)"
  by (induction rule: store_run.induct) (simp_all add: get_step newest_append)

lemma version_monotone:
  assumes "store_run step s xs s'" and "get s k = Some (v, n)"
  shows "\<exists>v' n'. get s' k = Some (v', n') \<and> n \<le> n' \<and> ((v', n') = (v, n) \<or> (k, v', n') \<in> set xs)"
proof -
  have "get s' k \<noteq> None"
    using get_run [OF assms(1), of k] assms(2) by (simp add: newest_None)
  then obtain v' n' where r: "get s' k = Some (v', n')"
    by fastforce
  then show ?thesis
    using newest_Some [of "get s k" "items_for k xs" "(v', n')"] get_run [OF assms(1), of k] assms(2)
    by (auto simp: in_items_for)
qed

lemma delivered:
  assumes "store_run step s xs s'" and "(k, v, n) \<in> set xs"
  shows "\<exists>v' n'. get s' k = Some (v', n') \<and> n \<le> n'"
proof -
  have x: "(v, n) \<in> set (items_for k xs)"
    using assms(2) by (simp add: in_items_for)
  then have "get s' k \<noteq> None"
    using get_run [OF assms(1), of k] by (auto simp: newest_None)
  then obtain v' n' where r: "get s' k = Some (v', n')"
    by fastforce
  then have "snd (v, n) \<le> snd (v', n')"
    using newest_Some(2) [of "get s k" "items_for k xs" "(v', n')"] get_run [OF assms(1), of k] x
    by (metis UnI2)
  then show ?thesis
    using r by auto
qed

lemma converges:
  assumes "store_run step s xs s'" and "store_run step t ys t'" and "get s k = None" and "get t k = None"
    and "set (items_for k xs) = set (items_for k ys)"
    and "\<forall>x\<in>set (items_for k xs). \<forall>y\<in>set (items_for k xs). snd x = snd y \<longrightarrow> x = y"
  shows "get s' k = get t' k"
  using get_run [OF assms(1), of k] get_run [OF assms(2), of k] assms(3-6)
    newest_unique [of None "items_for k xs" None "items_for k ys"] by simp

end

end
