(* ===== verification/Ospf_Info.thy ===== *)
theory Ospf_Info
  imports Versioned_Store Acl_Rules "HOL-Library.AList"
begin

text \<open>
  What a node knows about the network, the first part of
  \<open>src/easytier/src/peers/peer_ospf_route.rs\<close>: the messages of \<open>src/easytier/src/proto/peer_rpc.proto\<close>,
  a node's own entry, and the synchronised tables (peer infos, connections, foreign networks,
  trusted groups) with every operation that changes them. Concurrent maps are association lists
  with distinct keys, so that the order in which the code iterates over them is the order of the
  list, about which nothing is assumed. Times are nanoseconds since the epoch. Versions are 32-bit
  words that wrap as in the release build. The reflected messages that carry unknown fields are
  values of a type parameter, with the projection \<open>raw_peer_id\<close> that the code reads; the keyed hash
  of the group proofs is the parameter \<open>hmac\<close>.
\<close>

section \<open>Messages\<close>

type_synonym PeerId = u32
type_synonym Version = u32
type_synonym time = nat

record PeerFeatureFlag =
  is_public_server :: bool
  avoid_relay_data :: bool
  kcp_input :: bool
  no_relay_kcp :: bool
  support_conn_list_sync :: bool

record PeerGroupInfo =
  group_name :: string
  group_proof :: bytes

record Ipv6Inet =
  v6_address :: "(u32 \<times> u32 \<times> u32 \<times> u32) option"
  v6_network_length :: u32

record RoutePeerInfo =
  peer_id :: PeerId
  inst_id :: "(u32 \<times> u32 \<times> u32 \<times> u32) option"
  cost :: u32
  ipv4_addr :: "u32 option"
  proxy_cidrs :: "string list"
  hostname :: "string option"
  udp_stun_info :: u32
  last_update :: "time option"
  version :: Version
  easytier_version :: string
  feature_flag :: "PeerFeatureFlag option"
  peer_route_id :: u64
  network_length :: u32
  quic_port :: "u32 option"
  ipv6_addr :: "Ipv6Inet option"
  groups :: "PeerGroupInfo list"

record PeerIdVersion =
  idv_peer_id :: PeerId
  idv_version :: Version

record RouteConnBitmap =
  bm_peer_ids :: "PeerIdVersion list"
  bitmap :: bytes

record PeerConnInfo =
  conn_peer_id :: "PeerIdVersion option"
  connected_peer_ids :: "PeerId list"

type_synonym RouteConnPeerList = "PeerConnInfo list"

datatype ConnInfo = ConnBitmap RouteConnBitmap | ConnPeerList RouteConnPeerList

record ForeignNetworkRouteInfoKey =
  fk_peer_id :: PeerId
  fk_network_name :: string

record ForeignNetworkRouteInfoEntry =
  foreign_peer_ids :: "PeerId list"
  fe_last_update :: "time option"
  fe_version :: Version
  network_secret_digest :: bytes
  my_peer_id_for_this_network :: PeerId

type_synonym RouteForeignNetworkInfos =
  "(ForeignNetworkRouteInfoKey option \<times> ForeignNetworkRouteInfoEntry option) list"

datatype SyncRouteInfoError = DuplicatePeerId | Stopped

record SyncRouteInfoRequest =
  req_my_peer_id :: PeerId
  req_my_session_id :: u64
  req_is_initiator :: bool
  req_peer_infos :: "RoutePeerInfo list option"
  req_conn_info :: "ConnInfo option"
  req_foreign_network_infos :: "RouteForeignNetworkInfos option"

record SyncRouteInfoResponse =
  resp_is_initiator :: bool
  resp_session_id :: u64
  resp_error :: "SyncRouteInfoError option"

section \<open>A node's own entry\<close>

definition secs :: "nat \<Rightarrow> time" where
  "secs n = n * 1000000000"

definition UPDATE_PEER_INFO_PERIOD :: time where
  "UPDATE_PEER_INFO_PERIOD = secs 3600"

definition REMOVE_DEAD_PEER_INFO_AFTER :: time where
  "REMOVE_DEAD_PEER_INFO_AFTER = secs 3660"

text \<open>\<open>SystemTime::duration_since\<close> and \<open>elapsed\<close>: an error when the clock went back.\<close>

definition duration_since :: "time \<Rightarrow> time \<Rightarrow> time option" where
  "duration_since now t = (if t \<le> now then Some (now - t) else None)"

definition RoutePeerInfo_default :: RoutePeerInfo where
  "RoutePeerInfo_default =
     \<lparr>peer_id = 0, inst_id = None, cost = 0, ipv4_addr = None, proxy_cidrs = [], hostname = None, udp_stun_info = 0,
      last_update = None, version = 0, easytier_version = '''', feature_flag = None, peer_route_id = 0,
      network_length = 0, quic_port = None, ipv6_addr = None, groups = []\<rparr>"

definition RoutePeerInfo_new :: "string \<Rightarrow> time \<Rightarrow> RoutePeerInfo" where
  "RoutePeerInfo_new et_version now =
     \<lparr>peer_id = 0, inst_id = Some (0, 0, 0, 0), cost = 0, ipv4_addr = None, proxy_cidrs = [], hostname = None,
      udp_stun_info = 0, last_update = Some now, version = 0, easytier_version = et_version, feature_flag = None,
      peer_route_id = 0, network_length = 24, quic_port = None, ipv6_addr = None, groups = []\<rparr>"

text \<open>What the code reads from the global context of the node.\<close>

record global_ctx =
  ctx_id :: "u32 \<times> u32 \<times> u32 \<times> u32"
  ctx_ipv4 :: "(u32 \<times> u8) option"
  ctx_proxy_cidrs :: "(string option \<times> string) list"
  ctx_vpn_portal_cidr :: "string option"
  ctx_hostname :: string
  ctx_udp_nat_type :: u32
  ctx_feature_flags :: PeerFeatureFlag
  ctx_quic_proxy_port :: "u16 option"
  ctx_ipv6 :: "Ipv6Inet option"
  ctx_acl :: "Acl option"
  ctx_easytier_version :: string

text \<open>Group proofs: a keyed hash of the group's name, a zero byte and the peer id.\<close>

definition as_bytes :: "string \<Rightarrow> bytes" where
  "as_bytes s = map (\<lambda>c. of_nat (of_char c)) s"

definition be32 :: "u32 \<Rightarrow> bytes" where
  "be32 w = map (\<lambda>i. ucast (drop_bit (24 - 8 * i) w)) [0..<4]"

definition data_to_sign :: "string \<Rightarrow> PeerId \<Rightarrow> bytes" where
  "data_to_sign name p = as_bytes name @ [0] @ be32 p"

definition generate_with_proof :: "(bytes \<Rightarrow> bytes \<Rightarrow> bytes) \<Rightarrow> string \<Rightarrow> string \<Rightarrow> PeerId \<Rightarrow> PeerGroupInfo" where
  "generate_with_proof hmac name secret p =
     \<lparr>group_name = name, group_proof = hmac (as_bytes secret) (data_to_sign name p)\<rparr>"

definition verify :: "(bytes \<Rightarrow> bytes \<Rightarrow> bytes) \<Rightarrow> PeerGroupInfo \<Rightarrow> string \<Rightarrow> PeerId \<Rightarrow> bool" where
  "verify hmac g secret p \<longleftrightarrow> hmac (as_bytes secret) (data_to_sign (group_name g) p) = group_proof g"

definition acl_group :: "global_ctx \<Rightarrow> GroupInfo option" where
  "acl_group ctx = Option.bind (ctx_acl ctx) (\<lambda>a. Option.bind (acl_v1 a) group)"

definition get_acl_groups :: "(bytes \<Rightarrow> bytes \<Rightarrow> bytes) \<Rightarrow> global_ctx \<Rightarrow> PeerId \<Rightarrow> PeerGroupInfo list" where
  "get_acl_groups hmac ctx p =
     (case acl_group ctx of
        None \<Rightarrow> []
      | Some g \<Rightarrow> map (\<lambda>(name, secret). generate_with_proof hmac name secret p)
          (filter (\<lambda>(name, secret). name \<in> set (members g)) (declares g)))"

definition get_acl_group_declarations :: "global_ctx \<Rightarrow> (string \<times> string) list" where
  "get_acl_group_declarations ctx = (case acl_group ctx of None \<Rightarrow> [] | Some g \<Rightarrow> declares g)"

definition my_info ::
  "(bytes \<Rightarrow> bytes \<Rightarrow> bytes) \<Rightarrow> global_ctx \<Rightarrow> PeerId \<Rightarrow> u64 \<Rightarrow> RoutePeerInfo \<Rightarrow> RoutePeerInfo" where
  "my_info hmac ctx my_peer_id route_id self =
     \<lparr>peer_id = my_peer_id, inst_id = Some (ctx_id ctx), cost = 0, ipv4_addr = map_option fst (ctx_ipv4 ctx),
      proxy_cidrs =
        map (\<lambda>(mapped, cidr). case mapped of Some m \<Rightarrow> m | None \<Rightarrow> cidr) (ctx_proxy_cidrs ctx) @
        (case ctx_vpn_portal_cidr ctx of Some c \<Rightarrow> [c] | None \<Rightarrow> []),
      hostname = Some (ctx_hostname ctx), udp_stun_info = ctx_udp_nat_type ctx,
      last_update = last_update self, version = version self,
      easytier_version = ctx_easytier_version ctx, feature_flag = Some (ctx_feature_flags ctx),
      peer_route_id = route_id,
      network_length = (case ctx_ipv4 ctx of Some (a, n) \<Rightarrow> ucast n | None \<Rightarrow> 24),
      quic_port = map_option ucast (ctx_quic_proxy_port ctx), ipv6_addr = ctx_ipv6 ctx,
      groups = get_acl_groups hmac ctx my_peer_id\<rparr>"

definition need_update_periodically :: "time \<Rightarrow> time option \<Rightarrow> bool" where
  "need_update_periodically now t =
     (case duration_since now (case t of Some t \<Rightarrow> t | None \<Rightarrow> 0) of
        Some d \<Rightarrow> d > UPDATE_PEER_INFO_PERIOD | None \<Rightarrow> True)"

definition update_self ::
  "(bytes \<Rightarrow> bytes \<Rightarrow> bytes) \<Rightarrow> time \<Rightarrow> global_ctx \<Rightarrow> PeerId \<Rightarrow> u64 \<Rightarrow> RoutePeerInfo \<Rightarrow> RoutePeerInfo" where
  "update_self hmac now ctx my_peer_id route_id self =
     (let new = my_info hmac ctx my_peer_id route_id self in
      if new \<noteq> self \<or> need_update_periodically now (last_update new)
      then new\<lparr>last_update := Some now, version := version new + 1\<rparr> else new)"

section \<open>The synchronised tables\<close>

record 'r SyncedRouteInfo =
  peer_infos :: "(PeerId \<times> RoutePeerInfo) list"
  raw_peer_infos :: "(PeerId \<times> 'r) list"
  conn_map :: "(PeerId \<times> PeerId set \<times> Version) list"
  foreign_network :: "(ForeignNetworkRouteInfoKey \<times> ForeignNetworkRouteInfoEntry) list"
  group_trust_map :: "(PeerId \<times> (string \<times> bytes) list) list"
  group_trust_map_cache :: "(PeerId \<times> string list) list"
  synced_version :: Version

definition SyncedRouteInfo_empty :: "'r SyncedRouteInfo" where
  "SyncedRouteInfo_empty =
     \<lparr>peer_infos = [], raw_peer_infos = [], conn_map = [], foreign_network = [], group_trust_map = [],
      group_trust_map_cache = [], synced_version = 0\<rparr>"

definition inc_version :: "'r SyncedRouteInfo \<Rightarrow> 'r SyncedRouteInfo" where
  "inc_version s = s\<lparr>synced_version := synced_version s + 1\<rparr>"

definition inc_if :: "bool \<Rightarrow> 'r SyncedRouteInfo \<Rightarrow> 'r SyncedRouteInfo" where
  "inc_if need s = (if need then inc_version s else s)"

text \<open>\<open>AtomicVersion::set_if_larger\<close>: the new value and whether it was set.\<close>

definition set_if_larger :: "Version \<Rightarrow> Version \<Rightarrow> Version \<times> bool" where
  "set_if_larger v cur = (max cur v, cur < v)"

definition get_connected_peers :: "PeerId \<Rightarrow> 'r SyncedRouteInfo \<Rightarrow> PeerId set option" where
  "get_connected_peers p s = map_option fst (map_of (conn_map s) p)"

definition remove_peer :: "PeerId \<Rightarrow> 'r SyncedRouteInfo \<Rightarrow> 'r SyncedRouteInfo" where
  "remove_peer p s =
     inc_version (s\<lparr>peer_infos := AList.delete p (peer_infos s), raw_peer_infos := AList.delete p (raw_peer_infos s),
       conn_map := AList.delete p (conn_map s),
       foreign_network := filter (\<lambda>(k, e). fk_peer_id k \<noteq> p) (foreign_network s),
       group_trust_map := AList.delete p (group_trust_map s),
       group_trust_map_cache := AList.delete p (group_trust_map_cache s)\<rparr>)"

definition fill_one ::
  "string \<Rightarrow> time \<Rightarrow> PeerId \<Rightarrow> bool \<times> 'r SyncedRouteInfo \<Rightarrow> bool \<times> 'r SyncedRouteInfo" where
  "fill_one et_version now p ns =
     (case ns of (need, s) \<Rightarrow>
        let (need, s) = (if map_of (peer_infos s) p = None
              then (True, s\<lparr>peer_infos := AList.update p (RoutePeerInfo_new et_version now) (peer_infos s)\<rparr>)
              else (need, s))
        in if map_of (conn_map s) p = None
           then (True, s\<lparr>conn_map := AList.update p ({}, 0) (conn_map s)\<rparr>) else (need, s))"

definition fill_empty_peer_info :: "string \<Rightarrow> time \<Rightarrow> PeerId set \<Rightarrow> 'r SyncedRouteInfo \<Rightarrow> 'r SyncedRouteInfo" where
  "fill_empty_peer_info et_version now ids s =
     (let (need, s) = fold (fill_one et_version now) (sorted_list_of_set ids) (False, s) in inc_if need s)"

definition get_peer_info_version_with_default :: "PeerId \<Rightarrow> 'r SyncedRouteInfo \<Rightarrow> Version" where
  "get_peer_info_version_with_default p s = (case map_of (peer_infos s) p of Some i \<Rightarrow> version i | None \<Rightarrow> 0)"

definition get_avoid_relay_data :: "PeerId \<Rightarrow> 'r SyncedRouteInfo \<Rightarrow> bool" where
  "get_avoid_relay_data p s =
     (case Option.bind (map_of (peer_infos s) p) feature_flag of Some f \<Rightarrow> avoid_relay_data f | None \<Rightarrow> False)"

definition check_duplicate_peer_id ::
  "PeerId \<Rightarrow> u64 \<Rightarrow> PeerId \<Rightarrow> u64 option \<Rightarrow> RoutePeerInfo \<Rightarrow> 'r SyncedRouteInfo \<Rightarrow>
     (SyncRouteInfoError + unit) may_panic" where
  "check_duplicate_peer_id my_peer_id my_peer_route_id dst_peer_id dst_peer_route_id info s =
     (if peer_id info = my_peer_id then
        if peer_route_id info \<noteq> my_peer_route_id \<and>
           version info > get_peer_info_version_with_default (peer_id info) s
        then Inl ExplicitPanic else Inr (Inr ())
      else if peer_id info = dst_peer_id then
        (case dst_peer_route_id of
           None \<Rightarrow> Inr (Inr ())
         | Some rid \<Rightarrow>
             if rid \<noteq> peer_route_id info \<and> version info < get_peer_info_version_with_default (peer_id info) s
             then Inr (Inl DuplicatePeerId) else Inr (Inr ()))
      else Inr (Inr ()))"

definition store_info ::
  "RoutePeerInfo \<Rightarrow> 'r \<Rightarrow> bool \<times> 'r SyncedRouteInfo \<Rightarrow> bool \<times> 'r SyncedRouteInfo" where
  "store_info info raw ns =
     (case ns of (need, s) \<Rightarrow>
        if (case map_of (peer_infos s) (peer_id info) of Some old \<Rightarrow> version info > version old | None \<Rightarrow> True)
        then (True, s\<lparr>raw_peer_infos := AList.update (peer_id info) raw (raw_peer_infos s),
                      peer_infos := AList.update (peer_id info) info (peer_infos s)\<rparr>)
        else (need, s))"

fun update_infos_loop ::
  "('r \<Rightarrow> u32) \<Rightarrow> time \<Rightarrow> PeerId \<Rightarrow> u64 \<Rightarrow> PeerId \<Rightarrow> 'r list \<Rightarrow> nat \<Rightarrow> RoutePeerInfo list \<Rightarrow>
     bool \<times> 'r SyncedRouteInfo \<Rightarrow> ((SyncRouteInfoError + unit) \<times> bool \<times> 'r SyncedRouteInfo) may_panic" where
  "update_infos_loop raw_peer_id now my_peer_id my_peer_route_id dst_peer_id raws idx [] ns = Inr (Inr (), ns)"
| "update_infos_loop raw_peer_id now my_peer_id my_peer_route_id dst_peer_id raws idx (info # infos) ns =
     rbind (if idx < length raws then Inr (raws ! idx) else Inl IndexOutOfRange) (\<lambda>raw.
     rbind (check_duplicate_peer_id my_peer_id my_peer_route_id dst_peer_id
              (if peer_id info = dst_peer_id
               then map_option peer_route_id (map_of (peer_infos (snd ns)) dst_peer_id) else None) info (snd ns)) (\<lambda>r.
     case r of
       Inl e \<Rightarrow> Inr (Inl e, ns)
     | Inr _ \<Rightarrow>
         rbind (rassert (raw_peer_id raw = peer_id info) AssertionFailed) (\<lambda>_.
           update_infos_loop raw_peer_id now my_peer_id my_peer_route_id dst_peer_id raws (idx + 1) infos
             (store_info (info\<lparr>last_update := Some now\<rparr>) raw ns))))"

definition update_peer_infos ::
  "('r \<Rightarrow> u32) \<Rightarrow> time \<Rightarrow> PeerId \<Rightarrow> u64 \<Rightarrow> PeerId \<Rightarrow> RoutePeerInfo list \<Rightarrow> 'r list \<Rightarrow> 'r SyncedRouteInfo \<Rightarrow>
     ((SyncRouteInfoError + unit) \<times> 'r SyncedRouteInfo) may_panic" where
  "update_peer_infos raw_peer_id now my_peer_id my_peer_route_id dst_peer_id infos raws s =
     rbind (update_infos_loop raw_peer_id now my_peer_id my_peer_route_id dst_peer_id raws 0 infos (False, s))
       (\<lambda>(r, need, s). case r of Inl e \<Rightarrow> Inr (Inl e, s) | Inr _ \<Rightarrow> Inr (Inr (), inc_if need s))"

text \<open>The entry of one peer in the connection table, when its version is newer.\<close>

definition store_conn ::
  "PeerIdVersion \<Rightarrow> PeerId set \<Rightarrow> bool \<times> 'r SyncedRouteInfo \<Rightarrow> bool \<times> 'r SyncedRouteInfo" where
  "store_conn idv conn ns =
     (case ns of (need, s) \<Rightarrow>
        if (case map_of (conn_map s) (idv_peer_id idv) of Some (c, v) \<Rightarrow> idv_version idv > v | None \<Rightarrow> True)
        then (True, s\<lparr>conn_map := AList.update (idv_peer_id idv) (conn, idv_version idv) (conn_map s)\<rparr>)
        else (need, s))"

definition get_bit :: "bytes \<Rightarrow> nat \<Rightarrow> bool may_panic" where
  "get_bit bm idx = (if idx div 8 < length bm then Inr (bit (bm ! (idx div 8)) (idx mod 8)) else Inl IndexOutOfRange)"

fun connected_peers_loop :: "RouteConnBitmap \<Rightarrow> nat \<Rightarrow> (nat \<times> PeerIdVersion) list \<Rightarrow> PeerId set may_panic" where
  "connected_peers_loop cb peer_idx [] = Inr {}"
| "connected_peers_loop cb peer_idx ((idx, idv) # rest) =
     rbind (get_bit (bitmap cb) (peer_idx * length (bm_peer_ids cb) + idx)) (\<lambda>b.
     rbind (connected_peers_loop cb peer_idx rest) (\<lambda>ps.
       Inr (if b then insert (idv_peer_id idv) ps else ps)))"

definition bitmap_connected_peers :: "RouteConnBitmap \<Rightarrow> nat \<Rightarrow> PeerId set may_panic" where
  "bitmap_connected_peers cb peer_idx = connected_peers_loop cb peer_idx (enumerate 0 (bm_peer_ids cb))"

fun update_conn_map_loop ::
  "string \<Rightarrow> time \<Rightarrow> RouteConnBitmap \<Rightarrow> (nat \<times> PeerIdVersion) list \<Rightarrow> bool \<times> 'r SyncedRouteInfo \<Rightarrow>
     (bool \<times> 'r SyncedRouteInfo) may_panic" where
  "update_conn_map_loop et_version now cb [] ns = Inr ns"
| "update_conn_map_loop et_version now cb ((peer_idx, idv) # rest) ns =
     rbind (bitmap_connected_peers cb peer_idx) (\<lambda>conn.
       update_conn_map_loop et_version now cb rest
         (store_conn idv conn (fst ns, fill_empty_peer_info et_version now conn (snd ns))))"

definition update_conn_map ::
  "string \<Rightarrow> time \<Rightarrow> RouteConnBitmap \<Rightarrow> 'r SyncedRouteInfo \<Rightarrow> 'r SyncedRouteInfo may_panic" where
  "update_conn_map et_version now cb s =
     (let s = fill_empty_peer_info et_version now (set (map idv_peer_id (bm_peer_ids cb))) s in
      rbind (update_conn_map_loop et_version now cb (enumerate 0 (bm_peer_ids cb)) (False, s)) (\<lambda>(need, s).
        Inr (inc_if need s)))"

definition store_peer_conn ::
  "string \<Rightarrow> time \<Rightarrow> PeerConnInfo \<Rightarrow> bool \<times> 'r SyncedRouteInfo \<Rightarrow> bool \<times> 'r SyncedRouteInfo" where
  "store_peer_conn et_version now pc ns =
     (case conn_peer_id pc of
        None \<Rightarrow> ns
      | Some idv \<Rightarrow>
          let conn = set (connected_peer_ids pc) in
          store_conn idv conn (fst ns, fill_empty_peer_info et_version now conn (snd ns)))"

definition update_conn_peer_list ::
  "string \<Rightarrow> time \<Rightarrow> RouteConnPeerList \<Rightarrow> 'r SyncedRouteInfo \<Rightarrow> 'r SyncedRouteInfo" where
  "update_conn_peer_list et_version now pcs s =
     (let (need, s) = fold (store_peer_conn et_version now) pcs (False, s) in inc_if need s)"

definition update_conn_info ::
  "string \<Rightarrow> time \<Rightarrow> ConnInfo \<Rightarrow> 'r SyncedRouteInfo \<Rightarrow> 'r SyncedRouteInfo may_panic" where
  "update_conn_info et_version now ci s =
     (case ci of ConnBitmap cb \<Rightarrow> update_conn_map et_version now cb s
      | ConnPeerList pcs \<Rightarrow> Inr (update_conn_peer_list et_version now pcs s))"

definition store_foreign ::
  "time \<Rightarrow> ForeignNetworkRouteInfoKey option \<times> ForeignNetworkRouteInfoEntry option \<Rightarrow>
     'r SyncedRouteInfo \<Rightarrow> 'r SyncedRouteInfo" where
  "store_foreign now item s =
     (case item of
        (Some k, Some e) \<Rightarrow>
          let e = e\<lparr>fe_last_update := Some now\<rparr> in
          if (case map_of (foreign_network s) k of Some old \<Rightarrow> fe_version e > fe_version old | None \<Rightarrow> True)
          then s\<lparr>foreign_network := AList.update k e (foreign_network s)\<rparr> else s
      | _ \<Rightarrow> s)"

definition update_foreign_network :: "time \<Rightarrow> RouteForeignNetworkInfos \<Rightarrow> 'r SyncedRouteInfo \<Rightarrow> 'r SyncedRouteInfo" where
  "update_foreign_network now infos s = fold (store_foreign now) infos s"

section \<open>The node's own entries in the tables\<close>

definition update_my_group_trusts :: "PeerId \<Rightarrow> 'r SyncedRouteInfo \<Rightarrow> 'r SyncedRouteInfo" where
  "update_my_group_trusts my_peer_id s =
     (let info = (case map_of (peer_infos s) my_peer_id of Some i \<Rightarrow> i | None \<Rightarrow> RoutePeerInfo_default);
          s = s\<lparr>peer_infos := AList.update my_peer_id info (peer_infos s)\<rparr>
      in s\<lparr>group_trust_map := AList.update my_peer_id
             (fold (\<lambda>g. AList.update (group_name g) (group_proof g)) (groups info) []) (group_trust_map s),
           group_trust_map_cache := AList.update my_peer_id (map group_name (groups info)) (group_trust_map_cache s)\<rparr>)"

definition sync_my_peer_info ::
  "(bytes \<Rightarrow> bytes \<Rightarrow> bytes) \<Rightarrow> time \<Rightarrow> global_ctx \<Rightarrow> PeerId \<Rightarrow> u64 \<Rightarrow> 'r SyncedRouteInfo \<Rightarrow>
     bool \<times> 'r SyncedRouteInfo" where
  "sync_my_peer_info hmac now ctx my_peer_id my_peer_route_id s =
     (let old = (case map_of (peer_infos s) my_peer_id of Some i \<Rightarrow> i | None \<Rightarrow> RoutePeerInfo_default);
          new = update_self hmac now ctx my_peer_id my_peer_route_id old;
          s = s\<lparr>peer_infos := AList.update my_peer_id new (peer_infos s)\<rparr>
      in if version new \<noteq> version old then (True, inc_version (update_my_group_trusts my_peer_id s))
         else (False, s))"

definition sync_my_conn_info ::
  "string \<Rightarrow> time \<Rightarrow> PeerId \<Rightarrow> PeerId set \<Rightarrow> 'r SyncedRouteInfo \<Rightarrow> bool \<times> 'r SyncedRouteInfo" where
  "sync_my_conn_info et_version now my_peer_id connected s =
     (let s = fill_empty_peer_info et_version now connected s;
          (conn, v) = (case map_of (conn_map s) my_peer_id of Some e \<Rightarrow> e | None \<Rightarrow> ({}, 0))
      in if connected = conn then (False, s\<lparr>conn_map := AList.update my_peer_id (conn, v) (conn_map s)\<rparr>)
         else (True, inc_version (s\<lparr>conn_map := AList.update my_peer_id (connected, v + 1) (conn_map s)\<rparr>)))"

definition is_foreign_network_info_newer ::
  "ForeignNetworkRouteInfoEntry \<Rightarrow> ForeignNetworkRouteInfoEntry \<Rightarrow> bool option" where
  "is_foreign_network_info_newer next prev =
     (case (fe_last_update next, fe_last_update prev) of (Some a, Some b) \<Rightarrow> Some (a > b) | _ \<Rightarrow> None)"

text \<open>
  One foreign network of this node that is in the table already: renewed when it changed or is
  due, emptied when the node no longer has it. The result is the entry and whether it changed.
\<close>

definition renew_foreign ::
  "time \<Rightarrow> (ForeignNetworkRouteInfoKey \<times> ForeignNetworkRouteInfoEntry) list \<Rightarrow> ForeignNetworkRouteInfoKey \<Rightarrow>
     ForeignNetworkRouteInfoEntry \<Rightarrow> (ForeignNetworkRouteInfoEntry \<times> bool) may_panic" where
  "renew_foreign now fns k e =
     (let now_version = of_nat (now div 1000000000) in
      case map_of fns k of
        Some ne \<Rightarrow>
          rbind (rassert (foreign_peer_ids ne \<noteq> []) AssertionFailed) (\<lambda>_.
          case is_foreign_network_info_newer ne e of
            None \<Rightarrow> Inr (e, False)
          | Some is_newer \<Rightarrow>
              rbind (unwrap (fe_last_update e)) (\<lambda>t.
              if is_newer \<or> (case duration_since now t of Some d \<Rightarrow> d | None \<Rightarrow> 0) > UPDATE_PEER_INFO_PERIOD
              then Inr (ne\<lparr>fe_version := max (fe_version ne + 1) now_version\<rparr>, True)
              else Inr (e, False)))
      | None \<Rightarrow>
          if foreign_peer_ids e \<noteq> []
          then Inr (e\<lparr>foreign_peer_ids := [], fe_last_update := Some now, fe_version := max (fe_version e + 1) now_version\<rparr>, True)
          else Inr (e, False))"

fun renew_foreigns ::
  "time \<Rightarrow> PeerId \<Rightarrow> (ForeignNetworkRouteInfoKey \<times> ForeignNetworkRouteInfoEntry) list \<Rightarrow>
     (ForeignNetworkRouteInfoKey \<times> ForeignNetworkRouteInfoEntry) list \<Rightarrow>
     ((ForeignNetworkRouteInfoKey \<times> ForeignNetworkRouteInfoEntry) list \<times> bool) may_panic" where
  "renew_foreigns now my_peer_id fns [] = Inr ([], False)"
| "renew_foreigns now my_peer_id fns ((k, e) # rest) =
     rbind (if fk_peer_id k = my_peer_id then renew_foreign now fns k e else Inr (e, False)) (\<lambda>(e, u).
     rbind (renew_foreigns now my_peer_id fns rest) (\<lambda>(rest, u').
       Inr ((k, e) # rest, u \<or> u')))"

fun add_foreigns ::
  "time \<Rightarrow> (ForeignNetworkRouteInfoKey \<times> ForeignNetworkRouteInfoEntry) list \<Rightarrow>
     (ForeignNetworkRouteInfoKey \<times> ForeignNetworkRouteInfoEntry) list \<Rightarrow>
     (ForeignNetworkRouteInfoKey \<times> ForeignNetworkRouteInfoEntry) list may_panic" where
  "add_foreigns now [] tab = Inr tab"
| "add_foreigns now ((k, e) # rest) tab =
     rbind (rassert (foreign_peer_ids e \<noteq> []) AssertionFailed) (\<lambda>_.
       add_foreigns now rest
         (case map_of tab k of
            Some old \<Rightarrow> if fe_version e > fe_version old then AList.update k e tab else tab
          | None \<Rightarrow> AList.update k (e\<lparr>fe_version := of_nat (now div 1000000000)\<rparr>) tab))"

definition sync_my_foreign_network ::
  "time \<Rightarrow> PeerId \<Rightarrow> (ForeignNetworkRouteInfoKey \<times> ForeignNetworkRouteInfoEntry) list \<Rightarrow>
     'r SyncedRouteInfo \<Rightarrow> (bool \<times> 'r SyncedRouteInfo) may_panic" where
  "sync_my_foreign_network now my_peer_id fns s =
     rbind (renew_foreigns now my_peer_id fns (foreign_network s)) (\<lambda>(tab, u).
       let left = filter (\<lambda>(k, e). \<not> (fk_peer_id k = my_peer_id \<and> map_of (foreign_network s) k \<noteq> None)) fns in
       rbind (add_foreigns now left tab) (\<lambda>tab.
         let updated = (u \<or> left \<noteq> []) in
         Inr (updated, inc_if updated (s\<lparr>foreign_network := tab\<rparr>))))"

definition is_peer_bidirectly_connected :: "PeerId \<Rightarrow> PeerId \<Rightarrow> 'r SyncedRouteInfo \<Rightarrow> bool" where
  "is_peer_bidirectly_connected src dst s = (case map_of (conn_map s) src of Some (c, v) \<Rightarrow> dst \<in> c | None \<Rightarrow> False)"

definition is_peer_directly_connected :: "PeerId \<Rightarrow> PeerId \<Rightarrow> 'r SyncedRouteInfo \<Rightarrow> bool" where
  "is_peer_directly_connected src dst s \<longleftrightarrow>
     is_peer_bidirectly_connected src dst s \<or> is_peer_bidirectly_connected dst src s"

section \<open>Trusted groups\<close>

definition verify_group ::
  "(bytes \<Rightarrow> bytes \<Rightarrow> bytes) \<Rightarrow> (string \<rightharpoonup> string) \<Rightarrow> (string \<times> bytes) list option \<Rightarrow> PeerId \<Rightarrow> PeerGroupInfo \<Rightarrow>
     (string \<times> bytes) list \<Rightarrow> (string \<times> bytes) list" where
  "verify_group hmac declared old p g trusted =
     (if Option.bind old (\<lambda>o'. map_of o' (group_name g)) = Some (group_proof g)
      then AList.update (group_name g) (group_proof g) trusted
      else case declared (group_name g) of
          Some secret \<Rightarrow> if verify hmac g secret p then AList.update (group_name g) (group_proof g) trusted else trusted
        | None \<Rightarrow> trusted)"

definition verify_groups ::
  "(bytes \<Rightarrow> bytes \<Rightarrow> bytes) \<Rightarrow> (string \<rightharpoonup> string) \<Rightarrow> (string \<times> bytes) list option \<Rightarrow> RoutePeerInfo \<Rightarrow> (string \<times> bytes) list" where
  "verify_groups hmac declared old info = fold (verify_group hmac declared old (peer_id info)) (groups info) []"

definition update_group_trust ::
  "(bytes \<Rightarrow> bytes \<Rightarrow> bytes) \<Rightarrow> (string \<rightharpoonup> string) \<Rightarrow> RoutePeerInfo \<Rightarrow> 'r SyncedRouteInfo \<Rightarrow> 'r SyncedRouteInfo" where
  "update_group_trust hmac declared info s =
     (case map_of (group_trust_map s) (peer_id info) of
        Some old \<Rightarrow>
          let trusted = verify_groups hmac declared (Some old) info in
          if trusted = []
          then s\<lparr>group_trust_map := AList.delete (peer_id info) (group_trust_map s),
                 group_trust_map_cache := AList.delete (peer_id info) (group_trust_map_cache s)\<rparr>
          else s\<lparr>group_trust_map_cache := AList.update (peer_id info) (map fst trusted) (group_trust_map_cache s),
                 group_trust_map := AList.update (peer_id info) trusted (group_trust_map s)\<rparr>
      | None \<Rightarrow>
          let trusted = verify_groups hmac declared None info in
          if trusted \<noteq> []
          then s\<lparr>group_trust_map_cache := AList.update (peer_id info) (map fst trusted) (group_trust_map_cache s),
                 group_trust_map := AList.update (peer_id info) trusted (group_trust_map s)\<rparr>
          else s)"

definition verify_and_update_group_trusts ::
  "(bytes \<Rightarrow> bytes \<Rightarrow> bytes) \<Rightarrow> RoutePeerInfo list \<Rightarrow> (string \<times> string) list \<Rightarrow> 'r SyncedRouteInfo \<Rightarrow> 'r SyncedRouteInfo" where
  "verify_and_update_group_trusts hmac infos declarations s =
     fold (update_group_trust hmac (map_of (rev declarations))) infos s"

definition get_peer_groups :: "PeerId \<Rightarrow> 'r SyncedRouteInfo \<Rightarrow> string list" where
  "get_peer_groups p s = (case map_of (group_trust_map_cache s) p of Some gs \<Rightarrow> gs | None \<Rightarrow> [])"

end
