(* ===== verification/Ospf_Groups.thy ===== *)
theory Ospf_Groups
  imports Ospf_Info
begin

text \<open>
  Which groups a node believes a peer to be in: the group trusts kept by
  \<open>src/easytier/src/peers/peer_ospf_route.rs\<close> on the proofs of \<open>src/easytier/src/proto/peer_rpc.rs\<close>.
  The access control rules match on the result.
\<close>

section \<open>What is signed\<close>

lemma be32_inj: "be32 v = be32 w \<Longrightarrow> v = w"
proof -
  assume eq: "be32 v = be32 w"
  have "bit v n = bit w n" if n: "n < 32" for n
  proof -
    define i where "i = 3 - n div 8"
    have i: "i < 4" "24 - 8 * i = 8 * (n div 8)"
      using n by (auto simp: i_def)
    have "(ucast (drop_bit (24 - 8 * i) v) :: u8) = ucast (drop_bit (24 - 8 * i) w)"
      using eq i(1) by (auto simp: be32_def dest: arg_cong [where f = "\<lambda>l. l ! i"])
    then have "bit (ucast (drop_bit (24 - 8 * i) v) :: u8) (n mod 8) = bit (ucast (drop_bit (24 - 8 * i) w) :: u8) (n mod 8)"
      by simp
    then show ?thesis
      using n by (simp add: bit_ucast_iff bit_drop_bit_eq i(2))
  qed
  then show "v = w"
    by (intro bit_word_eqI) simp
qed

lemma as_bytes_inj: "as_bytes s = as_bytes t \<Longrightarrow> s = t"
proof -
  have "c = d" if "(of_nat (of_char c) :: u8) = of_nat (of_char d)" for c d :: char
  proof -
    have "(of_char c :: nat) < 256" "(of_char d :: nat) < 256"
      by simp_all
    then have "(of_char c :: nat) = of_char d"
      using that by (simp add: word_unat_eq_iff unat_of_nat)
    then show ?thesis
      by simp
  qed
  then have "inj (\<lambda>c. of_nat (of_char c) :: u8)"
    by (intro injI)
  then show "as_bytes s = as_bytes t \<Longrightarrow> s = t"
    by (simp add: as_bytes_def inj_map_eq_map)
qed

lemma data_to_sign_inj: "data_to_sign n p = data_to_sign m q \<longleftrightarrow> n = m \<and> p = q"
proof
  assume eq: "data_to_sign n p = data_to_sign m q"
  have len: "length (be32 w) = 4" for w
    by (simp add: be32_def)
  have "as_bytes n @ [0] = as_bytes m @ [0]" and "be32 p = be32 q"
    using eq append_eq_append_conv [of "be32 p" "be32 q" "as_bytes n @ [0]" "as_bytes m @ [0]"]
    by (simp_all add: data_to_sign_def len)
  then show "n = m \<and> p = q"
    using as_bytes_inj be32_inj by simp
qed simp

section \<open>Trust follows from proofs\<close>

definition proved :: "(bytes \<Rightarrow> bytes \<Rightarrow> bytes) \<Rightarrow> (string \<times> string) list \<Rightarrow> PeerId \<Rightarrow> string \<times> bytes \<Rightarrow> bool" where
  "proved hmac ds p g \<longleftrightarrow>
     (\<exists>secret. map_of (rev ds) (fst g) = Some secret \<and> hmac (as_bytes secret) (data_to_sign (fst g) p) = snd g)"

definition offered_proofs :: "RoutePeerInfo list \<Rightarrow> PeerId \<Rightarrow> (string \<times> bytes) set" where
  "offered_proofs infos p =
     {(group_name g, group_proof g) | g i. i \<in> set infos \<and> peer_id i = p \<and> g \<in> set (groups i)}"

definition trust_ok ::
  "(bytes \<Rightarrow> bytes \<Rightarrow> bytes) \<Rightarrow> (string \<times> string) list \<Rightarrow> RoutePeerInfo list \<Rightarrow> 'r SyncedRouteInfo \<Rightarrow> bool" where
  "trust_ok hmac ds infos s \<longleftrightarrow>
     (\<forall>p gs. map_of (group_trust_map s) p = Some gs \<longrightarrow>
        (\<forall>g\<in>set gs. proved hmac ds p g \<and> g \<in> offered_proofs infos p)) \<and>
     (\<forall>p. map_of (group_trust_map_cache s) p = map_option (map fst) (map_of (group_trust_map s) p))"

lemma verify_groups_proved:
  assumes "\<And>gs g. old = Some gs \<Longrightarrow> g \<in> set gs \<Longrightarrow> proved hmac ds (peer_id info) g"
    and "g \<in> set (verify_groups hmac (map_of (rev ds)) old info)"
  shows "proved hmac ds (peer_id info) g" and "\<exists>h\<in>set (groups info). g = (group_name h, group_proof h)"
proof -
  let ?f = "verify_group hmac (map_of (rev ds)) old (peer_id info)"
  let ?P = "\<lambda>g. proved hmac ds (peer_id info) g \<and> (\<exists>h\<in>set (groups info). g = (group_name h, group_proof h))"
  have one: "\<forall>g\<in>set (?f h acc). ?P g" if "\<forall>g\<in>set acc. ?P g" "h \<in> set (groups info)" for h acc
  proof -
    have sub: "set (AList.update (group_name h) (group_proof h) acc) \<subseteq> insert (group_name h, group_proof h) (set acc)"
      by (induction acc) auto
    have old: "proved hmac ds (peer_id info) (group_name h, group_proof h)"
      if "Option.bind old (\<lambda>o'. map_of o' (group_name h)) = Some (group_proof h)"
      using that assms(1) by (auto simp: bind_eq_Some_conv dest: map_of_SomeD)
    have "?f h acc = acc \<or> ?f h acc = AList.update (group_name h) (group_proof h) acc \<and>
        proved hmac ds (peer_id info) (group_name h, group_proof h)"
      using old by (auto simp: verify_group_def verify_def proved_def split: option.split)
    then show ?thesis
    proof (elim disjE conjE)
      assume "?f h acc = AList.update (group_name h) (group_proof h) acc"
        and "proved hmac ds (peer_id info) (group_name h, group_proof h)"
      then have "\<forall>g\<in>insert (group_name h, group_proof h) (set acc). ?P g" and "set (?f h acc) \<subseteq> insert (group_name h, group_proof h) (set acc)"
        using that sub by auto
      then show ?thesis
        by (meson subsetD)
    qed (use that in simp)
  qed
  have all: "\<forall>g\<in>set (fold ?f hs acc). ?P g" if "\<forall>g\<in>set acc. ?P g" "set hs \<subseteq> set (groups info)" for hs acc
    using that
  proof (induction hs arbitrary: acc)
    case (Cons h hs)
    have sub: "h \<in> set (groups info)" "set hs \<subseteq> set (groups info)"
      using Cons.prems(2) by simp_all
    show ?case
      using Cons.IH [OF one [OF Cons.prems(1) sub(1)] sub(2)] by simp
  qed simp
  have "?P g"
    using all [of "[]" "groups info"] assms(2) unfolding verify_groups_def by auto
  then show "proved hmac ds (peer_id info) g" and "\<exists>h\<in>set (groups info). g = (group_name h, group_proof h)"
    by blast+
qed

lemma offered_proofs_mono: "set infos \<subseteq> set infos' \<Longrightarrow> offered_proofs infos p \<subseteq> offered_proofs infos' p"
  by (auto simp: offered_proofs_def)

lemma update_group_trust_ok:
  assumes ok: "trust_ok hmac ds infos s"
  shows "trust_ok hmac ds (infos @ [i]) (update_group_trust hmac (map_of (rev ds)) i s)"
proof -
  let ?tr = "verify_groups hmac (map_of (rev ds)) (map_of (group_trust_map s) (peer_id i)) i"
  let ?s = "update_group_trust hmac (map_of (rev ds)) i s"
  have new: "proved hmac ds (peer_id i) g \<and> g \<in> offered_proofs (infos @ [i]) (peer_id i)" if "g \<in> set ?tr" for g
    using verify_groups_proved [OF _ that] ok by (fastforce simp: trust_ok_def offered_proofs_def)
  have eq: "map_of (group_trust_map ?s) = (map_of (group_trust_map s))(peer_id i := if ?tr = [] then None else Some ?tr) \<and>
      map_of (group_trust_map_cache ?s) =
        (map_of (group_trust_map_cache s))(peer_id i := if ?tr = [] then None else Some (map fst ?tr))"
  proof (cases "map_of (group_trust_map s) (peer_id i)")
    case None
    moreover have "map_of (group_trust_map_cache s) (peer_id i) = None"
      using ok None by (simp add: trust_ok_def)
    ultimately show ?thesis
      by (auto simp: update_group_trust_def Let_def update_conv' fun_eq_iff)
  next
    case (Some old)
    then show ?thesis
      by (auto simp: update_group_trust_def Let_def update_conv' delete_conv' fun_eq_iff)
  qed
  have "proved hmac ds p g \<and> g \<in> offered_proofs (infos @ [i]) p"
    if "map_of (group_trust_map ?s) p = Some gs" "g \<in> set gs" for p gs g
  proof (cases "p = peer_id i")
    case True
    then show ?thesis
      using that new eq by (auto split: if_splits)
  next
    case False
    then have "map_of (group_trust_map s) p = Some gs"
      using that eq by simp
    then show ?thesis
      using ok that(2) offered_proofs_mono [of infos "infos @ [i]" p] by (auto simp: trust_ok_def)
  qed
  moreover have "map_of (group_trust_map_cache ?s) p = map_option (map fst) (map_of (group_trust_map ?s) p)" for p
    using ok eq by (simp add: trust_ok_def)
  ultimately show ?thesis
    unfolding trust_ok_def by blast
qed

lemma verify_and_update_trust_ok:
  "trust_ok hmac ds infos s \<Longrightarrow> trust_ok hmac ds (infos @ is) (verify_and_update_group_trusts hmac is ds s)"
  unfolding verify_and_update_group_trusts_def
proof (induction "is" arbitrary: infos s)
  case (Cons i "is")
  from Cons.IH [OF update_group_trust_ok [OF Cons.prems]] show ?case
    by simp
qed simp

section \<open>Which groups a peer is in\<close>

lemma verify_groups_names:
  assumes "\<And>gs g. old = Some gs \<Longrightarrow> g \<in> set gs \<Longrightarrow> proved hmac ds (peer_id info) g"
  shows "fst ` set (verify_groups hmac (map_of (rev ds)) old info) =
    group_name ` {g \<in> set (groups info). proved hmac ds (peer_id info) (group_name g, group_proof g)}"
proof -
  let ?f = "verify_group hmac (map_of (rev ds)) old (peer_id info)"
  let ?P = "\<lambda>g. proved hmac ds (peer_id info) (group_name g, group_proof g)"
  have old: "?P h" if "Option.bind old (\<lambda>o'. map_of o' (group_name h)) = Some (group_proof h)" for h
    using that assms by (auto simp: bind_eq_Some_conv dest: map_of_SomeD)
  have "?f h acc = (if ?P h then AList.update (group_name h) (group_proof h) acc else acc)" for h acc
    using old [of h] by (auto simp: verify_group_def verify_def proved_def split: option.split)
  then have one: "fst ` set (?f h acc) = (if ?P h then insert (group_name h) (fst ` set acc) else fst ` set acc)" for h acc
    by (simp add: dom_update)
  have "fst ` set (fold ?f hs acc) = fst ` set acc \<union> group_name ` {g \<in> set hs. ?P g}" for hs acc
    by (induction hs arbitrary: acc) (auto simp: one)
  then show ?thesis
    by (simp add: verify_groups_def)
qed

lemma trust_ok_empty: "trust_ok hmac ds [] SyncedRouteInfo_empty"
  by (simp add: trust_ok_def SyncedRouteInfo_empty_def)

lemma trust_ok_batches:
  "trust_ok hmac ds infos s \<Longrightarrow>
     trust_ok hmac ds (infos @ concat batches) (fold (\<lambda>is. verify_and_update_group_trusts hmac is ds) batches s)"
proof (induction batches arbitrary: infos s)
  case (Cons b batches)
  from Cons.IH [OF verify_and_update_trust_ok [OF Cons.prems, of b]] show ?case
    by simp
qed simp

lemma get_peer_groups_trust:
  "trust_ok hmac ds infos s \<Longrightarrow> set (get_peer_groups p s) = (case map_of (group_trust_map s) p of Some gs \<Rightarrow> fst ` set gs | None \<Rightarrow> {})"
  by (auto simp: trust_ok_def get_peer_groups_def split: option.splits)


end
