(* ===== verification/Graph_Algo.thy ===== *)
theory Graph_Algo
  imports Rust_Prelude
begin

text \<open>
  The shortest-path search of \<open>src/easytier/src/peers/graph_algo.rs\<close>: Dijkstra's algorithm that
  also records, for every node, the first hop of the path found and its number of edges. The
  graph is the function \<open>edges\<close> from a node to its outgoing edges (target and cost), which is all
  the code asks of it. The binary heap of the standard library returns an entry of least score
  and promises no order among equal ones, so the choice is the parameter \<open>pick\<close>. The loop is a
  partial function: that it returns is proved, not assumed.
\<close>

section \<open>The search\<close>

record 'n search =
  visited :: "'n set"
  scores :: "'n \<rightharpoonup> nat"
  first_hop :: "'n \<rightharpoonup> 'n \<times> nat"
  visit_next :: "(nat \<times> 'n) list"

definition heap_pop ::
  "((nat \<times> 'n) list \<Rightarrow> nat) \<Rightarrow> (nat \<times> 'n) list \<Rightarrow> ((nat \<times> 'n) \<times> (nat \<times> 'n) list) option" where
  "heap_pop pick q =
     (if q = [] then None else Some (q ! pick q, take (pick q) q @ drop (Suc (pick q)) q))"

definition record_next :: "'n \<Rightarrow> 'n \<Rightarrow> 'n \<Rightarrow> nat \<Rightarrow> 'n search \<Rightarrow> 'n search may_panic" where
  "record_next start node nxt next_score st =
     rbind (if node = start then Inr (nxt, 0) else unwrap (first_hop st node)) (\<lambda>hop.
       Inr (st\<lparr>scores := (scores st)(nxt \<mapsto> next_score),
               visit_next := (next_score, nxt) # visit_next st,
               first_hop := (first_hop st)(nxt \<mapsto> (fst hop, snd hop + 1))\<rparr>))"

definition relax_edge ::
  "bool \<Rightarrow> 'n \<Rightarrow> 'n \<Rightarrow> nat \<Rightarrow> 'n \<times> nat \<Rightarrow> 'n search \<Rightarrow> 'n search may_panic" where
  "relax_edge chk start node node_score e st =
     (case e of (nxt, cost) \<Rightarrow>
        if nxt \<in> visited st then Inr st
        else rbind (usize_add chk node_score cost) (\<lambda>next_score.
          case scores st nxt of
            Some old \<Rightarrow> if next_score < old then record_next start node nxt next_score st else Inr st
          | None \<Rightarrow> record_next start node nxt next_score st))"

fun relax_edges ::
  "bool \<Rightarrow> 'n \<Rightarrow> 'n \<Rightarrow> nat \<Rightarrow> ('n \<times> nat) list \<Rightarrow> 'n search \<Rightarrow> 'n search may_panic" where
  "relax_edges chk start node node_score [] st = Inr st"
| "relax_edges chk start node node_score (e # es) st =
     rbind (relax_edge chk start node node_score e st) (relax_edges chk start node node_score es)"

partial_function (option) dijkstra_loop ::
  "bool \<Rightarrow> ((nat \<times> 'n) list \<Rightarrow> nat) \<Rightarrow> ('n \<Rightarrow> ('n \<times> nat) list) \<Rightarrow> 'n \<Rightarrow> 'n search \<Rightarrow> 'n search may_panic option" where
  "dijkstra_loop chk pick edges start st =
     (case heap_pop pick (visit_next st) of
        None \<Rightarrow> Some (Inr st)
      | Some ((node_score, node), q) \<Rightarrow>
          if node \<in> visited st then dijkstra_loop chk pick edges start (st\<lparr>visit_next := q\<rparr>)
          else (case relax_edges chk start node node_score (edges node) (st\<lparr>visit_next := q\<rparr>) of
              Inl e \<Rightarrow> Some (Inl e)
            | Inr st' \<Rightarrow> dijkstra_loop chk pick edges start (st'\<lparr>visited := insert node (visited st')\<rparr>)))"

definition search_start :: "'n \<Rightarrow> 'n search" where
  "search_start start =
     \<lparr>visited = {}, scores = [start \<mapsto> 0], first_hop = [start \<mapsto> (start, 0)], visit_next = [(0, start)]\<rparr>"

definition dijkstra_with_first_hop ::
  "bool \<Rightarrow> ((nat \<times> 'n) list \<Rightarrow> nat) \<Rightarrow> ('n \<Rightarrow> ('n \<times> nat) list) \<Rightarrow> 'n \<Rightarrow>
     (('n \<rightharpoonup> nat) \<times> ('n \<rightharpoonup> 'n \<times> nat)) may_panic option" where
  "dijkstra_with_first_hop chk pick edges start =
     map_option (\<lambda>r. rbind r (\<lambda>st. Inr (scores st, first_hop st)))
       (dijkstra_loop chk pick edges start (search_start start))"

section \<open>What it is to find\<close>

text \<open>\<open>walk edges s f c k v\<close>: a walk from \<open>s\<close> to \<open>v\<close> of \<open>k\<close> edges and cost \<open>c\<close> whose first hop is \<open>f\<close>.\<close>

inductive walk :: "('n \<Rightarrow> ('n \<times> nat) list) \<Rightarrow> 'n \<Rightarrow> 'n \<Rightarrow> nat \<Rightarrow> nat \<Rightarrow> 'n \<Rightarrow> bool" for edges s where
  walk_start: "walk edges s s 0 0 s"
| walk_first: "(v, w) \<in> set (edges s) \<Longrightarrow> walk edges s v w 1 v"
| walk_next: "walk edges s f c k u \<Longrightarrow> 0 < k \<Longrightarrow> (v, w) \<in> set (edges u) \<Longrightarrow> walk edges s f (c + w) (k + 1) v"

definition least_pick :: "((nat \<times> 'n) list \<Rightarrow> nat) \<Rightarrow> bool" where
  "least_pick pick \<longleftrightarrow> (\<forall>q. q \<noteq> [] \<longrightarrow> pick q < length q \<and> (\<forall>x\<in>set q. fst (q ! pick q) \<le> fst x))"

text \<open>A set of nodes that holds the start and every edge from it, with a bound on the costs.\<close>

definition closed_graph :: "('n \<Rightarrow> ('n \<times> nat) list) \<Rightarrow> 'n \<Rightarrow> 'n set \<Rightarrow> nat \<Rightarrow> bool" where
  "closed_graph edges s N W \<longleftrightarrow>
     finite N \<and> s \<in> N \<and> (\<forall>u\<in>N. \<forall>(v, w)\<in>set (edges u). v \<in> N \<and> w \<le> W) \<and> card N * W \<le> usize_MAX"

definition shortest :: "('n \<Rightarrow> ('n \<times> nat) list) \<Rightarrow> 'n \<Rightarrow> 'n \<Rightarrow> nat \<Rightarrow> bool" where
  "shortest edges s v c \<longleftrightarrow>
     (\<exists>f k. walk edges s f c k v) \<and> (\<forall>f c' k. walk edges s f c' k v \<longrightarrow> c \<le> c')"

section \<open>Invariant\<close>

lemma heap_pop_least:
  assumes "least_pick pick" and "heap_pop pick q = Some (x, q')"
  shows "x \<in> set q" and "set q = insert x (set q')" and "\<forall>y\<in>set q. fst x \<le> fst y" and "length q = Suc (length q')"
proof -
  have ne: "q \<noteq> []" and x: "x = q ! pick q" and q': "q' = take (pick q) q @ drop (Suc (pick q)) q"
    using assms(2) by (auto simp: heap_pop_def split: if_splits)
  have i: "pick q < length q" and "\<forall>y\<in>set q. fst (q ! pick q) \<le> fst y"
    using assms(1) ne by (simp_all add: least_pick_def)
  then show "x \<in> set q" and "\<forall>y\<in>set q. fst x \<le> fst y"
    using x by simp_all
  have "q = take (pick q) q @ q ! pick q # drop (Suc (pick q)) q"
    using i by (rule id_take_nth_drop)
  then show "set q = insert x (set q')"
    using x q' by (metis list.set(2) set_append Un_insert_right)
  show "length q = Suc (length q')"
    using i q' by simp
qed

text \<open>What is known between two edges; the nodes of \<open>D\<close> have left the heap.\<close>

definition scores_ok :: "('n \<Rightarrow> ('n \<times> nat) list) \<Rightarrow> 'n \<Rightarrow> 'n set \<Rightarrow> 'n search \<Rightarrow> bool" where
  "scores_ok edges s D st \<longleftrightarrow>
     scores st s = Some 0 \<and> dom (first_hop st) = dom (scores st) \<and>
     (\<forall>v c. scores st v = Some c \<longrightarrow>
        (\<exists>f k. first_hop st v = Some (f, k) \<and> walk edges s f c k v \<and> (0 < k \<longleftrightarrow> v \<noteq> s))) \<and>
     (\<forall>v c. scores st v = Some c \<longrightarrow> v \<notin> D \<longrightarrow> (c, v) \<in> set (visit_next st)) \<and>
     (\<forall>(c, v)\<in>set (visit_next st). \<exists>c'\<le>c. scores st v = Some c') \<and>
     visited st \<subseteq> dom (scores st)"

lemma scores_okI:
  assumes "scores st s = Some 0" and "dom (first_hop st) = dom (scores st)"
    and "\<And>v c. scores st v = Some c \<Longrightarrow>
        \<exists>f k. first_hop st v = Some (f, k) \<and> walk edges s f c k v \<and> (0 < k \<longleftrightarrow> v \<noteq> s)"
    and "\<And>v c. scores st v = Some c \<Longrightarrow> v \<notin> D \<Longrightarrow> (c, v) \<in> set (visit_next st)"
    and "\<And>c v. (c, v) \<in> set (visit_next st) \<Longrightarrow> \<exists>c'\<le>c. scores st v = Some c'"
    and "visited st \<subseteq> dom (scores st)"
  shows "scores_ok edges s D st"
  using assms unfolding scores_ok_def by blast

lemma scores_okD:
  assumes "scores_ok edges s D st"
  shows "scores st s = Some 0" and "dom (first_hop st) = dom (scores st)"
    and "\<And>v c. scores st v = Some c \<Longrightarrow>
        \<exists>f k. first_hop st v = Some (f, k) \<and> walk edges s f c k v \<and> (0 < k \<longleftrightarrow> v \<noteq> s)"
    and "\<And>v c. scores st v = Some c \<Longrightarrow> v \<notin> D \<Longrightarrow> (c, v) \<in> set (visit_next st)"
    and "\<And>c v. (c, v) \<in> set (visit_next st) \<Longrightarrow> \<exists>c'\<le>c. scores st v = Some c'"
    and "visited st \<subseteq> dom (scores st)"
  using assms unfolding scores_ok_def by blast+

definition relaxed :: "('n \<rightharpoonup> nat) \<Rightarrow> nat \<Rightarrow> 'n \<times> nat \<Rightarrow> bool" where
  "relaxed sc c e \<longleftrightarrow> (\<exists>c'\<le>c + snd e. sc (fst e) = Some c')"

text \<open>What is known between two turns of the loop.\<close>

definition search_inv :: "('n \<Rightarrow> ('n \<times> nat) list) \<Rightarrow> 'n \<Rightarrow> 'n set \<Rightarrow> nat \<Rightarrow> 'n search \<Rightarrow> bool" where
  "search_inv edges s N W st \<longleftrightarrow>
     scores_ok edges s (visited st) st \<and> dom (scores st) \<subseteq> N \<and>
     (\<forall>v c. scores st v = Some c \<longrightarrow> c \<le> card (visited st) * W) \<and>
     (\<forall>u\<in>visited st. \<forall>c. scores st u = Some c \<longrightarrow>
        (\<forall>e\<in>set (edges u). relaxed (scores st) c e) \<and> (\<forall>x\<in>set (visit_next st). c \<le> fst x))"

text \<open>How relaxing edges of \<open>node\<close>, whose score is \<open>d\<close>, changes the search.\<close>

definition relax_post :: "'n set \<Rightarrow> nat \<Rightarrow> nat \<Rightarrow> 'n search \<Rightarrow> 'n search \<Rightarrow> bool" where
  "relax_post N d W st st' \<longleftrightarrow>
     visited st' = visited st \<and>
     (\<forall>v c. scores st v = Some c \<longrightarrow> (\<exists>c'\<le>c. scores st' v = Some c')) \<and>
     (\<forall>v c. scores st v = Some c \<longrightarrow> c \<le> d \<or> v \<in> visited st \<longrightarrow> scores st' v = Some c) \<and>
     (\<forall>v c. scores st' v = Some c \<longrightarrow> scores st v = Some c \<or> v \<in> N \<and> c \<le> d + W) \<and>
     (\<forall>x\<in>set (visit_next st'). x \<in> set (visit_next st) \<or> d \<le> fst x)"

lemma relax_post_refl: "relax_post N d W st st"
  by (auto simp: relax_post_def)

lemma relax_post_trans:
  assumes "relax_post N d W st st'" and "relax_post N d W st' st''"
  shows "relax_post N d W st st''"
proof -
  have "\<exists>c'\<le>c. scores st'' v = Some c'" if "scores st v = Some c" for v c
    using assms that unfolding relax_post_def by (meson le_trans)
  moreover have "scores st'' v = Some c" if "scores st v = Some c" "c \<le> d \<or> v \<in> visited st" for v c
    using assms that unfolding relax_post_def by metis
  moreover have "scores st v = Some c \<or> v \<in> N \<and> c \<le> d + W" if "scores st'' v = Some c" for v c
    using assms that unfolding relax_post_def by blast
  moreover have "\<forall>x\<in>set (visit_next st''). x \<in> set (visit_next st) \<or> d \<le> fst x"
    using assms unfolding relax_post_def by blast
  ultimately show ?thesis
    using assms unfolding relax_post_def by simp
qed

lemma relax_post_relaxed: "relax_post N d W st st' \<Longrightarrow> relaxed (scores st) c e \<Longrightarrow> relaxed (scores st') c e"
  unfolding relax_post_def relaxed_def by (meson le_trans)

lemma record_next_ok:
  assumes ok: "scores_ok edges s (insert node (visited st)) st" and d: "scores st node = Some d"
    and e: "(nxt, w) \<in> set (edges node)" and new: "nxt \<notin> visited st"
    and better: "\<forall>old. scores st nxt = Some old \<longrightarrow> d + w < old" and N: "nxt \<in> N" "w \<le> W"
  shows "\<exists>st'. record_next s node nxt (d + w) st = Inr st' \<and>
     scores_ok edges s (insert node (visited st)) st' \<and> relax_post N d W st st' \<and> scores st' nxt = Some (d + w)"
proof -
  obtain f k where hop: "first_hop st node = Some (f, k)" "walk edges s f d k node" "node \<noteq> s \<longrightarrow> 0 < k"
    using ok d unfolding scores_ok_def by blast
  define g where "g = (if node = s then nxt else f)"
  define n where "n = (if node = s then 1 else k + 1)"
  have d0: "d = 0" if "node = s"
    using that ok d by (simp add: scores_ok_def)
  have wk: "walk edges s g (d + w) n nxt" and n: "0 < n"
    using walk_first [of nxt w edges s] walk_next [OF hop(2) _ e] hop(3) e d0 by (auto simp: g_def n_def)
  have self: "nxt \<noteq> node" "nxt \<noteq> s"
    using better d ok by (auto simp: scores_ok_def)
  let ?st = "st\<lparr>scores := (scores st)(nxt \<mapsto> d + w), visit_next := (d + w, nxt) # visit_next st,
               first_hop := (first_hop st)(nxt \<mapsto> (g, n))\<rparr>"
  have "record_next s node nxt (d + w) st = Inr ?st"
    using hop by (simp add: record_next_def g_def n_def)
  moreover have "scores_ok edges s (insert node (visited st)) ?st"
  proof (rule scores_okI)
    show "\<exists>f k. first_hop ?st v = Some (f, k) \<and> walk edges s f c k v \<and> (0 < k \<longleftrightarrow> v \<noteq> s)"
      if "scores ?st v = Some c" for v c
      using that wk n self(2) scores_okD(3) [OF ok, of v c] by (cases "v = nxt") auto
    show "(c, v) \<in> set (visit_next ?st)" if "scores ?st v = Some c" "v \<notin> insert node (visited st)" for v c
      using that scores_okD(4) [OF ok, of v c] by (cases "v = nxt") auto
    show "\<exists>c'\<le>c. scores ?st v = Some c'" if "(c, v) \<in> set (visit_next ?st)" for v c
      using that scores_okD(5) [OF ok, of c v] better by (cases "v = nxt") force+
  qed (use scores_okD(1,2,6) [OF ok] self in auto)
  moreover have "relax_post N d W st ?st"
    using new better N by (auto simp: relax_post_def less_imp_le not_less)
  ultimately show ?thesis
    by auto
qed

lemma relax_edge_ok:
  assumes ok: "scores_ok edges s (insert node (visited st)) st" and d: "scores st node = Some d"
    and e: "(nxt, w) \<in> set (edges node)" and N: "nxt \<in> N" "w \<le> W" and bound: "d + W \<le> usize_MAX"
  shows "\<exists>st'. relax_edge chk s node d (nxt, w) st = Inr st' \<and>
     scores_ok edges s (insert node (visited st)) st' \<and> relax_post N d W st st' \<and>
     (nxt \<notin> visited st \<longrightarrow> relaxed (scores st') d (nxt, w))"
proof (cases "nxt \<in> visited st \<or> (\<exists>old\<le>d + w. scores st nxt = Some old)")
  case True
  moreover have "usize_add chk d w = Inr (d + w)"
    using N(2) bound by (intro usize_add_in_range) simp
  ultimately have "relax_edge chk s node d (nxt, w) st = Inr st"
    by (auto simp: relax_edge_def)
  then show ?thesis
    using True ok relax_post_refl by (auto simp: relaxed_def)
next
  case False
  then have new: "nxt \<notin> visited st" and better: "\<forall>old. scores st nxt = Some old \<longrightarrow> d + w < old"
    by (auto simp: not_le)
  have "usize_add chk d w = Inr (d + w)"
    using N(2) bound by (intro usize_add_in_range) simp
  then have "relax_edge chk s node d (nxt, w) st = record_next s node nxt (d + w) st"
    using new better by (auto simp: relax_edge_def split: option.split)
  then show ?thesis
    using record_next_ok [OF ok d e new better N] by (auto simp: relaxed_def)
qed

lemma relax_edges_ok:
  assumes "scores_ok edges s (insert node (visited st)) st" and "scores st node = Some d"
    and "set es \<subseteq> set (edges node)" and "\<forall>(v, w)\<in>set es. v \<in> N \<and> w \<le> W" and "d + W \<le> usize_MAX"
  shows "\<exists>st'. relax_edges chk s node d es st = Inr st' \<and>
     scores_ok edges s (insert node (visited st)) st' \<and> relax_post N d W st st' \<and>
     (\<forall>e\<in>set es. fst e \<notin> visited st \<longrightarrow> relaxed (scores st') d e)"
  using assms
proof (induction es arbitrary: st)
  case Nil
  then show ?case
    using relax_post_refl by auto
next
  case (Cons e es)
  obtain nxt w where e: "e = (nxt, w)"
    by fastforce
  then obtain st1 where st1: "relax_edge chk s node d e st = Inr st1" "scores_ok edges s (insert node (visited st)) st1"
      "relax_post N d W st st1" "nxt \<notin> visited st \<longrightarrow> relaxed (scores st1) d e"
    using relax_edge_ok [OF Cons.prems(1,2), of nxt w N W chk] Cons.prems(3-) by auto
  have vis: "visited st1 = visited st" and node: "scores st1 node = Some d"
    using st1(3) Cons.prems(2) by (auto simp: relax_post_def)
  then obtain st' where st': "relax_edges chk s node d es st1 = Inr st'" "scores_ok edges s (insert node (visited st)) st'"
      "relax_post N d W st1 st'" "\<forall>e\<in>set es. fst e \<notin> visited st \<longrightarrow> relaxed (scores st') d e"
    using Cons.IH [of st1] st1(2) Cons.prems(3-) by auto
  then show ?case
    using st1 e relax_post_trans [OF st1(3) st'(3)] relax_post_relaxed [OF st'(3)] by auto
qed

section \<open>One turn of the loop\<close>

lemma search_invD:
  assumes "search_inv edges s N W st"
  shows "scores_ok edges s (visited st) st" and "dom (scores st) \<subseteq> N"
    and "\<And>v c. scores st v = Some c \<Longrightarrow> c \<le> card (visited st) * W"
    and "\<And>u c e. u \<in> visited st \<Longrightarrow> scores st u = Some c \<Longrightarrow> e \<in> set (edges u) \<Longrightarrow> relaxed (scores st) c e"
    and "\<And>u c x. u \<in> visited st \<Longrightarrow> scores st u = Some c \<Longrightarrow> x \<in> set (visit_next st) \<Longrightarrow> c \<le> fst x"
  using assms unfolding search_inv_def by blast+

lemma search_inv_visited: "search_inv edges s N W st \<Longrightarrow> visited st \<subseteq> N"
  using search_invD(1,2) scores_okD(6) by fastforce

lemma popped_score:
  assumes inv: "search_inv edges s N W st" and pick: "least_pick pick"
    and pop: "heap_pop pick (visit_next st) = Some ((d, node), q)" and new: "node \<notin> visited st"
  shows "scores st node = Some d" and "scores_ok edges s (insert node (visited st)) (st\<lparr>visit_next := q\<rparr>)"
proof -
  note ok = search_invD(1) [OF inv] and least = heap_pop_least [OF pick pop]
  obtain c where c: "c \<le> d" "scores st node = Some c"
    using scores_okD(5) [OF ok] least(1) by blast
  then have "(c, node) \<in> set (visit_next st)"
    using scores_okD(4) [OF ok] new by blast
  then show "scores st node = Some d"
    using least(3) c by fastforce
  show "scores_ok edges s (insert node (visited st)) (st\<lparr>visit_next := q\<rparr>)"
  proof (rule scores_okI)
    show "(c, v) \<in> set (visit_next (st\<lparr>visit_next := q\<rparr>))"
      if "scores (st\<lparr>visit_next := q\<rparr>) v = Some c" "v \<notin> insert node (visited st)" for v c
      using that scores_okD(4) [OF ok, of v c] least(2) by auto
    show "\<exists>c'\<le>c. scores (st\<lparr>visit_next := q\<rparr>) v = Some c'" if "(c, v) \<in> set (visit_next (st\<lparr>visit_next := q\<rparr>))" for v c
      using that scores_okD(5) [OF ok, of c v] least(2) by auto
  qed (use scores_okD(1,2,3,6) [OF ok] in auto)
qed

lemma skip_turn:
  assumes inv: "search_inv edges s N W st" and pick: "least_pick pick"
    and pop: "heap_pop pick (visit_next st) = Some ((d, node), q)" and old: "node \<in> visited st"
  shows "search_inv edges s N W (st\<lparr>visit_next := q\<rparr>)"
proof -
  note ok = search_invD(1) [OF inv] and least = heap_pop_least [OF pick pop]
  have "scores_ok edges s (visited st) (st\<lparr>visit_next := q\<rparr>)"
  proof (rule scores_okI)
    show "(c, v) \<in> set (visit_next (st\<lparr>visit_next := q\<rparr>))"
      if "scores (st\<lparr>visit_next := q\<rparr>) v = Some c" "v \<notin> visited st" for v c
      using that scores_okD(4) [OF ok, of v c] least(2) old by auto
    show "\<exists>c'\<le>c. scores (st\<lparr>visit_next := q\<rparr>) v = Some c'" if "(c, v) \<in> set (visit_next (st\<lparr>visit_next := q\<rparr>))" for v c
      using that scores_okD(5) [OF ok, of c v] least(2) by auto
  qed (use scores_okD(1,2,3,6) [OF ok] in auto)
  then show ?thesis
    using inv least(2) unfolding search_inv_def by auto
qed

lemma visited_relaxed:
  assumes inv: "search_inv edges s N W st" and pick: "least_pick pick"
    and pop: "heap_pop pick (visit_next st) = Some ((d, node), q)" and new: "node \<notin> visited st"
    and post: "relax_post N d W (st\<lparr>visit_next := q\<rparr>) st'"
    and edges: "\<forall>e\<in>set (edges node). fst e \<notin> visited st \<longrightarrow> relaxed (scores st') d e"
    and u: "u \<in> insert node (visited st)" and c: "scores st' u = Some c"
  shows "(\<forall>e\<in>set (edges u). relaxed (scores st') c e) \<and> (\<forall>x\<in>set (visit_next st'). c \<le> fst x)"
proof -
  note least = heap_pop_least [OF pick pop]
  have keep: "scores st' v = Some b" if "scores st v = Some b" "b \<le> d \<or> v \<in> visited st" for v b
    using post that by (auto simp: relax_post_def)
  have new_q: "x \<in> set q \<or> d \<le> fst x" if "x \<in> set (visit_next st')" for x
    using post that by (auto simp: relax_post_def)
  have before: "\<exists>b. scores st v = Some b \<and> scores st' v = Some b \<and> (\<forall>x\<in>set (visit_next st). b \<le> fst x)"
    if v: "v \<in> visited st" for v
  proof -
    obtain b where b: "scores st v = Some b"
      using scores_okD(6) [OF search_invD(1) [OF inv]] v by blast
    then show ?thesis
      using keep [OF b] v search_invD(5) [OF inv v b] by blast
  qed
  show ?thesis
  proof (cases "u = node")
    case True
    then have cd: "c = d"
      using c keep [OF popped_score(1) [OF inv pick pop new]] by simp
    have "relaxed (scores st') d e" if "e \<in> set (edges node)" for e
      using before [of "fst e"] edges that least(1) by (cases "fst e \<in> visited st") (force simp: relaxed_def)+
    moreover have "d \<le> fst x" if "x \<in> set (visit_next st')" for x
      using new_q [OF that] least(2,3) by auto
    ultimately show ?thesis
      using True cd by auto
  next
    case False
    then have uv: "u \<in> visited st"
      using u by simp
    then have cu: "scores st u = Some c" and q: "\<And>x. x \<in> set (visit_next st) \<Longrightarrow> c \<le> fst x"
      using before [OF uv] c by auto
    have "relaxed (scores st') c e" if "e \<in> set (edges u)" for e
      using relax_post_relaxed [OF post, of c e] search_invD(4) [OF inv uv cu that] by simp
    moreover have "c \<le> fst x" if "x \<in> set (visit_next st')" for x
    proof -
      have "c \<le> d"
        using q [OF least(1)] by simp
      then show ?thesis
        using new_q [OF that] q [of x] least(2) by (elim disjE) auto
    qed
    ultimately show ?thesis
      by simp
  qed
qed

lemma visit_turn:
  assumes inv: "search_inv edges s N W st" and pick: "least_pick pick" and cl: "closed_graph edges s N W"
    and pop: "heap_pop pick (visit_next st) = Some ((d, node), q)" and new: "node \<notin> visited st"
  shows "\<exists>st'. relax_edges chk s node d (edges node) (st\<lparr>visit_next := q\<rparr>) = Inr st' \<and> visited st' = visited st \<and>
     search_inv edges s N W (st'\<lparr>visited := insert node (visited st')\<rparr>) \<and> node \<in> N"
proof -
  let ?st = "st\<lparr>visit_next := q\<rparr>"
  note node = popped_score [OF inv pick pop new]
  have fin: "finite (visited st)" and N: "node \<in> N" and sub: "insert node (visited st) \<subseteq> N"
    using search_invD(2) [OF inv] search_inv_visited [OF inv] node(1) cl finite_subset
    by (auto simp: closed_graph_def)
  have d: "d \<le> card (visited st) * W"
    using search_invD(3) [OF inv node(1)] .
  have "card (insert node (visited st)) \<le> card N"
    using sub cl by (intro card_mono) (auto simp: closed_graph_def)
  then have "Suc (card (visited st)) * W \<le> card N * W"
    using fin new by (intro mult_le_mono1) simp
  then have bound: "d + W \<le> usize_MAX"
    using cl d by (simp add: closed_graph_def)
  have "\<forall>(v, w)\<in>set (edges node). v \<in> N \<and> w \<le> W"
    using cl N by (auto simp: closed_graph_def)
  then obtain st' where st': "relax_edges chk s node d (edges node) ?st = Inr st'"
      "scores_ok edges s (insert node (visited st)) st'" "relax_post N d W ?st st'"
      "\<forall>e\<in>set (edges node). fst e \<notin> visited st \<longrightarrow> relaxed (scores st') d e"
    using relax_edges_ok [of edges s node ?st d "edges node" N W chk] node bound by auto
  have vis: "visited st' = visited st" and node': "scores st' node = Some d"
    and new_sc: "\<And>v c. scores st' v = Some c \<Longrightarrow> scores st v = Some c \<or> v \<in> N \<and> c \<le> d + W"
    using st'(3) node(1) by (auto simp: relax_post_def)
  let ?fin = "st'\<lparr>visited := insert node (visited st')\<rparr>"
  have "scores_ok edges s (visited ?fin) ?fin"
    using st'(2) vis node' unfolding scores_ok_def by auto
  moreover have "dom (scores ?fin) \<subseteq> N"
    using search_invD(2) [OF inv] new_sc by auto
  moreover have "c \<le> card (visited ?fin) * W" if "scores ?fin v = Some c" for v c
    using new_sc [of v c] that search_invD(3) [OF inv, of v c] d fin new vis by auto
  moreover have "(\<forall>e\<in>set (edges u). relaxed (scores ?fin) c e) \<and> (\<forall>x\<in>set (visit_next ?fin). c \<le> fst x)"
    if "u \<in> visited ?fin" "scores ?fin u = Some c" for u c
    using visited_relaxed [OF inv pick pop new st'(3,4), of u c] that vis by simp
  ultimately have "search_inv edges s N W ?fin"
    unfolding search_inv_def by blast
  then show ?thesis
    using st'(1) vis N by blast
qed

section \<open>The whole search\<close>

lemma dijkstra_loop_returns:
  assumes pick: "least_pick pick" and cl: "closed_graph edges s N W" and inv: "search_inv edges s N W st"
  shows "\<exists>st'. dijkstra_loop chk pick edges s st = Some (Inr st') \<and> search_inv edges s N W st' \<and> visit_next st' = []"
  using inv
proof (induction st rule: wf_induct_rule
    [OF wf_measures [of "[\<lambda>st. card (N - visited st), \<lambda>st. length (visit_next st)]"]])
  case (1 st)
  note inv = 1(2)
  show ?case
  proof (cases "heap_pop pick (visit_next st)")
    case None
    then show ?thesis
      using inv by (auto simp: dijkstra_loop.simps [of chk pick edges s st] heap_pop_def split: if_splits)
  next
    case (Some x)
    obtain d node q where pop: "heap_pop pick (visit_next st) = Some ((d, node), q)"
      using Some by (cases x) auto
    show ?thesis
    proof (cases "node \<in> visited st")
      case True
      then show ?thesis
        using 1(1) [OF _ skip_turn [OF inv pick pop True]] pop heap_pop_least(4) [OF pick pop]
        by (simp add: dijkstra_loop.simps [of chk pick edges s st])
    next
      case False
      obtain st' where st': "relax_edges chk s node d (edges node) (st\<lparr>visit_next := q\<rparr>) = Inr st'"
          "visited st' = visited st" "search_inv edges s N W (st'\<lparr>visited := insert node (visited st')\<rparr>)" "node \<in> N"
        using visit_turn [OF inv pick cl pop False] by blast
      have "card (N - insert node (visited st)) < card (N - visited st)"
        using st'(4) False cl by (intro psubset_card_mono) (auto simp: closed_graph_def)
      then show ?thesis
        using 1(1) [OF _ st'(3)] pop st'(1,2) False
        by (simp add: dijkstra_loop.simps [of chk pick edges s st])
    qed
  qed
qed

lemma search_start_inv: "closed_graph edges s N W \<Longrightarrow> search_inv edges s N W (search_start s)"
  using walk_start by (auto simp: search_inv_def scores_ok_def search_start_def closed_graph_def split: if_splits)

lemma finished_search_shortest:
  assumes inv: "search_inv edges s N W st" and q: "visit_next st = []" and w: "walk edges s f c k v"
  shows "\<exists>c'\<le>c. scores st v = Some c'"
proof -
  note ok = search_invD(1) [OF inv]
  have all: "v \<in> visited st" if "scores st v = Some c" for v c
    using scores_okD(4) [OF ok that] q by auto
  show ?thesis
    using w
  proof (induction rule: walk.induct)
    case walk_start
    then show ?case
      using scores_okD(1) [OF ok] by simp
  next
    case (walk_first v w)
    then show ?case
      using search_invD(4) [OF inv all scores_okD(1) [OF ok]] scores_okD(1) [OF ok]
      by (fastforce simp: relaxed_def)
  next
    case (walk_next f c k u v w)
    then obtain c' where c': "c' \<le> c" "scores st u = Some c'"
      by blast
    then have "relaxed (scores st) c' (v, w)"
      using search_invD(4) [OF inv all [OF c'(2)] c'(2)] walk_next.hyps by blast
    then show ?case
      using c'(1) by (fastforce simp: relaxed_def)
  qed
qed

lemma search_result:
  assumes "least_pick pick" and "closed_graph edges s N W"
  shows "\<exists>sc fh. dijkstra_with_first_hop chk pick edges s = Some (Inr (sc, fh)) \<and> dom fh = dom sc \<and>
    (\<forall>v. case sc v of
        None \<Rightarrow> \<not> (\<exists>f c k. walk edges s f c k v)
      | Some c \<Rightarrow> shortest edges s v c \<and> (\<exists>f k. fh v = Some (f, k) \<and> walk edges s f c k v))"
proof -
  obtain st where st: "dijkstra_loop chk pick edges s (search_start s) = Some (Inr st)"
      "search_inv edges s N W st" "visit_next st = []"
    using dijkstra_loop_returns [OF assms search_start_inv [OF assms(2)]] by blast
  note ok = search_invD(1) [OF st(2)] and low = finished_search_shortest [OF st(2,3)]
  have "case scores st v of
        None \<Rightarrow> \<not> (\<exists>f c k. walk edges s f c k v)
      | Some c \<Rightarrow> shortest edges s v c \<and> (\<exists>f k. first_hop st v = Some (f, k) \<and> walk edges s f c k v)" for v
  proof (cases "scores st v")
    case None
    then show ?thesis
      using low [of _ _ _ v] by fastforce
  next
    case (Some c)
    then have "shortest edges s v c"
      using scores_okD(3) [OF ok Some] low [of _ _ _ v] by (fastforce simp: shortest_def)
    then show ?thesis
      using scores_okD(3) [OF ok Some] Some by auto
  qed
  then show ?thesis
    using st(1) scores_okD(2) [OF ok] by (auto simp: dijkstra_with_first_hop_def)
qed

lemma search_start_hop:
  assumes "least_pick pick" and "closed_graph edges s N W" and "dijkstra_with_first_hop chk pick edges s = Some (Inr (sc, fh))"
  shows "fh s = Some (s, 0)"
proof -
  obtain st where st: "dijkstra_loop chk pick edges s (search_start s) = Some (Inr st)" "search_inv edges s N W st"
    using dijkstra_loop_returns [OF assms(1,2) search_start_inv [OF assms(2)], of chk] by blast
  note ok = search_invD(1) [OF st(2)]
  obtain f k where "first_hop st s = Some (f, k)" "walk edges s f 0 k s" "k = 0"
    using scores_okD(3) [OF ok scores_okD(1) [OF ok]] by auto
  moreover from this(2,3) have "f = s"
    by (auto elim: walk.cases)
  ultimately show ?thesis
    using st(1) assms(3) by (auto simp: dijkstra_with_first_hop_def)
qed

text \<open>
  C6: The shortest-path search always returns, without a panic, and it is right. On any finite
  graph whose path costs fit a machine word, whatever order the heap gives to equal scores: a node
  has a score exactly when it can be reached, the score is the least cost of a walk to it, and the
  recorded first hop and number of edges are those of a walk of that cost.
\<close>

theorem dijkstra_first_hop_correct:
  assumes "least_pick pick" and "closed_graph edges s N W"
  shows "\<exists>sc fh. dijkstra_with_first_hop chk pick edges s = Some (Inr (sc, fh)) \<and> dom fh = dom sc \<and>
    (\<forall>v. case sc v of
        None \<Rightarrow> \<not> (\<exists>f c k. walk edges s f c k v)
      | Some c \<Rightarrow> shortest edges s v c \<and> (\<exists>f k. fh v = Some (f, k) \<and> walk edges s f c k v))"
  using search_result [OF assms] .

text \<open>
  A heap that hands out the first of the least entries, and a graph in which the cheap path to
  node 2 has more edges than the dear one.
\<close>

fun least_index :: "(nat \<times> 'n) list \<Rightarrow> nat" where
  "least_index [] = 0"
| "least_index [x] = 0"
| "least_index (x # y # q) =
     (let i = least_index (y # q) in if fst x \<le> fst ((y # q) ! i) then 0 else Suc i)"

lemma least_index_least:
  "q \<noteq> [] \<Longrightarrow> least_index q < length q \<and> (\<forall>x\<in>set q. fst (q ! least_index q) \<le> fst x)"
proof (induction q rule: least_index.induct)
  case (3 x y q)
  then show ?case
    by (auto simp: Let_def intro: order_trans)
qed simp_all

lemma least_pick_least_index: "least_pick least_index"
  unfolding least_pick_def using least_index_least by blast

definition sample_graph :: "nat \<Rightarrow> (nat \<times> nat) list" where
  "sample_graph u = (if u = 0 then [(2, 5), (1, 2)] else if u = 1 then [(2, 2), (0, 1)] else [])"

lemma sample_graph_closed: "closed_graph sample_graph 0 {0, 1, 2} 5"
  by (simp add: closed_graph_def sample_graph_def usize_MAX_def)

lemma sample_search:
  "dijkstra_with_first_hop True least_index sample_graph 0 =
     Some (Inr ([0 \<mapsto> 0, 2 \<mapsto> 5, 1 \<mapsto> 2, 2 \<mapsto> 4], [0 \<mapsto> (0, 0), 2 \<mapsto> (2, 1), 1 \<mapsto> (1, 1), 2 \<mapsto> (1, 2)]))"
  by (simp add: dijkstra_with_first_hop_def search_start_def dijkstra_loop.simps heap_pop_def sample_graph_def
      relax_edge_def record_next_def usize_add_def usize_MAX_def, simp add: eval_nat_numeral)

theorem dijkstra_first_hop_correct_witness:
  "shortest sample_graph 0 2 4 \<and> walk sample_graph 0 1 4 2 2"
proof -
  obtain sc fh where r: "dijkstra_with_first_hop True least_index sample_graph 0 = Some (Inr (sc, fh))"
    and v: "\<forall>v. case sc v of
        None \<Rightarrow> \<not> (\<exists>f c k. walk sample_graph 0 f c k v)
      | Some c \<Rightarrow> shortest sample_graph 0 v c \<and> (\<exists>f k. fh v = Some (f, k) \<and> walk sample_graph 0 f c k v)"
    using dijkstra_first_hop_correct [OF least_pick_least_index sample_graph_closed, of True] by blast
  have "sc = [0 \<mapsto> 0, 2 \<mapsto> 5, 1 \<mapsto> 2, 2 \<mapsto> 4]" "fh = [0 \<mapsto> (0, 0), 2 \<mapsto> (2, 1), 1 \<mapsto> (1, 1), 2 \<mapsto> (1, 2)]"
    using r unfolding sample_search by simp_all
  then show ?thesis
    using v [rule_format, of 2] by simp
qed

end
