(* ===== verification/Ospf_Route.thy ===== *)
theory Ospf_Route
  imports Ospf_Info Graph_Algo
begin

text \<open>
  The routing table of \<open>src/easytier/src/peers/peer_ospf_route.rs\<close>, computed from the synchronised
  tables: the graph of peers, the next hops under both policies, and the maps from addresses and
  proxied networks to peers. A node of the graph is the peer it stands for (the code keeps a
  one-to-one table of node indices). The first search of the least-hop policy is the function
  \<open>dijkstra\<close> of the petgraph crate, the parameter \<open>hop_counts\<close>; prefix maps are association lists
  from networks, and the longest-prefix match of the prefix-trie crate is a parameter too. An
  operation that runs the search may, as far as its type tells, not return: its result is
  \<open>None\<close> then.
\<close>

section \<open>Operations that search\<close>

type_synonym 'a search_result = "'a may_panic option"

definition sbind :: "'a search_result \<Rightarrow> ('a \<Rightarrow> 'b search_result) \<Rightarrow> 'b search_result" where
  "sbind m f = (case m of None \<Rightarrow> None | Some (Inl e) \<Rightarrow> Some (Inl e) | Some (Inr x) \<Rightarrow> f x)"

lemma sbind_simps [simp]:
  "sbind None f = None" "sbind (Some (Inl e)) f = Some (Inl e)" "sbind (Some (Inr x)) f = f x"
  by (simp_all add: sbind_def)

lemma sbind_eq_Inr: "sbind m f = Some (Inr y) \<longleftrightarrow> (\<exists>x. m = Some (Inr x) \<and> f x = Some (Inr y))"
  by (auto simp: sbind_def split: option.splits sum.splits)

section \<open>The graph of peers\<close>

definition AVOID_RELAY_COST :: nat where
  "AVOID_RELAY_COST = 2 ^ 31 - 1"

record PeerGraph =
  graph_nodes :: "PeerId list"
  graph_edges :: "(PeerId \<times> PeerId \<times> nat) list"

definition edges_of :: "PeerGraph \<Rightarrow> PeerId \<Rightarrow> (PeerId \<times> nat) list" where
  "edges_of g u = map snd (filter (\<lambda>e. fst e = u) (graph_edges g))"

text \<open>\<open>i32 as usize\<close>: the sign is extended.\<close>

definition i32_as_usize :: "u32 \<Rightarrow> nat" where
  "i32_as_usize c = unat (scast c :: u64)"

fun peer_out_edges ::
  "bool \<Rightarrow> (PeerId \<Rightarrow> PeerId \<Rightarrow> u32) \<Rightarrow> PeerId list \<Rightarrow> PeerId \<Rightarrow> bool \<Rightarrow> PeerId list \<Rightarrow> (PeerId \<times> PeerId \<times> nat) list may_panic" where
  "peer_out_edges chk calculate_cost nodes src avoid [] = Inr []"
| "peer_out_edges chk calculate_cost nodes src avoid (dst # dsts) =
     (if dst \<notin> set nodes then peer_out_edges chk calculate_cost nodes src avoid dsts
      else
        rbind (let c = i32_as_usize (calculate_cost src dst) in
               if avoid then usize_add chk c AVOID_RELAY_COST else Inr c) (\<lambda>c.
        rbind (peer_out_edges chk calculate_cost nodes src avoid dsts) (\<lambda>es. Inr ((src, dst, c) # es))))"

fun all_out_edges ::
  "bool \<Rightarrow> (PeerId \<Rightarrow> PeerId \<Rightarrow> u32) \<Rightarrow> PeerId list \<Rightarrow> 'r SyncedRouteInfo \<Rightarrow> PeerId list \<Rightarrow>
     (PeerId \<times> PeerId \<times> nat) list may_panic" where
  "all_out_edges chk calculate_cost nodes s [] = Inr []"
| "all_out_edges chk calculate_cost nodes s (src # srcs) =
     rbind (peer_out_edges chk calculate_cost nodes src (get_avoid_relay_data src s)
              (sorted_list_of_set (case get_connected_peers src s of Some c \<Rightarrow> c | None \<Rightarrow> {}))) (\<lambda>es.
     rbind (all_out_edges chk calculate_cost nodes s srcs) (\<lambda>es'. Inr (es @ es')))"

text \<open>The graph and the start node; the start is missing when this node has no entry yet.\<close>

definition build_peer_graph_from_synced_info ::
  "bool \<Rightarrow> PeerId \<Rightarrow> 'r SyncedRouteInfo \<Rightarrow> (PeerId \<Rightarrow> PeerId \<Rightarrow> u32) \<Rightarrow> (PeerGraph \<times> PeerId option) may_panic" where
  "build_peer_graph_from_synced_info chk my_peer_id s calculate_cost =
     (let nodes = map fst (filter (\<lambda>(p, i). version i \<noteq> 0) (peer_infos s)) in
      if my_peer_id \<notin> set nodes then Inr (\<lparr>graph_nodes = nodes, graph_edges = []\<rparr>, None)
      else rbind (all_out_edges chk calculate_cost nodes s nodes) (\<lambda>es.
             Inr (\<lparr>graph_nodes = nodes, graph_edges = es\<rparr>, Some my_peer_id)))"

section \<open>Next hops\<close>

record NextHopInfo =
  next_hop_peer_id :: PeerId
  path_latency :: u32
  path_len :: nat
  nh_version :: Version

record PeerIdAndVersion =
  pv_peer_id :: PeerId
  pv_version :: Version

record RouteTable =
  rt_peer_infos :: "(PeerId \<times> RoutePeerInfo) list"
  next_hop_map :: "(PeerId \<times> NextHopInfo) list"
  ipv4_peer_id_map :: "(u32 \<times> PeerIdAndVersion) list"
  ipv6_peer_id_map :: "((u32 \<times> u32 \<times> u32 \<times> u32) \<times> PeerIdAndVersion) list"
  cidr_peer_id_map :: "((u32 \<times> nat) \<times> PeerIdAndVersion) list"
  cidr_v6_peer_id_map :: "((128 word \<times> nat) \<times> PeerIdAndVersion) list"
  next_hop_map_version :: Version

definition RouteTable_new :: RouteTable where
  "RouteTable_new =
     \<lparr>rt_peer_infos = [], next_hop_map = [], ipv4_peer_id_map = [], ipv6_peer_id_map = [], cidr_peer_id_map = [],
      cidr_v6_peer_id_map = [], next_hop_map_version = 0\<rparr>"

definition get_next_hop :: "RouteTable \<Rightarrow> PeerId \<Rightarrow> NextHopInfo option" where
  "get_next_hop rt dst =
     (case map_of (next_hop_map rt) dst of
        Some x \<Rightarrow> if nh_version x \<ge> next_hop_map_version rt then Some x else None | None \<Rightarrow> None)"

definition peer_reachable :: "RouteTable \<Rightarrow> PeerId \<Rightarrow> bool" where
  "peer_reachable rt p \<longleftrightarrow> get_next_hop rt p \<noteq> None"

datatype NatType =
    Unknown | OpenInternet | NoPat | FullCone | Restricted | PortRestricted | Symmetric | SymUdpFirewall
  | SymmetricEasyInc | SymmetricEasyDec

definition NatType_of_i32 :: "u32 \<Rightarrow> NatType" where
  "NatType_of_i32 n =
     (if n = 1 then OpenInternet else if n = 2 then NoPat else if n = 3 then FullCone else if n = 4 then Restricted
      else if n = 5 then PortRestricted else if n = 6 then Symmetric else if n = 7 then SymUdpFirewall
      else if n = 8 then SymmetricEasyInc else if n = 9 then SymmetricEasyDec else Unknown)"

definition get_nat_type :: "RouteTable \<Rightarrow> PeerId \<Rightarrow> NatType option" where
  "get_nat_type rt p = map_option (\<lambda>i. NatType_of_i32 (udp_stun_info i)) (map_of (rt_peer_infos rt) p)"

definition clean_expired_route_info :: "RouteTable \<Rightarrow> RouteTable" where
  "clean_expired_route_info rt =
     (let hops = filter (\<lambda>(p, h). nh_version h \<ge> next_hop_map_version rt) (next_hop_map rt) in
      rt\<lparr>next_hop_map := hops,
         rt_peer_infos := filter (\<lambda>(p, i). map_of hops p \<noteq> None) (rt_peer_infos rt),
         ipv4_peer_id_map := filter (\<lambda>(a, v). map_of hops (pv_peer_id v) \<noteq> None) (ipv4_peer_id_map rt),
         ipv6_peer_id_map := filter (\<lambda>(a, v). map_of hops (pv_peer_id v) \<noteq> None) (ipv6_peer_id_map rt)\<rparr>)"

fun store_next_hops ::
  "Version \<Rightarrow> (PeerId \<rightharpoonup> nat) \<Rightarrow> (PeerId \<rightharpoonup> PeerId \<times> nat) \<Rightarrow> PeerId list \<Rightarrow>
     (PeerId \<times> NextHopInfo) list \<Rightarrow> (PeerId \<times> NextHopInfo) list may_panic" where
  "store_next_hops ver costs hops [] tab = Inr tab"
| "store_next_hops ver costs hops (dst # dsts) tab =
     (case hops dst of
        None \<Rightarrow> store_next_hops ver costs hops dsts tab
      | Some (nh, len) \<Rightarrow>
          rbind (unwrap (costs dst)) (\<lambda>c.
            let info = \<lparr>next_hop_peer_id = nh, path_latency = of_nat (c mod AVOID_RELAY_COST), path_len = len, nh_version = ver\<rparr>;
                newer = (case map_of tab dst of Some x \<Rightarrow> nh_version x < ver | None \<Rightarrow> True)
            in store_next_hops ver costs hops dsts (if newer then AList.update dst info tab else tab)))"

definition gen_next_hop_map_with_least_cost ::
  "bool \<Rightarrow> ((nat \<times> PeerId) list \<Rightarrow> nat) \<Rightarrow> PeerGraph \<Rightarrow> PeerId option \<Rightarrow> Version \<Rightarrow> RouteTable \<Rightarrow> RouteTable search_result" where
  "gen_next_hop_map_with_least_cost chk pick g start ver rt =
     (case start of
        None \<Rightarrow> Some (Inl IndexOutOfRange)
      | Some s \<Rightarrow>
          sbind (dijkstra_with_first_hop chk pick (edges_of g) s) (\<lambda>(costs, hops).
            Some (rbind (store_next_hops ver costs hops (graph_nodes g) (next_hop_map rt)) (\<lambda>tab.
              Inr (rt\<lparr>next_hop_map := tab,
                     next_hop_map_version := fst (set_if_larger ver (next_hop_map_version rt))\<rparr>)))))"

definition normalize_edge_cost :: "nat \<Rightarrow> nat" where
  "normalize_edge_cost w = (if w \<ge> AVOID_RELAY_COST then AVOID_RELAY_COST + 1 else 1)"

definition least_hop_subgraph :: "PeerGraph \<Rightarrow> (PeerId \<rightharpoonup> nat) \<Rightarrow> PeerGraph" where
  "least_hop_subgraph g path_len_map =
     g\<lparr>graph_edges := filter (\<lambda>(u, v, w). case (path_len_map u, path_len_map v) of
          (Some a, Some b) \<Rightarrow> a + normalize_edge_cost w = b | _ \<Rightarrow> False) (graph_edges g)\<rparr>"

definition gen_next_hop_map_with_least_hop ::
  "bool \<Rightarrow> ((nat \<times> PeerId) list \<Rightarrow> nat) \<Rightarrow> ((PeerId \<Rightarrow> (PeerId \<times> nat) list) \<Rightarrow> PeerId \<Rightarrow> PeerId \<rightharpoonup> nat) \<Rightarrow>
     PeerGraph \<Rightarrow> PeerId option \<Rightarrow> Version \<Rightarrow> RouteTable \<Rightarrow> RouteTable search_result" where
  "gen_next_hop_map_with_least_hop chk pick hop_counts g start ver rt =
     (case start of
        None \<Rightarrow> Some (Inl UnwrapNone)
      | Some s \<Rightarrow>
          let path_len_map = hop_counts (\<lambda>u. map (\<lambda>(v, w). (v, normalize_edge_cost w)) (edges_of g u)) s
          in gen_next_hop_map_with_least_cost chk pick (least_hop_subgraph g path_len_map) (Some s) ver rt)"

section \<open>The whole table\<close>

datatype NextHopPolicy = LeastHop | LeastCost

definition is_new_peer_better :: "RouteTable \<Rightarrow> PeerIdAndVersion \<Rightarrow> NextHopInfo \<Rightarrow> PeerIdAndVersion \<Rightarrow> bool" where
  "is_new_peer_better rt new item old =
     (if pv_version new > pv_version old then True
      else if pv_peer_id new = pv_peer_id old then False
      else case get_next_hop rt (pv_peer_id old) of None \<Rightarrow> True | Some o' \<Rightarrow> path_len item < path_len o')"

definition put_if :: "('v \<Rightarrow> bool) \<Rightarrow> 'k \<Rightarrow> 'v \<Rightarrow> ('k \<times> 'v) list \<Rightarrow> ('k \<times> 'v) list" where
  "put_if better k v tab =
     (case map_of tab k of Some old \<Rightarrow> if better old then AList.update k v tab else tab | None \<Rightarrow> AList.update k v tab)"

type_synonym cidr_maps =
  "((u32 \<times> nat) \<times> PeerIdAndVersion) list \<times> ((128 word \<times> nat) \<times> PeerIdAndVersion) list"

definition add_cidr ::
  "acl_env \<Rightarrow> RouteTable \<Rightarrow> PeerId \<Rightarrow> PeerIdAndVersion \<Rightarrow> NextHopInfo \<Rightarrow> string \<Rightarrow> cidr_maps \<Rightarrow> cidr_maps" where
  "add_cidr env rt my_peer_id pv item c maps =
     (let better = (\<lambda>e. pv_peer_id pv = my_peer_id \<or> is_new_peer_better rt pv item e) in
      case cidr_from_str env c of
        Some (CidrV4 a n) \<Rightarrow> (put_if better (a, n) pv (fst maps), snd maps)
      | Some (CidrV6 a n) \<Rightarrow> (fst maps, put_if better (a, n) pv (snd maps))
      | None \<Rightarrow> maps)"

definition add_peer ::
  "acl_env \<Rightarrow> PeerId \<Rightarrow> 'r SyncedRouteInfo \<Rightarrow> Version \<Rightarrow> PeerId \<times> NextHopInfo \<Rightarrow> RouteTable \<times> cidr_maps \<Rightarrow> RouteTable \<times> cidr_maps" where
  "add_peer env my_peer_id s ver item acc =
     (case (item, acc) of ((p, h), (rt, maps)) \<Rightarrow>
        if nh_version h < ver then acc
        else case map_of (peer_infos s) p of
            None \<Rightarrow> acc
          | Some info \<Rightarrow>
              let rt = rt\<lparr>rt_peer_infos := AList.update p info (rt_peer_infos rt)\<rparr>;
                  pv = \<lparr>pv_peer_id = p, pv_version = ver\<rparr>;
                  better = is_new_peer_better rt pv h;
                  rt = (case ipv4_addr info of
                      Some a \<Rightarrow> rt\<lparr>ipv4_peer_id_map := put_if better a pv (ipv4_peer_id_map rt)\<rparr> | None \<Rightarrow> rt);
                  rt = (case Option.bind (ipv6_addr info) v6_address of
                      Some a \<Rightarrow> rt\<lparr>ipv6_peer_id_map := put_if better a pv (ipv6_peer_id_map rt)\<rparr> | None \<Rightarrow> rt)
              in (rt, fold (add_cidr env rt my_peer_id pv h) (proxy_cidrs info) maps))"

definition build_from_synced_info ::
  "bool \<Rightarrow> acl_env \<Rightarrow> ((nat \<times> PeerId) list \<Rightarrow> nat) \<Rightarrow> ((PeerId \<Rightarrow> (PeerId \<times> nat) list) \<Rightarrow> PeerId \<Rightarrow> PeerId \<rightharpoonup> nat) \<Rightarrow>
     PeerId \<Rightarrow> 'r SyncedRouteInfo \<Rightarrow> NextHopPolicy \<Rightarrow> (PeerId \<Rightarrow> PeerId \<Rightarrow> u32) \<Rightarrow> RouteTable \<Rightarrow> RouteTable search_result" where
  "build_from_synced_info chk env pick hop_counts my_peer_id s policy calculate_cost rt =
     (let ver = synced_version s in
      sbind (Some (build_peer_graph_from_synced_info chk my_peer_id s calculate_cost)) (\<lambda>(g, start).
        if graph_nodes g = [] then Some (Inr rt)
        else
          sbind (case policy of
                LeastHop \<Rightarrow> gen_next_hop_map_with_least_hop chk pick hop_counts g start ver rt
              | LeastCost \<Rightarrow> gen_next_hop_map_with_least_cost chk pick g start ver rt) (\<lambda>rt.
            let (rt, v4, v6) = fold (add_peer env my_peer_id s ver) (next_hop_map rt) (rt, [], [])
            in Some (Inr (rt\<lparr>cidr_peer_id_map := v4, cidr_v6_peer_id_map := v6\<rparr>)))))"

text \<open>\<open>get_lpm\<close>: the entry of the longest prefix that covers the address.\<close>

definition get_peer_id_for_proxy ::
  "(((u32 \<times> nat) \<times> PeerIdAndVersion) list \<Rightarrow> u32 \<Rightarrow> PeerIdAndVersion option) \<Rightarrow>
   (((128 word \<times> nat) \<times> PeerIdAndVersion) list \<Rightarrow> 128 word \<Rightarrow> PeerIdAndVersion option) \<Rightarrow>
   RouteTable \<Rightarrow> IpAddr \<Rightarrow> PeerId option" where
  "get_peer_id_for_proxy get_lpm get_lpm6 rt ip =
     (case ip of
        V4 a \<Rightarrow> map_option pv_peer_id (get_lpm (cidr_peer_id_map rt) a)
      | V6 a \<Rightarrow> map_option pv_peer_id (get_lpm6 (cidr_v6_peer_id_map rt) a))"
end
