(* ===== verification/Ospf_Next_Hop.thy ===== *)
theory Ospf_Next_Hop
  imports Ospf_Route
begin

text \<open>
  What the routing table of \<open>Ospf_Route\<close> promises: under the least-cost policy a next hop is the
  first hop of a cheapest path, under the least-hop policy of a path that is cheapest among those
  with the fewest hops, where a hop out of a node that asks not to relay counts as very many; a
  destination has a next hop exactly when the synchronised connections lead to it.
\<close>

section \<open>The links between peers\<close>

definition known :: "'r SyncedRouteInfo \<Rightarrow> PeerId \<Rightarrow> bool" where
  "known s p \<longleftrightarrow> (case map_of (peer_infos s) p of Some i \<Rightarrow> version i \<noteq> 0 | None \<Rightarrow> False)"

definition connected :: "'r SyncedRouteInfo \<Rightarrow> PeerId \<Rightarrow> PeerId set" where
  "connected s p = (case get_connected_peers p s of Some c \<Rightarrow> c | None \<Rightarrow> {})"

definition link_cost :: "'r SyncedRouteInfo \<Rightarrow> (PeerId \<Rightarrow> PeerId \<Rightarrow> u32) \<Rightarrow> PeerId \<Rightarrow> PeerId \<Rightarrow> nat" where
  "link_cost s calculate_cost u v =
     unat (calculate_cost u v) + (if get_avoid_relay_data u s then AVOID_RELAY_COST else 0)"

text \<open>The links out of a peer that announced itself, to the connected peers that did.\<close>

definition links :: "'r SyncedRouteInfo \<Rightarrow> (PeerId \<Rightarrow> PeerId \<Rightarrow> u32) \<Rightarrow> PeerId \<Rightarrow> (PeerId \<times> nat) list" where
  "links s calculate_cost u =
     (if known s u then map (\<lambda>v. (v, link_cost s calculate_cost u v)) (sorted_list_of_set {v \<in> connected s u. known s v})
      else [])"

definition nonneg_costs :: "(PeerId \<Rightarrow> PeerId \<Rightarrow> u32) \<Rightarrow> bool" where
  "nonneg_costs calculate_cost \<longleftrightarrow> (\<forall>u v. unat (calculate_cost u v) < 2 ^ 31)"

definition max_link_cost :: nat where
  "max_link_cost = 2 * AVOID_RELAY_COST"

lemma i32_as_usize_nonneg: "unat c < 2 ^ 31 \<Longrightarrow> i32_as_usize c = unat c"
proof -
  assume "unat c < 2 ^ 31"
  then have "int (unat c) < int (2 ^ 31)"
    by (simp only: of_nat_less_iff)
  then have "uint c < 2 ^ 31"
    by (simp add: uint_nat [of c] del: of_nat_unat)
  then have "signed_take_bit 31 (uint c) = uint c"
    by (intro signed_take_bit_int_eq_self) (simp_all add: order_trans [OF _ uint_ge_0])
  then have "sint c = uint c"
    by (simp add: sint_uint)
  then have "(scast c :: u64) = word_of_int (uint c)"
    by (simp only: scast_eq)
  also have "\<dots> = ucast c"
    by (rule ucast_eq [symmetric])
  finally have "(scast c :: u64) = ucast c" .
  then show ?thesis
    using unsigned_less [of c, where 'a = nat] by (simp add: i32_as_usize_def unsigned_ucast_eq take_bit_nat_eq_self)
qed

lemma link_cost_le: "nonneg_costs cc \<Longrightarrow> link_cost s cc u v \<le> max_link_cost"
proof -
  assume "nonneg_costs cc"
  then have "unat (cc u v) < 2 ^ 31"
    by (simp add: nonneg_costs_def)
  then show ?thesis
    by (auto simp: link_cost_def max_link_cost_def AVOID_RELAY_COST_def)
qed

lemma peer_out_edges_ok:
  assumes "nonneg_costs cc"
  shows "peer_out_edges chk cc nodes u (get_avoid_relay_data u s) vs =
    Inr (map (\<lambda>v. (u, v, link_cost s cc u v)) (filter (\<lambda>v. v \<in> set nodes) vs))"
proof -
  have c: "unat (cc u v) < 2 ^ 31" for v
    using assms by (simp add: nonneg_costs_def)
  have "(let c = i32_as_usize (cc u v) in
      if get_avoid_relay_data u s then usize_add chk c AVOID_RELAY_COST else Inr c) = Inr (link_cost s cc u v)" for v
    using c [of v] i32_as_usize_nonneg [OF c, of v]
    by (simp add: Let_def link_cost_def usize_add_def AVOID_RELAY_COST_def usize_MAX_def)
  then show ?thesis
    by (induction vs) simp_all
qed

lemma all_out_edges_ok:
  assumes "nonneg_costs cc"
  shows "all_out_edges chk cc nodes s us = Inr (concat (map (\<lambda>u.
    map (\<lambda>v. (u, v, link_cost s cc u v)) (filter (\<lambda>v. v \<in> set nodes) (sorted_list_of_set (connected s u)))) us))"
  by (induction us) (simp_all add: peer_out_edges_ok [OF assms] connected_def)

lemma known_iff: "distinct (map fst (peer_infos s)) \<Longrightarrow>
  p \<in> set (map fst (filter (\<lambda>(p, i). version i \<noteq> 0) (peer_infos s))) \<longleftrightarrow> known s p"
proof -
  assume d: "distinct (map fst (peer_infos s))"
  have "p \<in> set (map fst (filter (\<lambda>(p, i). version i \<noteq> 0) (peer_infos s))) \<longleftrightarrow>
      (\<exists>i. (p, i) \<in> set (peer_infos s) \<and> version i \<noteq> 0)"
    by force
  also have "\<dots> \<longleftrightarrow> known s p"
  proof (cases "map_of (peer_infos s) p")
    case None
    then have "p \<notin> fst ` set (peer_infos s)"
      by (simp add: map_of_eq_None_iff)
    with None show ?thesis
      by (force simp: known_def)
  next
    case (Some i)
    then have "(p, j) \<in> set (peer_infos s) \<longleftrightarrow> j = i" for j
      using map_of_eq_Some_iff [OF d, of p] by (metis option.inject)
    with Some show ?thesis
      by (simp add: known_def)
  qed
  finally show ?thesis .
qed

lemma build_graph_ok:
  assumes "distinct (map fst (peer_infos s))" and "nonneg_costs cc" and "known s my"
  shows "\<exists>g. build_peer_graph_from_synced_info chk my s cc = Inr (g, Some my) \<and> set (graph_nodes g) = {p. known s p} \<and>
    distinct (graph_nodes g) \<and> (\<forall>u. set (edges_of g u) = set (links s cc u))"
proof -
  let ?nodes = "map fst (filter (\<lambda>(p, i). version i \<noteq> 0) (peer_infos s))"
  have nodes: "set ?nodes = {p. known s p}"
    using known_iff [OF assms(1)] by blast
  define es where "es = concat (map (\<lambda>u. map (\<lambda>v. (u, v, link_cost s cc u v))
      (filter (\<lambda>v. v \<in> set ?nodes) (sorted_list_of_set (connected s u)))) ?nodes)"
  have "my \<in> set ?nodes"
    using nodes assms(3) by blast
  then have "build_peer_graph_from_synced_info chk my s cc = Inr (\<lparr>graph_nodes = ?nodes, graph_edges = es\<rparr>, Some my)"
    unfolding build_peer_graph_from_synced_info_def all_out_edges_ok [OF assms(2)] es_def Let_def by simp
  moreover have "distinct ?nodes"
    using assms(1) distinct_map_filter by blast
  moreover have "set (edges_of \<lparr>graph_nodes = ?nodes, graph_edges = es\<rparr> u) = set (links s cc u)" for u
  proof -
    have "e \<in> set es \<longleftrightarrow> (\<exists>u\<in>set ?nodes. \<exists>v\<in>connected s u. v \<in> set ?nodes \<and> e = (u, v, link_cost s cc u v))" for e
      unfolding es_def by auto
    then show ?thesis
      unfolding nodes by (force simp: edges_of_def links_def)
  qed
  ultimately show ?thesis
    using nodes by (intro exI [of _ "\<lparr>graph_nodes = ?nodes, graph_edges = es\<rparr>"]) simp
qed

definition hop_found :: "(PeerId \<Rightarrow> (PeerId \<times> nat) list) \<Rightarrow> PeerId \<Rightarrow> NextHopInfo \<Rightarrow> PeerId \<Rightarrow> bool" where
  "hop_found E my h dst \<longleftrightarrow>
     (\<exists>c. shortest E my dst c \<and> walk E my (next_hop_peer_id h) c (path_len h) dst \<and>
          path_latency h = of_nat (c mod AVOID_RELAY_COST))"

section \<open>Walks depend on the set of edges\<close>

lemma walk_cong:
  assumes "\<And>u. set (E u) = set (E' u)"
  shows "walk E = walk E'"
proof -
  have "walk E' s f c k v" if "walk E s f c k v" "\<And>u. set (E u) = set (E' u)" for E E' :: "'a \<Rightarrow> ('a \<times> nat) list" and s f c k v
    using that(1)
  proof (induction rule: walk.induct)
    case (walk_next f c k u v w)
    then show ?case
      using that(2) walk.walk_next [of E' s f c k u v w] by auto
  qed (use that(2) walk.walk_start [of E' s] walk.walk_first [of _ _ E' s] in auto)
  then show ?thesis
    using assms by (intro ext) blast
qed

lemma hop_found_cong:
  assumes "\<And>u. set (E u) = set (E' u)"
  shows "hop_found E = hop_found E'"
  unfolding hop_found_def shortest_def walk_cong [OF assms] ..

lemma links_closed:
  assumes "nonneg_costs cc" and "known s my" and "\<And>u. set (E u) \<subseteq> set (links s cc u)"
  shows "closed_graph E my {p. known s p} max_link_cost"
proof -
  have "card {p. known s p} \<le> card (UNIV :: PeerId set)"
    by (rule card_mono) simp_all
  then have "card {p. known s p} * max_link_cost \<le> 2 ^ 32 * max_link_cost"
    by (intro mult_le_mono1) (simp add: card_word)
  also have "\<dots> \<le> usize_MAX"
    by (simp add: max_link_cost_def AVOID_RELAY_COST_def usize_MAX_def)
  finally have "card {p. known s p} * max_link_cost \<le> usize_MAX" .
  moreover have "v \<in> {p. known s p} \<and> w \<le> max_link_cost" if "(v, w) \<in> set (E u)" for u v w
    using assms(3) [of u] that link_cost_le [OF assms(1)] by (auto simp: links_def split: if_splits)
  ultimately show ?thesis
    using assms(2) unfolding closed_graph_def by auto
qed

section \<open>The table after a search\<close>

lemma store_next_hops_ok:
  assumes "distinct dsts" and "\<forall>d\<in>set dsts. \<forall>x. map_of tab d = Some x \<longrightarrow> nh_version x < ver"
    and "\<forall>d\<in>set dsts. hops d \<noteq> None \<longrightarrow> costs d \<noteq> None"
  shows "\<exists>tab'. store_next_hops ver costs hops dsts tab = Inr tab' \<and>
    (\<forall>d. map_of tab' d =
      (if d \<in> set dsts \<and> hops d \<noteq> None
       then Some \<lparr>next_hop_peer_id = fst (the (hops d)), path_latency = of_nat (the (costs d) mod AVOID_RELAY_COST),
                   path_len = snd (the (hops d)), nh_version = ver\<rparr>
       else map_of tab d))"
  using assms
proof (induction dsts arbitrary: tab)
  case (Cons d dsts)
  show ?case
  proof (cases "hops d")
    case None
    then show ?thesis
      using Cons.IH [of tab] Cons.prems by auto
  next
    case (Some h)
    obtain nh len c where h: "h = (nh, len)" and c: "costs d = Some c"
      using Some Cons.prems(3) by (cases h) auto
    define tab1 where "tab1 = AList.update d \<lparr>next_hop_peer_id = nh, path_latency = of_nat (c mod AVOID_RELAY_COST),
        path_len = len, nh_version = ver\<rparr> tab"
    have tab1: "map_of tab1 = (map_of tab)(d \<mapsto> \<lparr>next_hop_peer_id = nh, path_latency = of_nat (c mod AVOID_RELAY_COST),
        path_len = len, nh_version = ver\<rparr>)"
      by (simp add: tab1_def update_conv')
    have "store_next_hops ver costs hops (d # dsts) tab = store_next_hops ver costs hops dsts tab1"
      using Some h c Cons.prems(2) by (auto simp: tab1_def Let_def split: option.splits)
    moreover have "\<forall>x\<in>set dsts. \<forall>y. map_of tab1 x = Some y \<longrightarrow> nh_version y < ver"
      using Cons.prems(1,2) tab1 by auto
    ultimately show ?thesis
      using Cons.IH [of tab1] Cons.prems(1,3) tab1 Some h c by auto
  qed
qed simp

lemma add_peer_next_hops:
  "next_hop_map (fst (add_peer env my s ver item acc)) = next_hop_map (fst acc) \<and>
   next_hop_map_version (fst (add_peer env my s ver item acc)) = next_hop_map_version (fst acc)"
  by (cases item; cases acc) (simp add: add_peer_def Let_def split: option.split)

lemma add_peers_next_hops:
  "next_hop_map (fst (fold (add_peer env my s ver) items acc)) = next_hop_map (fst acc) \<and>
   next_hop_map_version (fst (fold (add_peer env my s ver) items acc)) = next_hop_map_version (fst acc)"
  by (induction items arbitrary: acc) (simp_all add: add_peer_next_hops)

text \<open>The table was last computed from an older state.\<close>

definition older :: "RouteTable \<Rightarrow> Version \<Rightarrow> bool" where
  "older rt ver \<longleftrightarrow> (\<forall>(p, h)\<in>set (next_hop_map rt). nh_version h < ver) \<and> next_hop_map_version rt \<le> ver"

lemma walk_in_closed: "closed_graph E s N W \<Longrightarrow> walk E s f c k v \<Longrightarrow> v \<in> N"
  by (rotate_tac 1, induction rule: walk.induct) (fastforce simp: closed_graph_def)+

lemma gen_least_cost_ok:
  assumes pick: "least_pick pick" and cl: "closed_graph (edges_of g) my (set (graph_nodes g)) W"
    and d: "distinct (graph_nodes g)" and old: "older rt ver"
  shows "\<exists>rt'. gen_next_hop_map_with_least_cost chk pick g (Some my) ver rt = Some (Inr rt') \<and>
    next_hop_map_version rt' = ver \<and>
    (\<forall>dst. case get_next_hop rt' dst of
        None \<Rightarrow> \<not> (\<exists>f c k. walk (edges_of g) my f c k dst) | Some h \<Rightarrow> hop_found (edges_of g) my h dst)"
proof -
  let ?E = "edges_of g"
  obtain sc fh where sf: "dijkstra_with_first_hop chk pick ?E my = Some (Inr (sc, fh))" "dom fh = dom sc"
    and all: "\<forall>v. case sc v of None \<Rightarrow> \<not> (\<exists>f c k. walk ?E my f c k v)
      | Some c \<Rightarrow> shortest ?E my v c \<and> (\<exists>f k. fh v = Some (f, k) \<and> walk ?E my f c k v)"
    using search_result [OF pick cl, of chk] by (elim exE conjE)
  note v = spec [OF all]
  have nodes: "v \<in> set (graph_nodes g)" if "fh v \<noteq> None" for v
  proof -
    have "v \<in> dom sc"
      using that unfolding sf(2) [symmetric] by (simp add: domIff)
    then obtain c where "sc v = Some c"
      by (auto simp: dom_def)
    then obtain f k where "walk ?E my f c k v"
      using v [of v] by auto
    then show ?thesis
      by (rule walk_in_closed [OF cl])
  qed
  obtain tab where tab: "store_next_hops ver sc fh (graph_nodes g) (next_hop_map rt) = Inr tab"
    and tab': "\<forall>v. map_of tab v = (if v \<in> set (graph_nodes g) \<and> fh v \<noteq> None
       then Some \<lparr>next_hop_peer_id = fst (the (fh v)), path_latency = of_nat (the (sc v) mod AVOID_RELAY_COST),
                   path_len = snd (the (fh v)), nh_version = ver\<rparr>
       else map_of (next_hop_map rt) v)"
  proof -
    have "\<forall>v\<in>set (graph_nodes g). \<forall>x. map_of (next_hop_map rt) v = Some x \<longrightarrow> nh_version x < ver"
      using old by (fastforce simp: older_def dest: map_of_SomeD)
    moreover have "\<forall>v\<in>set (graph_nodes g). fh v \<noteq> None \<longrightarrow> sc v \<noteq> None"
      using sf(2) by blast
    ultimately show ?thesis
      using store_next_hops_ok [OF d] that by blast
  qed
  let ?rt = "rt\<lparr>next_hop_map := tab, next_hop_map_version := fst (set_if_larger ver (next_hop_map_version rt))\<rparr>"
  have ver: "next_hop_map_version ?rt = ver"
    using old by (simp add: set_if_larger_def older_def max_def)
  have "case get_next_hop ?rt dst of None \<Rightarrow> \<not> (\<exists>f c k. walk ?E my f c k dst) | Some h \<Rightarrow> hop_found ?E my h dst" for dst
  proof (cases "sc dst")
    case None
    moreover have "fh dst = None"
      using None sf(2) by blast
    moreover have "\<not> nh_version h \<ge> ver" if "map_of (next_hop_map rt) dst = Some h" for h
      using old map_of_SomeD [OF that] by (fastforce simp: older_def)
    ultimately show ?thesis
      using v [of dst] tab' [rule_format, of dst] ver by (auto simp: get_next_hop_def split: option.splits)
  next
    case (Some c)
    then show ?thesis
      using v [of dst] tab' [rule_format, of dst] ver nodes [of dst] by (auto simp: get_next_hop_def hop_found_def)
  qed
  then show ?thesis
    using sf(1) tab ver by (auto simp: gen_next_hop_map_with_least_cost_def)
qed

text \<open>The table after its addresses have been filled in from the tables with the next hops of \<open>rt1\<close>.\<close>

definition filled_from :: "acl_env \<Rightarrow> PeerId \<Rightarrow> 'r SyncedRouteInfo \<Rightarrow> RouteTable \<Rightarrow> RouteTable \<Rightarrow> bool" where
  "filled_from env my s rt1 rt' \<longleftrightarrow>
     (\<exists>rt2 v4 v6. fold (add_peer env my s (synced_version s)) (next_hop_map rt1) (rt1, [], []) = (rt2, v4, v6) \<and>
        rt' = rt2\<lparr>cidr_peer_id_map := v4, cidr_v6_peer_id_map := v6\<rparr>)"

lemma filled_from_next_hop: "filled_from env my s rt1 rt' \<Longrightarrow> get_next_hop rt' = get_next_hop rt1"
  using add_peers_next_hops [of env my s "synced_version s" "next_hop_map rt1" "(rt1, [], [])"]
  by (auto simp: filled_from_def get_next_hop_def fun_eq_iff split: option.split)

lemma build_from_search:
  assumes d: "distinct (map fst (peer_infos s))" and k: "known s my" and cc: "nonneg_costs cc"
    and search: "\<And>g. closed_graph (edges_of g) my (set (graph_nodes g)) max_link_cost \<Longrightarrow> distinct (graph_nodes g) \<Longrightarrow>
      \<exists>rt'. (case policy of
              LeastHop \<Rightarrow> gen_next_hop_map_with_least_hop chk pick hop_counts g (Some my) (synced_version s) rt
            | LeastCost \<Rightarrow> gen_next_hop_map_with_least_cost chk pick g (Some my) (synced_version s) rt) = Some (Inr rt') \<and>
        Q (edges_of g) rt'"
    and cong: "\<And>E E' rt. (\<And>u. set (E u) = set (E' u)) \<Longrightarrow> Q E rt \<Longrightarrow> Q E' rt"
  shows "\<exists>rt1 rt'. build_from_synced_info chk env pick hop_counts my s policy cc rt = Some (Inr rt') \<and>
    Q (links s cc) rt1 \<and> filled_from env my s rt1 rt'"
proof -
  obtain g where g: "build_peer_graph_from_synced_info chk my s cc = Inr (g, Some my)" "set (graph_nodes g) = {p. known s p}"
      "distinct (graph_nodes g)" and E: "\<And>u. set (edges_of g u) = set (links s cc u)"
    using build_graph_ok [OF d cc k, of chk] by blast
  have ne: "graph_nodes g \<noteq> []"
    using g(2) k by auto
  have cl: "closed_graph (edges_of g) my (set (graph_nodes g)) max_link_cost"
    unfolding g(2) using links_closed [OF cc k] E by blast
  obtain rt1 where rt1: "(case policy of
        LeastHop \<Rightarrow> gen_next_hop_map_with_least_hop chk pick hop_counts g (Some my) (synced_version s) rt
      | LeastCost \<Rightarrow> gen_next_hop_map_with_least_cost chk pick g (Some my) (synced_version s) rt) = Some (Inr rt1)"
    and hops: "Q (edges_of g) rt1"
    using search [OF cl g(3)] by (elim exE conjE)
  obtain rt2 v4 v6 where fold: "fold (add_peer env my s (synced_version s)) (next_hop_map rt1) (rt1, [], []) = (rt2, v4, v6)"
    by (metis prod_cases3)
  let ?rt = "rt2\<lparr>cidr_peer_id_map := v4, cidr_v6_peer_id_map := v6\<rparr>"
  have "build_from_synced_info chk env pick hop_counts my s policy cc rt = Some (Inr ?rt)"
    using g(1) ne rt1 fold by (simp add: build_from_synced_info_def Let_def)
  moreover have "filled_from env my s rt1 ?rt"
    using fold by (simp add: filled_from_def)
  ultimately show ?thesis
    using cong [OF E hops] by blast
qed

lemma build_after_search:
  assumes "distinct (map fst (peer_infos s))" and "known s my" and "nonneg_costs cc"
    and "\<And>g. closed_graph (edges_of g) my (set (graph_nodes g)) max_link_cost \<Longrightarrow> distinct (graph_nodes g) \<Longrightarrow>
      \<exists>rt'. (case policy of
              LeastHop \<Rightarrow> gen_next_hop_map_with_least_hop chk pick hop_counts g (Some my) (synced_version s) rt
            | LeastCost \<Rightarrow> gen_next_hop_map_with_least_cost chk pick g (Some my) (synced_version s) rt) = Some (Inr rt') \<and>
        Q (edges_of g) (get_next_hop rt')"
    and "\<And>E E' h. (\<And>u. set (E u) = set (E' u)) \<Longrightarrow> Q E h \<Longrightarrow> Q E' h"
  shows "\<exists>rt'. build_from_synced_info chk env pick hop_counts my s policy cc rt = Some (Inr rt') \<and>
    Q (links s cc) (get_next_hop rt')"
proof -
  obtain rt1 rt' where "build_from_synced_info chk env pick hop_counts my s policy cc rt = Some (Inr rt')"
      "Q (links s cc) (get_next_hop rt1)" "filled_from env my s rt1 rt'"
    using build_from_search [OF assms(1-3), where policy = policy and Q = "\<lambda>E rt. Q E (get_next_hop rt)", OF assms(4)]
      assms(5) by blast
  then show ?thesis
    using filled_from_next_hop by force
qed

lemma build_least_cost_ok:
  assumes "least_pick pick" and "distinct (map fst (peer_infos s))" and "known s my" and "nonneg_costs cc"
    and "older rt (synced_version s)"
  shows "\<exists>rt'. build_from_synced_info chk env pick hop_counts my s LeastCost cc rt = Some (Inr rt') \<and>
    (\<forall>dst. case get_next_hop rt' dst of
        None \<Rightarrow> \<not> (\<exists>f c k. walk (links s cc) my f c k dst) | Some h \<Rightarrow> hop_found (links s cc) my h dst)"
proof (rule build_after_search [OF assms(2-4)])
  fix g
  assume "closed_graph (edges_of g) my (set (graph_nodes g)) max_link_cost" and "distinct (graph_nodes g)"
  then show "\<exists>rt'. (case LeastCost of
        LeastHop \<Rightarrow> gen_next_hop_map_with_least_hop chk pick hop_counts g (Some my) (synced_version s) rt
      | LeastCost \<Rightarrow> gen_next_hop_map_with_least_cost chk pick g (Some my) (synced_version s) rt) = Some (Inr rt') \<and>
      (\<forall>dst. case get_next_hop rt' dst of
          None \<Rightarrow> \<not> (\<exists>f c k. walk (edges_of g) my f c k dst) | Some h \<Rightarrow> hop_found (edges_of g) my h dst)"
    using gen_least_cost_ok [OF assms(1) _ _ assms(5), of g my max_link_cost chk] by auto
next
  fix E E' :: "PeerId \<Rightarrow> (PeerId \<times> nat) list" and h
  assume "\<And>u. set (E u) = set (E' u)"
  note cong = walk_cong [OF this] hop_found_cong [OF this]
  assume "\<forall>dst. case h dst of None \<Rightarrow> \<not> (\<exists>f c k. walk E my f c k dst) | Some h \<Rightarrow> hop_found E my h dst"
  then show "\<forall>dst. case h dst of None \<Rightarrow> \<not> (\<exists>f c k. walk E' my f c k dst) | Some h \<Rightarrow> hop_found E' my h dst"
    unfolding cong .
qed

text \<open>
  C5: Least-cost routing forwards along cheapest paths. Rebuilding the table from a newer state of
  the synchronised tables always returns without a panic. Afterwards a destination has a next hop
  exactly when the announced connections lead to it from this node, and the next hop, the number
  of hops and the latency are those of a path of least total cost; the search cannot overflow
  whatever the number of peers, as long as no link has a negative cost.
\<close>

theorem route_least_cost:
  assumes "least_pick pick" and "distinct (map fst (peer_infos s))" and "known s my" and "nonneg_costs cc"
    and "older rt (synced_version s)"
  shows "\<exists>rt'. build_from_synced_info chk env pick hop_counts my s LeastCost cc rt = Some (Inr rt') \<and>
    (\<forall>dst. case get_next_hop rt' dst of
        None \<Rightarrow> \<not> (\<exists>f c k. walk (links s cc) my f c k dst) | Some h \<Rightarrow> hop_found (links s cc) my h dst)"
  using build_least_cost_ok [OF assms] .

section \<open>Fewest hops first\<close>

text \<open>A walk with its cost \<open>c\<close>, its weighted number of hops \<open>n\<close> and its number of edges \<open>k\<close>.\<close>

inductive hop_walk :: "('n \<Rightarrow> ('n \<times> nat) list) \<Rightarrow> 'n \<Rightarrow> 'n \<Rightarrow> nat \<Rightarrow> nat \<Rightarrow> nat \<Rightarrow> 'n \<Rightarrow> bool" for E s where
  hop_start: "hop_walk E s s 0 0 0 s"
| hop_first: "(v, w) \<in> set (E s) \<Longrightarrow> hop_walk E s v w (normalize_edge_cost w) 1 v"
| hop_next: "hop_walk E s f c n k u \<Longrightarrow> 0 < k \<Longrightarrow> (v, w) \<in> set (E u) \<Longrightarrow>
    hop_walk E s f (c + w) (n + normalize_edge_cost w) (k + 1) v"

definition hop_edges :: "('n \<Rightarrow> ('n \<times> nat) list) \<Rightarrow> 'n \<Rightarrow> ('n \<times> nat) list" where
  "hop_edges E u = map (\<lambda>(v, w). (v, normalize_edge_cost w)) (E u)"

text \<open>\<open>petgraph::algo::dijkstra\<close>: the least cost to every node that can be reached, and no other node.\<close>

definition shortest_counts :: "(('n \<Rightarrow> ('n \<times> nat) list) \<Rightarrow> 'n \<Rightarrow> 'n \<rightharpoonup> nat) \<Rightarrow> bool" where
  "shortest_counts hop_counts \<longleftrightarrow>
     (\<forall>E s N W v. closed_graph E s N W \<longrightarrow>
        (case hop_counts E s v of None \<Rightarrow> \<not> (\<exists>f c k. walk E s f c k v) | Some n \<Rightarrow> shortest E s v n))"

definition best_hops :: "('n \<Rightarrow> ('n \<times> nat) list) \<Rightarrow> 'n \<Rightarrow> 'n \<Rightarrow> nat \<Rightarrow> nat \<Rightarrow> bool" where
  "best_hops E s v c n \<longleftrightarrow>
     (\<forall>f' c' n' k'. hop_walk E s f' c' n' k' v \<longrightarrow> n < n' \<or> n = n' \<and> c \<le> c')"

lemma hop_edges_iff: "(v, n) \<in> set (hop_edges E u) \<longleftrightarrow> (\<exists>w. (v, w) \<in> set (E u) \<and> n = normalize_edge_cost w)"
  by (auto simp: hop_edges_def)

lemma hop_walk_walks:
  assumes "hop_walk E s f c n k v"
  shows "walk E s f c k v" and "walk (hop_edges E) s f n k v"
proof -
  have "walk E s f c k v \<and> walk (hop_edges E) s f n k v"
    using assms
  proof (induction rule: hop_walk.induct)
    case (hop_first v w)
    then have "(v, normalize_edge_cost w) \<in> set (hop_edges E s)"
      by (auto simp: hop_edges_iff)
    with hop_first show ?case
      by (intro conjI walk_first)
  next
    case (hop_next f c n k u v w)
    then have "(v, normalize_edge_cost w) \<in> set (hop_edges E u)"
      by (auto simp: hop_edges_iff)
    with hop_next show ?case
      by (intro conjI walk_next [of _ _ _ _ _ u]) simp_all
  qed (simp add: walk_start)
  then show "walk E s f c k v" and "walk (hop_edges E) s f n k v"
    by blast+
qed

lemma walk_hop_walk: "walk (hop_edges E) s f n k v \<Longrightarrow> \<exists>c. hop_walk E s f c n k v"
proof (induction rule: walk.induct)
  case walk_start
  then show ?case
    by (intro exI) (rule hop_start)
next
  case (walk_first v n)
  then obtain w where "(v, w) \<in> set (E s)" "n = normalize_edge_cost w"
    by (auto simp: hop_edges_iff)
  then show ?case
    using hop_first by fast
next
  case (walk_next f n k u v m)
  then obtain c w where "hop_walk E s f c n k u" "(v, w) \<in> set (E u)" "m = normalize_edge_cost w"
    by (auto simp: hop_edges_iff)
  then show ?case
    using hop_next [of E s f c n k u v w] walk_next.hyps(2) by blast
qed

lemma walk_zero: "walk E s f c 0 u \<Longrightarrow> u = s \<and> c = 0"
  by (erule walk.cases) auto

lemma walk_extend: "walk E s f c k u \<Longrightarrow> (v, w) \<in> set (E u) \<Longrightarrow> \<exists>f' k'. walk E s f' (c + w) k' v"
proof (cases k)
  case 0
  assume "walk E s f c k u" "(v, w) \<in> set (E u)"
  then show ?thesis
    using 0 walk_zero [of E s f c u] walk_first [of v w E s] by auto
next
  case (Suc m)
  assume "walk E s f c k u" "(v, w) \<in> set (E u)"
  then show ?thesis
    using Suc walk_next [of E s f c k u v w] by blast
qed

lemma subgraph_edges:
  "(v, w) \<in> set (edges_of (least_hop_subgraph g pl) u) \<longleftrightarrow>
     (v, w) \<in> set (edges_of g u) \<and> (\<exists>a. pl u = Some a \<and> pl v = Some (a + normalize_edge_cost w))"
  by (force simp: edges_of_def least_hop_subgraph_def split: option.splits)

lemma subgraph_walk:
  assumes "pl s = Some 0" and "walk (edges_of (least_hop_subgraph g pl)) s f c k v"
  shows "\<exists>n. pl v = Some n \<and> hop_walk (edges_of g) s f c n k v"
  using assms(2)
proof (induction rule: walk.induct)
  case walk_start
  then show ?case
    using assms(1) hop_start [of "edges_of g" s] by auto
next
  case (walk_first v w)
  then show ?case
    using assms(1) hop_first [of v w "edges_of g" s] by (auto simp: subgraph_edges)
next
  case (walk_next f c k u v w)
  then show ?case
    using hop_next [of "edges_of g" s f c _ k u v w] by (auto simp: subgraph_edges)
qed

lemma best_walk_in_subgraph:
  assumes pl: "\<And>v. case pl v of None \<Rightarrow> \<not> (\<exists>f c k. walk (hop_edges (edges_of g)) s f c k v)
      | Some n \<Rightarrow> shortest (hop_edges (edges_of g)) s v n"
    and w: "hop_walk (edges_of g) s f c n k v" and n: "pl v = Some n"
  shows "walk (edges_of (least_hop_subgraph g pl)) s f c k v"
proof -
  have low: "\<exists>m\<le>n. pl v = Some m" if "walk (hop_edges (edges_of g)) s f n k v" for f n k v
    using pl [of v] that by (auto simp: shortest_def split: option.splits)
  have tri: "b \<le> a + normalize_edge_cost w" if u: "pl u = Some a" and v: "pl v = Some b" and e: "(v, w) \<in> set (edges_of g u)" for u v w a b
  proof -
    obtain f k where "walk (hop_edges (edges_of g)) s f a k u"
      using pl [of u] u by (auto simp: shortest_def)
    moreover have "(v, normalize_edge_cost w) \<in> set (hop_edges (edges_of g) u)"
      using e by (auto simp: hop_edges_iff)
    ultimately obtain f' k' where "walk (hop_edges (edges_of g)) s f' (a + normalize_edge_cost w) k' v"
      using walk_extend by fast
    then show ?thesis
      using low v by fastforce
  qed
  show ?thesis
    using w n
  proof (induction rule: hop_walk.induct)
    case hop_start
    then show ?case
      by (simp add: walk_start)
  next
    case (hop_first v w)
    have "pl s = Some 0"
      using low [OF walk_start] by auto
    then show ?case
      using hop_first by (intro walk_first) (auto simp: subgraph_edges)
  next
    case (hop_next f c n k u v w)
    obtain m where m: "m \<le> n" "pl u = Some m"
      using low [OF hop_walk_walks(2) [OF hop_next.hyps(1)]] by blast
    then have "m = n"
      using tri [OF m(2) hop_next.prems hop_next.hyps(3)] by simp
    then show ?case
      using hop_next m by (intro walk_next) (auto simp: subgraph_edges)
  qed
qed

lemma walk_has_hops: "walk E s f c k v \<Longrightarrow> \<exists>n. hop_walk E s f c n k v"
proof (induction rule: walk.induct)
  case walk_start
  then show ?case
    by (intro exI) (rule hop_start)
next
  case (walk_first v w)
  then show ?case
    by (intro exI) (rule hop_first)
next
  case (walk_next f c k u v w)
  then obtain n where "hop_walk E s f c n k u"
    by blast
  then show ?case
    using hop_next [of E s f c n k u v w] walk_next.hyps by blast
qed

lemma hop_walk_cong:
  assumes "\<And>u. set (E u) = set (E' u)"
  shows "hop_walk E = hop_walk E'"
proof -
  have "hop_walk E' s f c n k v" if "hop_walk E s f c n k v" "\<And>u. set (E u) = set (E' u)"
    for E E' :: "'a \<Rightarrow> ('a \<times> nat) list" and s f c n k v
    using that(1)
  proof (induction rule: hop_walk.induct)
    case (hop_next f c n k u v w)
    then show ?case
      using that(2) hop_walk.hop_next [of E' s f c n k u v w] by auto
  next
    case (hop_first v w)
    then show ?case
      using that(2) hop_walk.hop_first [of v w E' s] by auto
  qed (rule hop_walk.hop_start)
  then show ?thesis
    using assms by (intro ext) blast
qed

definition hop_best :: "(PeerId \<Rightarrow> (PeerId \<times> nat) list) \<Rightarrow> PeerId \<Rightarrow> NextHopInfo \<Rightarrow> PeerId \<Rightarrow> bool" where
  "hop_best E my h dst \<longleftrightarrow>
     (\<exists>c n. hop_walk E my (next_hop_peer_id h) c n (path_len h) dst \<and> best_hops E my dst c n \<and>
            path_latency h = of_nat (c mod AVOID_RELAY_COST))"

lemma hop_best_cong:
  assumes "\<And>u. set (E u) = set (E' u)"
  shows "hop_best E = hop_best E'"
  unfolding hop_best_def best_hops_def hop_walk_cong [OF assms] ..

lemma hop_edges_closed:
  assumes "closed_graph E s N max_link_cost"
  shows "closed_graph (hop_edges E) s N max_link_cost"
proof -
  have "normalize_edge_cost w \<le> max_link_cost" for w
    by (simp add: normalize_edge_cost_def max_link_cost_def AVOID_RELAY_COST_def)
  then show ?thesis
    using assms by (fastforce simp: closed_graph_def hop_edges_iff)
qed

lemma subgraph_closed:
  assumes "closed_graph (edges_of g) my (set (graph_nodes g)) W"
  shows "closed_graph (edges_of (least_hop_subgraph g pl)) my (set (graph_nodes (least_hop_subgraph g pl))) W"
proof -
  have "set (edges_of (least_hop_subgraph g pl) u) \<subseteq> set (edges_of g u)" for u
    by (auto simp: subgraph_edges)
  moreover have "graph_nodes (least_hop_subgraph g pl) = graph_nodes g"
    by (simp add: least_hop_subgraph_def)
  ultimately show ?thesis
    using assms unfolding closed_graph_def by fastforce
qed

lemma gen_least_hop_ok:
  assumes pick: "least_pick pick" and counts: "shortest_counts hop_counts"
    and cl: "closed_graph (edges_of g) my (set (graph_nodes g)) max_link_cost"
    and d: "distinct (graph_nodes g)" and old: "older rt ver"
  shows "\<exists>rt'. gen_next_hop_map_with_least_hop chk pick hop_counts g (Some my) ver rt = Some (Inr rt') \<and>
    (\<forall>dst. case get_next_hop rt' dst of
        None \<Rightarrow> \<not> (\<exists>f c k. walk (edges_of g) my f c k dst) | Some h \<Rightarrow> hop_best (edges_of g) my h dst)"
proof -
  let ?E = "edges_of g"
  define pl where "pl = hop_counts (hop_edges ?E) my"
  define sub where "sub = least_hop_subgraph g pl"
  have pl: "case pl v of None \<Rightarrow> \<not> (\<exists>f c k. walk (hop_edges ?E) my f c k v)
      | Some n \<Rightarrow> shortest (hop_edges ?E) my v n" for v
    using counts hop_edges_closed [OF cl] unfolding shortest_counts_def pl_def by blast
  have pl0: "pl my = Some 0"
    using pl [of my] walk_start [of "hop_edges ?E" my] by (auto simp: shortest_def split: option.splits)
  have "closed_graph (edges_of sub) my (set (graph_nodes sub)) max_link_cost"
    unfolding sub_def by (rule subgraph_closed [OF cl])
  then obtain rt' where rt': "gen_next_hop_map_with_least_cost chk pick sub (Some my) ver rt = Some (Inr rt')"
    and hops: "\<forall>dst. case get_next_hop rt' dst of
        None \<Rightarrow> \<not> (\<exists>f c k. walk (edges_of sub) my f c k dst) | Some h \<Rightarrow> hop_found (edges_of sub) my h dst"
    using gen_least_cost_ok [OF pick _ _ old, of sub my max_link_cost chk] d by (auto simp: sub_def least_hop_subgraph_def)
  note best = best_walk_in_subgraph [OF pl, folded sub_def]
  have "\<not> (\<exists>f c k. walk ?E my f c k dst)" if none: "get_next_hop rt' dst = None" for dst
  proof
    assume "\<exists>f c k. walk ?E my f c k dst"
    then obtain f c k where w: "walk ?E my f c k dst"
      by (elim exE)
    obtain n where "hop_walk ?E my f c n k dst"
      using walk_has_hops [OF w] by (elim exE)
    note hw = hop_walk_walks(2) [OF this]
    obtain m where m: "pl dst = Some m" "shortest (hop_edges ?E) my dst m"
      using pl [of dst] hw by (cases "pl dst") auto
    then obtain f1 k1 where w1: "walk (hop_edges ?E) my f1 m k1 dst"
      unfolding shortest_def by (elim exE conjE)
    obtain c1 where "hop_walk ?E my f1 c1 m k1 dst"
      using walk_hop_walk [OF w1] by (elim exE)
    from best [OF this m(1)] show False
      using spec [OF hops, of dst] none by auto
  qed
  moreover have "hop_best ?E my h dst" if some: "get_next_hop rt' dst = Some h" for dst h
  proof -
    obtain c where c: "shortest (edges_of sub) my dst c" "walk (edges_of sub) my (next_hop_peer_id h) c (path_len h) dst"
        "path_latency h = of_nat (c mod AVOID_RELAY_COST)"
      using hops [rule_format, of dst] some by (auto simp: hop_found_def)
    obtain n where n: "pl dst = Some n" "hop_walk ?E my (next_hop_peer_id h) c n (path_len h) dst"
      using subgraph_walk [of pl my, OF pl0 c(2) [unfolded sub_def]] by (elim exE conjE)
    have "n < n' \<or> n = n' \<and> c \<le> c'" if w: "hop_walk ?E my f' c' n' k' dst" for f' c' n' k'
    proof -
      have "n \<le> n'"
        using pl [of dst] n(1) hop_walk_walks(2) [OF w] by (auto simp: shortest_def)
      moreover have "c \<le> c'" if "n' = n"
        using best [OF w] n(1) that c(1) by (auto simp: shortest_def)
      ultimately show ?thesis
        by auto
    qed
    then show ?thesis
      using n(2) c(3) unfolding hop_best_def best_hops_def by blast
  qed
  ultimately show ?thesis
    using rt' by (auto simp: gen_next_hop_map_with_least_hop_def sub_def pl_def hop_edges_def [abs_def] Let_def split: option.split)
qed

lemma build_least_hop_ok:
  assumes "least_pick pick" and "shortest_counts hop_counts" and "distinct (map fst (peer_infos s))" and "known s my"
    and "nonneg_costs cc" and "older rt (synced_version s)"
  shows "\<exists>rt'. build_from_synced_info chk env pick hop_counts my s LeastHop cc rt = Some (Inr rt') \<and>
    (\<forall>dst. case get_next_hop rt' dst of
        None \<Rightarrow> \<not> (\<exists>f c k. walk (links s cc) my f c k dst) | Some h \<Rightarrow> hop_best (links s cc) my h dst)"
proof (rule build_after_search [OF assms(3-5)])
  fix g
  assume "closed_graph (edges_of g) my (set (graph_nodes g)) max_link_cost" and "distinct (graph_nodes g)"
  then show "\<exists>rt'. (case LeastHop of
        LeastHop \<Rightarrow> gen_next_hop_map_with_least_hop chk pick hop_counts g (Some my) (synced_version s) rt
      | LeastCost \<Rightarrow> gen_next_hop_map_with_least_cost chk pick g (Some my) (synced_version s) rt) = Some (Inr rt') \<and>
      (\<forall>dst. case get_next_hop rt' dst of
          None \<Rightarrow> \<not> (\<exists>f c k. walk (edges_of g) my f c k dst) | Some h \<Rightarrow> hop_best (edges_of g) my h dst)"
    using gen_least_hop_ok [OF assms(1,2) _ _ assms(6), of g my chk] by auto
next
  fix E E' :: "PeerId \<Rightarrow> (PeerId \<times> nat) list" and h
  assume "\<And>u. set (E u) = set (E' u)"
  note cong = walk_cong [OF this] hop_best_cong [OF this]
  assume "\<forall>dst. case h dst of None \<Rightarrow> \<not> (\<exists>f c k. walk E my f c k dst) | Some h \<Rightarrow> hop_best E my h dst"
  then show "\<forall>dst. case h dst of None \<Rightarrow> \<not> (\<exists>f c k. walk E' my f c k dst) | Some h \<Rightarrow> hop_best E' my h dst"
    unfolding cong .
qed

text \<open>
  C7: Least-hop routing. Under the least-hop policy the rebuild returns as well; a destination has a
  next hop exactly when the announced connections lead to it, and the path of that next hop has
  the fewest hops, a hop out of a peer that avoids relaying counting as more than any path of
  ordinary hops, and among the paths with that many hops the least cost.
\<close>

theorem route_least_hop:
  assumes "least_pick pick" and "shortest_counts hop_counts" and "distinct (map fst (peer_infos s))" and "known s my"
    and "nonneg_costs cc" and "older rt (synced_version s)"
  shows "\<exists>rt'. build_from_synced_info chk env pick hop_counts my s LeastHop cc rt = Some (Inr rt') \<and>
    (\<forall>dst. case get_next_hop rt' dst of
        None \<Rightarrow> \<not> (\<exists>f c k. walk (links s cc) my f c k dst) | Some h \<Rightarrow> hop_best (links s cc) my h dst)"
  using build_least_hop_ok [OF assms] .

section \<open>A network of three peers\<close>

text \<open>Peer 1 is connected to 2, peer 2 to 3; peer 4 is connected to nobody.\<close>

definition announced :: "PeerId \<Rightarrow> RoutePeerInfo" where
  "announced p = RoutePeerInfo_default\<lparr>peer_id := p, version := 1\<rparr>"

definition sample_synced :: "unit SyncedRouteInfo" where
  "sample_synced = SyncedRouteInfo_empty
     \<lparr>peer_infos := [(1, announced 1), (2, announced 2), (3, announced 3), (4, announced 4)],
      conn_map := [(1, {2}, 1), (2, {1, 3}, 1), (3, {2}, 1)], synced_version := 1\<rparr>"

definition no_cidrs :: acl_env where
  "no_cidrs = \<lparr>cidr_from_str = \<lambda>_. None, v4_contains = \<lambda>_ _ _. False, v6_contains = \<lambda>_ _ _. False, show_ip = \<lambda>_. []\<rparr>"

definition searched_counts :: "(PeerId \<Rightarrow> (PeerId \<times> nat) list) \<Rightarrow> PeerId \<Rightarrow> PeerId \<rightharpoonup> nat" where
  "searched_counts E s = (case dijkstra_with_first_hop True least_index E s of Some (Inr (sc, fh)) \<Rightarrow> sc | _ \<Rightarrow> Map.empty)"

lemma searched_counts_shortest: "shortest_counts searched_counts"
  unfolding shortest_counts_def
proof (intro allI impI)
  fix E :: "PeerId \<Rightarrow> (PeerId \<times> nat) list" and s N W v
  assume cl: "closed_graph E s N W"
  obtain sc fh where sf: "dijkstra_with_first_hop True least_index E s = Some (Inr (sc, fh))" "dom fh = dom sc"
    and all: "\<forall>v. case sc v of None \<Rightarrow> \<not> (\<exists>f c k. walk E s f c k v)
      | Some c \<Rightarrow> shortest E s v c \<and> (\<exists>f k. fh v = Some (f, k) \<and> walk E s f c k v)"
    using search_result [OF least_pick_least_index cl, of True] by (elim exE conjE)
  show "case searched_counts E s v of None \<Rightarrow> \<not> (\<exists>f c k. walk E s f c k v) | Some n \<Rightarrow> shortest E s v n"
    using spec [OF all, of v] by (auto simp: searched_counts_def sf(1) split: option.splits)
qed

lemma sample_synced_ok:
  "distinct (map fst (peer_infos sample_synced))" "known sample_synced 1" "nonneg_costs (\<lambda>_ _. 1)"
  "older RouteTable_new (synced_version sample_synced)"
  by (simp_all add: sample_synced_def SyncedRouteInfo_empty_def known_def announced_def RoutePeerInfo_default_def
      nonneg_costs_def older_def RouteTable_new_def)

lemma sample_walk: "walk (links sample_synced (\<lambda>_ _. 1)) 1 2 2 2 3"
proof -
  have "(2, 1) \<in> set (links sample_synced (\<lambda>_ _. 1) 1)" and "(3, 1) \<in> set (links sample_synced (\<lambda>_ _. 1) 2)"
    by (simp_all add: links_def sample_synced_def SyncedRouteInfo_empty_def known_def announced_def
        RoutePeerInfo_default_def connected_def get_connected_peers_def link_cost_def get_avoid_relay_data_def)
  then show ?thesis
    using walk_next [OF walk_first, of 2 1 "links sample_synced (\<lambda>_ _. 1)" 1 3 1] by (simp add: eval_nat_numeral)
qed

theorem route_least_cost_witness:
  "\<exists>rt' h. build_from_synced_info True no_cidrs least_index searched_counts 1 sample_synced LeastCost (\<lambda>_ _. 1) RouteTable_new =
      Some (Inr rt') \<and> get_next_hop rt' 3 = Some h \<and> hop_found (links sample_synced (\<lambda>_ _. 1)) 1 h 3"
proof -
  obtain rt' where r: "build_from_synced_info True no_cidrs least_index searched_counts 1 sample_synced LeastCost
        (\<lambda>_ _. 1) RouteTable_new = Some (Inr rt')"
    and all: "\<forall>dst. case get_next_hop rt' dst of
        None \<Rightarrow> \<not> (\<exists>f c k. walk (links sample_synced (\<lambda>_ _. 1)) 1 f c k dst)
      | Some h \<Rightarrow> hop_found (links sample_synced (\<lambda>_ _. 1)) 1 h dst"
    using route_least_cost [OF least_pick_least_index sample_synced_ok, of True no_cidrs searched_counts] by (elim exE conjE)
  show ?thesis
    using r sample_walk spec [OF all, of 3] by (cases "get_next_hop rt' 3") auto
qed

theorem route_least_hop_witness:
  "\<exists>rt' h. build_from_synced_info True no_cidrs least_index searched_counts 1 sample_synced LeastHop (\<lambda>_ _. 1) RouteTable_new =
      Some (Inr rt') \<and> get_next_hop rt' 3 = Some h \<and> hop_best (links sample_synced (\<lambda>_ _. 1)) 1 h 3"
proof -
  obtain rt' where r: "build_from_synced_info True no_cidrs least_index searched_counts 1 sample_synced LeastHop
        (\<lambda>_ _. 1) RouteTable_new = Some (Inr rt')"
    and all: "\<forall>dst. case get_next_hop rt' dst of
        None \<Rightarrow> \<not> (\<exists>f c k. walk (links sample_synced (\<lambda>_ _. 1)) 1 f c k dst)
      | Some h \<Rightarrow> hop_best (links sample_synced (\<lambda>_ _. 1)) 1 h dst"
    using route_least_hop [OF least_pick_least_index searched_counts_shortest sample_synced_ok, of True no_cidrs]
    by (elim exE conjE)
  show ?thesis
    using r sample_walk spec [OF all, of 3] by (cases "get_next_hop rt' 3") auto
qed

end
