(* ===== verification/Ospf_Address.thy ===== *)
theory Ospf_Address
  imports Ospf_Next_Hop
begin

text \<open>
  The address tables of \<open>RouteTable\<close>: which peer an IPv4 or IPv6 address, or a proxied network,
  leads to. The four tables are filled by the same rule while the peers with a next hop are gone
  through; the rule is stated once, as an interface, with its consequence that the nearest
  claimant wins whatever the order.
\<close>

section \<open>The nearest claimant wins\<close>

definition hops_to :: "RouteTable \<Rightarrow> PeerId \<Rightarrow> nat" where
  "hops_to rt p = (case get_next_hop rt p of Some h \<Rightarrow> path_len h | None \<Rightarrow> 0)"

definition claimants :: "(PeerId \<Rightarrow> bool) \<Rightarrow> Version \<Rightarrow> (PeerId \<times> NextHopInfo) list \<Rightarrow> PeerId set" where
  "claimants claims ver items = {p. \<exists>h. (p, h) \<in> set items \<and> ver \<le> nh_version h \<and> claims p}"

lemma claimants_snoc:
  "claimants claims ver (items @ [(p, h)]) =
     (if ver \<le> nh_version h \<and> claims p then insert p (claimants claims ver items) else claimants claims ver items)"
  by (auto simp: claimants_def)

lemma claimants_keys: "p \<in> claimants claims ver items \<Longrightarrow> p \<in> set (map fst items)"
  by (force simp: claimants_def)

lemma add_peers_get_next_hop: "get_next_hop (fst (fold (add_peer env my s ver) items acc)) = get_next_hop (fst acc)"
  unfolding get_next_hop_def add_peers_next_hops [THEN conjunct1] add_peers_next_hops [THEN conjunct2] ..

lemma is_new_peer_better_cong:
  "get_next_hop rt = get_next_hop rt' \<Longrightarrow> is_new_peer_better rt pv h old = is_new_peer_better rt' pv h old"
  by (simp add: is_new_peer_better_def)

text \<open>
  The entry \<open>new\<close> of an address claimed by the peers of \<open>P\<close>: the nearest of them holds it, and a
  preferred one when there is one; without claimant the entry is what it was.
\<close>

definition nearest_holds ::
  "RouteTable \<Rightarrow> Version \<Rightarrow> PeerId set \<Rightarrow> (PeerId \<Rightarrow> bool) \<Rightarrow> PeerIdAndVersion option \<Rightarrow> PeerIdAndVersion option \<Rightarrow> bool" where
  "nearest_holds rt ver P preferred old new \<longleftrightarrow>
     (if P = {} then new = old
      else \<exists>p\<in>P. new = Some \<lparr>pv_peer_id = p, pv_version = ver\<rparr> \<and>
             (\<forall>q\<in>P. hops_to rt p \<le> hops_to rt q \<and> (preferred q \<longrightarrow> p = q)))"

text \<open>
  One entry of an address table while \<open>add_peer\<close> goes through the peers: a peer that claims the
  entry takes it when it is free, when it is \<open>preferred\<close>, or when it is better than the holder.
\<close>

locale address_slot =
  fixes env :: acl_env and my :: PeerId and s :: "'r SyncedRouteInfo" and ver :: Version
    and slot :: "RouteTable \<times> cidr_maps \<Rightarrow> PeerIdAndVersion option"
    and claims :: "PeerId \<Rightarrow> bool" and preferred :: "PeerId \<Rightarrow> bool"
  assumes slot_add_peer:
    "slot (add_peer env my s ver (p, h) acc) =
       (if ver \<le> nh_version h \<and> claims p
        then Some (case slot acc of
               None \<Rightarrow> \<lparr>pv_peer_id = p, pv_version = ver\<rparr>
             | Some old \<Rightarrow>
                 if preferred p \<or> is_new_peer_better (fst acc) \<lparr>pv_peer_id = p, pv_version = ver\<rparr> h old
                 then \<lparr>pv_peer_id = p, pv_version = ver\<rparr> else old)
        else slot acc)"
begin

definition settled :: "RouteTable \<Rightarrow> (PeerId \<times> NextHopInfo) list \<Rightarrow> PeerIdAndVersion option \<Rightarrow> PeerIdAndVersion option \<Rightarrow> bool" where
  "settled rt items = nearest_holds rt ver (claimants claims ver items) preferred"

lemma settled_step:
  assumes ih: "settled rt items old (slot acc)" and rt: "get_next_hop (fst acc) = get_next_hop rt"
    and new: "p \<notin> set (map fst items)" and h: "ver \<le> nh_version h" "get_next_hop rt p = Some h"
    and known: "\<And>q. q \<in> claimants claims ver items \<Longrightarrow> get_next_hop rt q \<noteq> None"
    and old: "\<And>e. old = Some e \<Longrightarrow> pv_version e < ver" and c: "claims p"
    and pref: "\<And>q. preferred q \<Longrightarrow> hops_to rt q = 0" "\<And>q q'. preferred q \<Longrightarrow> preferred q' \<Longrightarrow> q = q'"
  shows "settled rt (items @ [(p, h)]) old (slot (add_peer env my s ver (p, h) acc))"
proof (cases "claimants claims ver items = {}")
  case True
  then have "slot acc = old"
    using ih by (simp add: settled_def nearest_holds_def)
  then have "slot (add_peer env my s ver (p, h) acc) = Some \<lparr>pv_peer_id = p, pv_version = ver\<rparr>"
    using h(1) c old by (auto simp: slot_add_peer is_new_peer_better_def split: option.split)
  then show ?thesis
    using True h c by (simp add: settled_def nearest_holds_def claimants_snoc)
next
  case False
  then obtain w where w: "w \<in> claimants claims ver items" "slot acc = Some \<lparr>pv_peer_id = w, pv_version = ver\<rparr>"
      "\<And>q. q \<in> claimants claims ver items \<Longrightarrow> hops_to rt w \<le> hops_to rt q \<and> (preferred q \<longrightarrow> w = q)"
    using ih by (auto simp: settled_def nearest_holds_def)
  have ne: "p \<noteq> w"
    using claimants_keys [OF w(1)] new by auto
  have "is_new_peer_better (fst acc) \<lparr>pv_peer_id = p, pv_version = ver\<rparr> h \<lparr>pv_peer_id = w, pv_version = ver\<rparr> \<longleftrightarrow>
      hops_to rt p < hops_to rt w"
    using known [OF w(1)] ne h(2) by (auto simp: is_new_peer_better_def hops_to_def rt)
  then have slot: "slot (add_peer env my s ver (p, h) acc) =
      Some \<lparr>pv_peer_id = if preferred p \<or> hops_to rt p < hops_to rt w then p else w, pv_version = ver\<rparr>"
    using h(1) c w(2) by (simp add: slot_add_peer)
  have "hops_to rt (if preferred p \<or> hops_to rt p < hops_to rt w then p else w) \<le> hops_to rt q \<and>
      (preferred q \<longrightarrow> (if preferred p \<or> hops_to rt p < hops_to rt w then p else w) = q)"
    if "q \<in> insert p (claimants claims ver items)" for q
    using that w(3) [of q] pref(1) [of p] pref(1) [of q] pref(2) [of p q] by (auto split: if_splits)
  then show ?thesis
    using h(1) c w(1) slot by (simp add: settled_def nearest_holds_def claimants_snoc)
qed

lemma settled_fold:
  assumes rt: "get_next_hop (fst acc) = get_next_hop rt" and d: "distinct (map fst items)"
    and hop: "\<And>p h. (p, h) \<in> set items \<Longrightarrow> ver \<le> nh_version h \<Longrightarrow> get_next_hop rt p = Some h"
    and old: "\<And>e. slot acc = Some e \<Longrightarrow> pv_version e < ver"
    and pref: "\<And>q. preferred q \<Longrightarrow> hops_to rt q = 0" "\<And>q q'. preferred q \<Longrightarrow> preferred q' \<Longrightarrow> q = q'"
  shows "settled rt items (slot acc) (slot (fold (add_peer env my s ver) items acc))"
  using d hop
proof (induction items rule: rev_induct)
  case Nil
  then show ?case
    by (simp add: settled_def nearest_holds_def claimants_def)
next
  case (snoc x items)
  obtain p h where x: "x = (p, h)"
    by (cases x)
  let ?acc = "fold (add_peer env my s ver) items acc"
  have ih: "settled rt items (slot acc) (slot ?acc)"
    using snoc by simp
  show ?case
  proof (cases "ver \<le> nh_version h \<and> claims p")
    case True
    have "settled rt (items @ [(p, h)]) (slot acc) (slot (add_peer env my s ver (p, h) ?acc))"
    proof (rule settled_step [OF ih _ _ _ _ _ old _ pref])
      show "get_next_hop rt q \<noteq> None" if "q \<in> claimants claims ver items" for q
        using that snoc.prems(2) by (fastforce simp: claimants_def)
      show "get_next_hop (fst ?acc) = get_next_hop rt"
        unfolding add_peers_get_next_hop by (rule rt)
    qed (use True x snoc.prems in auto)
    then show ?thesis
      by (simp add: x)
  next
    case False
    then show ?thesis
      using ih by (auto simp: x slot_add_peer settled_def nearest_holds_def claimants_snoc)
  qed
qed

end

section \<open>The four tables\<close>

definition announces_v4 :: "'r SyncedRouteInfo \<Rightarrow> u32 \<Rightarrow> PeerId \<Rightarrow> bool" where
  "announces_v4 s a p \<longleftrightarrow> (case map_of (peer_infos s) p of Some i \<Rightarrow> ipv4_addr i = Some a | None \<Rightarrow> False)"

definition announces_v6 :: "'r SyncedRouteInfo \<Rightarrow> u32 \<times> u32 \<times> u32 \<times> u32 \<Rightarrow> PeerId \<Rightarrow> bool" where
  "announces_v6 s a p \<longleftrightarrow>
     (case map_of (peer_infos s) p of Some i \<Rightarrow> Option.bind (ipv6_addr i) v6_address = Some a | None \<Rightarrow> False)"

definition announces_cidr :: "acl_env \<Rightarrow> 'r SyncedRouteInfo \<Rightarrow> IpCidr \<Rightarrow> PeerId \<Rightarrow> bool" where
  "announces_cidr env s c p \<longleftrightarrow>
     (case map_of (peer_infos s) p of Some i \<Rightarrow> \<exists>x\<in>set (proxy_cidrs i). cidr_from_str env x = Some c | None \<Rightarrow> False)"

lemma map_of_put_if:
  "map_of (put_if better k v tab) x =
     (if x = k then Some (case map_of tab k of Some old \<Rightarrow> if better old then v else old | None \<Rightarrow> v) else map_of tab x)"
  by (simp add: put_if_def update_conv' split: option.split)

lemma not_better_than_self [simp]: "\<not> is_new_peer_better rt pv h pv"
  by (simp add: is_new_peer_better_def)

lemma add_cidrs_v4:
  "map_of (fst (fold (add_cidr env rt my pv h) cs maps)) (a, n) =
     (if \<exists>x\<in>set cs. cidr_from_str env x = Some (CidrV4 a n)
      then Some (case map_of (fst maps) (a, n) of
             None \<Rightarrow> pv | Some old \<Rightarrow> if pv_peer_id pv = my \<or> is_new_peer_better rt pv h old then pv else old)
      else map_of (fst maps) (a, n))"
  by (induction cs arbitrary: maps) (auto simp: add_cidr_def map_of_put_if Let_def split: option.split IpCidr.split)

lemma add_cidrs_v6:
  "map_of (snd (fold (add_cidr env rt my pv h) cs maps)) (a, n) =
     (if \<exists>x\<in>set cs. cidr_from_str env x = Some (CidrV6 a n)
      then Some (case map_of (snd maps) (a, n) of
             None \<Rightarrow> pv | Some old \<Rightarrow> if pv_peer_id pv = my \<or> is_new_peer_better rt pv h old then pv else old)
      else map_of (snd maps) (a, n))"
  by (induction cs arbitrary: maps) (auto simp: add_cidr_def map_of_put_if Let_def split: option.split IpCidr.split)

lemma is_new_peer_better_update [simp]:
  "is_new_peer_better (rt\<lparr>rt_peer_infos := x\<rparr>) pv h = is_new_peer_better rt pv h"
  "is_new_peer_better (rt\<lparr>ipv4_peer_id_map := y\<rparr>) pv h = is_new_peer_better rt pv h"
  "is_new_peer_better (rt\<lparr>ipv6_peer_id_map := z\<rparr>) pv h = is_new_peer_better rt pv h"
  by (rule ext, rule is_new_peer_better_cong, simp add: get_next_hop_def fun_eq_iff split: option.split)+

lemmas add_peer_simps = add_peer_def Let_def map_of_put_if add_cidrs_v4 add_cidrs_v6 not_less

interpretation v4_slot: address_slot env my s ver "\<lambda>acc. map_of (ipv4_peer_id_map (fst acc)) a" "announces_v4 s a" "\<lambda>_. False"
  for env my s ver a
proof (unfold_locales, goal_cases)
  case (1 p h acc)
  then show ?case
    by (cases acc; cases "map_of (peer_infos s) p"; cases "ver \<le> nh_version h")
      (auto simp: add_peer_simps announces_v4_def split: option.split)
qed

interpretation v6_slot: address_slot env my s ver "\<lambda>acc. map_of (ipv6_peer_id_map (fst acc)) a" "announces_v6 s a" "\<lambda>_. False"
  for env my s ver a
proof (unfold_locales, goal_cases)
  case (1 p h acc)
  then show ?case
    by (cases acc; cases "map_of (peer_infos s) p"; cases "ver \<le> nh_version h")
      (auto simp: add_peer_simps announces_v6_def split: option.split)
qed

interpretation cidr_slot: address_slot env my s ver "\<lambda>acc. map_of (fst (snd acc)) (a, n)"
    "announces_cidr env s (CidrV4 a n)" "\<lambda>p. p = my"
  for env my s ver a n
proof (unfold_locales, goal_cases)
  case (1 p h acc)
  then show ?case
    by (cases acc; cases "map_of (peer_infos s) p"; cases "ver \<le> nh_version h")
      (auto simp: add_peer_simps announces_cidr_def split: option.split)
qed

interpretation cidr_v6_slot: address_slot env my s ver "\<lambda>acc. map_of (snd (snd acc)) (a, n)"
    "announces_cidr env s (CidrV6 a n)" "\<lambda>p. p = my"
  for env my s ver a n
proof (unfold_locales, goal_cases)
  case (1 p h acc)
  then show ?case
    by (cases acc; cases "map_of (peer_infos s) p"; cases "ver \<le> nh_version h")
      (auto simp: add_peer_simps announces_cidr_def split: option.split)
qed

section \<open>The tables after a rebuild\<close>

text \<open>A table that was last built from an older state, with its map keys distinct.\<close>

definition older_table :: "RouteTable \<Rightarrow> Version \<Rightarrow> bool" where
  "older_table rt ver \<longleftrightarrow> older rt ver \<and> distinct (map fst (next_hop_map rt)) \<and>
     (\<forall>a e. map_of (ipv4_peer_id_map rt) a = Some e \<longrightarrow> pv_version e < ver) \<and>
     (\<forall>a e. map_of (ipv6_peer_id_map rt) a = Some e \<longrightarrow> pv_version e < ver)"

text \<open>A table with new next hops and the old addresses.\<close>

definition new_hops :: "PeerId \<Rightarrow> Version \<Rightarrow> RouteTable \<Rightarrow> RouteTable \<Rightarrow> bool" where
  "new_hops my ver rt rt1 \<longleftrightarrow> next_hop_map_version rt1 = ver \<and> distinct (map fst (next_hop_map rt1)) \<and>
     ipv4_peer_id_map rt1 = ipv4_peer_id_map rt \<and> ipv6_peer_id_map rt1 = ipv6_peer_id_map rt \<and> hops_to rt1 my = 0"

lemma store_next_hops_distinct:
  "store_next_hops ver costs hops dsts tab = Inr tab' \<Longrightarrow> distinct (map fst tab) \<Longrightarrow> distinct (map fst tab')"
  by (induction dsts arbitrary: tab) (auto simp: Let_def rbind_eq_Inr_iff distinct_update split: option.splits if_splits)

lemma gen_least_cost_new_hops:
  assumes pick: "least_pick pick" and cl: "closed_graph (edges_of g) my (set (graph_nodes g)) W"
    and d: "distinct (graph_nodes g)" and old: "older_table rt ver"
  shows "\<exists>rt1. gen_next_hop_map_with_least_cost chk pick g (Some my) ver rt = Some (Inr rt1) \<and> new_hops my ver rt rt1"
proof -
  obtain rt1 where gen: "gen_next_hop_map_with_least_cost chk pick g (Some my) ver rt = Some (Inr rt1)"
      "next_hop_map_version rt1 = ver"
    using gen_least_cost_ok [OF pick cl d, of rt ver chk] old by (auto simp: older_table_def)
  obtain sc fh where sf: "dijkstra_with_first_hop chk pick (edges_of g) my = Some (Inr (sc, fh))" and dom: "dom fh = dom sc"
    using search_result [OF pick cl, of chk] by blast
  obtain tab where tab: "store_next_hops ver sc fh (graph_nodes g) (next_hop_map rt) = Inr tab"
    and rt1: "rt1 = rt\<lparr>next_hop_map := tab, next_hop_map_version := fst (set_if_larger ver (next_hop_map_version rt))\<rparr>"
    using gen(1) sf by (auto simp: gen_next_hop_map_with_least_cost_def rbind_eq_Inr_iff)
  have older: "\<forall>v\<in>set (graph_nodes g). \<forall>x. map_of (next_hop_map rt) v = Some x \<longrightarrow> nh_version x < ver"
    using old by (fastforce simp: older_table_def older_def dest: map_of_SomeD)
  have "\<forall>v\<in>set (graph_nodes g). fh v \<noteq> None \<longrightarrow> sc v \<noteq> None"
    using dom by blast
  then have "map_of tab my = Some \<lparr>next_hop_peer_id = my, path_latency = of_nat (the (sc my) mod AVOID_RELAY_COST),
      path_len = 0, nh_version = ver\<rparr>"
    using store_next_hops_ok [OF d older, of fh sc] tab search_start_hop [OF pick cl sf] cl
    by (auto simp: closed_graph_def)
  then have "hops_to rt1 my = 0"
    by (simp add: rt1 hops_to_def get_next_hop_def)
  then show ?thesis
    using gen store_next_hops_distinct [OF tab] old by (auto simp: new_hops_def older_table_def rt1)
qed

lemma gen_least_hop_new_hops:
  assumes "least_pick pick" and "closed_graph (edges_of g) my (set (graph_nodes g)) W"
    and "distinct (graph_nodes g)" and "older_table rt ver"
  shows "\<exists>rt1. gen_next_hop_map_with_least_hop chk pick hop_counts g (Some my) ver rt = Some (Inr rt1) \<and> new_hops my ver rt rt1"
  using gen_least_cost_new_hops [OF assms(1) subgraph_closed [OF assms(2)] _ assms(4)] assms(3)
  by (simp add: gen_next_hop_map_with_least_hop_def Let_def least_hop_subgraph_def)

lemma build_new_hops:
  assumes "least_pick pick" and "distinct (map fst (peer_infos s))" and "known s my" and "nonneg_costs cc"
    and "older_table rt (synced_version s)"
  shows "\<exists>rt1 rt'. build_from_synced_info chk env pick hop_counts my s policy cc rt = Some (Inr rt') \<and>
    new_hops my (synced_version s) rt rt1 \<and> filled_from env my s rt1 rt'"
proof (rule build_from_search [OF assms(2-4)])
  fix g
  assume "closed_graph (edges_of g) my (set (graph_nodes g)) max_link_cost" and "distinct (graph_nodes g)"
  note g = assms(1) this assms(5)
  show "\<exists>rt1. (case policy of
        LeastHop \<Rightarrow> gen_next_hop_map_with_least_hop chk pick hop_counts g (Some my) (synced_version s) rt
      | LeastCost \<Rightarrow> gen_next_hop_map_with_least_cost chk pick g (Some my) (synced_version s) rt) = Some (Inr rt1) \<and>
      new_hops my (synced_version s) rt rt1"
    using gen_least_cost_new_hops [OF g, of chk] gen_least_hop_new_hops [OF g, of chk hop_counts] by (cases policy) simp_all
qed simp

lemma claimants_reachable:
  assumes "new_hops my ver rt rt1"
  shows "claimants claims ver (next_hop_map rt1) = {p. peer_reachable rt1 p \<and> claims p}"
    and "(p, h) \<in> set (next_hop_map rt1) \<Longrightarrow> ver \<le> nh_version h \<Longrightarrow> get_next_hop rt1 p = Some h"
proof -
  have d: "distinct (map fst (next_hop_map rt1))" and v: "next_hop_map_version rt1 = ver"
    using assms by (simp_all add: new_hops_def)
  have "peer_reachable rt1 p \<longleftrightarrow> (\<exists>h. map_of (next_hop_map rt1) p = Some h \<and> ver \<le> nh_version h)" for p
    by (simp add: peer_reachable_def get_next_hop_def v split: option.split)
  then show "claimants claims ver (next_hop_map rt1) = {p. peer_reachable rt1 p \<and> claims p}"
    by (auto simp: claimants_def map_of_eq_Some_iff [OF d])
  show "get_next_hop rt1 p = Some h" if "(p, h) \<in> set (next_hop_map rt1)" "ver \<le> nh_version h"
    using map_of_is_SomeI [OF d that(1)] that(2) by (simp add: get_next_hop_def v)
qed

lemma filled_tables:
  assumes new: "new_hops my (synced_version s) rt rt1" and old: "older_table rt (synced_version s)"
    and fill: "filled_from env my s rt1 rt'"
  shows "nearest_holds rt1 (synced_version s) {p. peer_reachable rt1 p \<and> announces_v4 s a4 p} (\<lambda>_. False)
      (map_of (ipv4_peer_id_map rt) a4) (map_of (ipv4_peer_id_map rt') a4)"
    and "nearest_holds rt1 (synced_version s) {p. peer_reachable rt1 p \<and> announces_v6 s a6 p} (\<lambda>_. False)
      (map_of (ipv6_peer_id_map rt) a6) (map_of (ipv6_peer_id_map rt') a6)"
    and "nearest_holds rt1 (synced_version s) {p. peer_reachable rt1 p \<and> announces_cidr env s (CidrV4 a n) p} (\<lambda>p. p = my)
      None (map_of (cidr_peer_id_map rt') (a, n))"
    and "nearest_holds rt1 (synced_version s) {p. peer_reachable rt1 p \<and> announces_cidr env s (CidrV6 b m) p} (\<lambda>p. p = my)
      None (map_of (cidr_v6_peer_id_map rt') (b, m))"
proof -
  let ?ver = "synced_version s" and ?items = "next_hop_map rt1"
  obtain rt2 v4 v6 where fold: "fold (add_peer env my s ?ver) ?items (rt1, [], []) = (rt2, v4, v6)"
    and rt': "rt' = rt2\<lparr>cidr_peer_id_map := v4, cidr_v6_peer_id_map := v6\<rparr>"
    using fill by (auto simp: filled_from_def)
  note hop = claimants_reachable(2) [OF new] and who = claimants_reachable(1) [OF new]
  have d: "distinct (map fst ?items)" and old4: "ipv4_peer_id_map rt1 = ipv4_peer_id_map rt"
    and old6: "ipv6_peer_id_map rt1 = ipv6_peer_id_map rt" and my: "hops_to rt1 my = 0"
    using new by (simp_all add: new_hops_def)
  have less4: "pv_version e < ?ver" if "map_of (ipv4_peer_id_map rt) a4 = Some e" for e
    using old that unfolding older_table_def by blast
  have less6: "pv_version e < ?ver" if "map_of (ipv6_peer_id_map rt) a6 = Some e" for e
    using old that unfolding older_table_def by blast
  show "nearest_holds rt1 ?ver {p. peer_reachable rt1 p \<and> announces_v4 s a4 p} (\<lambda>_. False)
      (map_of (ipv4_peer_id_map rt) a4) (map_of (ipv4_peer_id_map rt') a4)"
    using v4_slot.settled_fold [where acc = "(rt1, [], [])" and rt = rt1 and items = ?items and ver = ?ver and a = a4 and env = env
        and my = my and s = s] d hop less4 fold old4
    unfolding v4_slot.settled_def who by (simp add: rt')
  show "nearest_holds rt1 ?ver {p. peer_reachable rt1 p \<and> announces_v6 s a6 p} (\<lambda>_. False)
      (map_of (ipv6_peer_id_map rt) a6) (map_of (ipv6_peer_id_map rt') a6)"
    using v6_slot.settled_fold [where acc = "(rt1, [], [])" and rt = rt1 and items = ?items and ver = ?ver and a = a6 and env = env
        and my = my and s = s] d hop less6 fold old6
    unfolding v6_slot.settled_def who by (simp add: rt')
  show "nearest_holds rt1 ?ver {p. peer_reachable rt1 p \<and> announces_cidr env s (CidrV4 a n) p} (\<lambda>p. p = my)
      None (map_of (cidr_peer_id_map rt') (a, n))"
    using cidr_slot.settled_fold [where acc = "(rt1, [], [])" and rt = rt1 and items = ?items and ver = ?ver and a = a and n = n
        and env = env and my = my and s = s] d hop fold my
    unfolding cidr_slot.settled_def who by (simp add: rt')
  show "nearest_holds rt1 ?ver {p. peer_reachable rt1 p \<and> announces_cidr env s (CidrV6 b m) p} (\<lambda>p. p = my)
      None (map_of (cidr_v6_peer_id_map rt') (b, m))"
    using cidr_v6_slot.settled_fold [where acc = "(rt1, [], [])" and rt = rt1 and items = ?items and ver = ?ver and a = b and n = m
        and env = env and my = my and s = s] d hop fold my
    unfolding cidr_v6_slot.settled_def who by (simp add: rt')
qed

lemma reachable_same: "get_next_hop rt' = get_next_hop rt \<Longrightarrow> peer_reachable rt = peer_reachable rt'"
  by (simp add: peer_reachable_def fun_eq_iff)

lemma nearest_holds_same: "get_next_hop rt' = get_next_hop rt \<Longrightarrow> nearest_holds rt = nearest_holds rt'"
  by (simp add: nearest_holds_def hops_to_def fun_eq_iff)

text \<open>
  C9: An address leads to the nearest peer that announces it. Rebuilding a table under either policy
  returns; then an IPv4 or IPv6 address announced by reachable peers leads to the one of them with
  the fewest hops, and so does a proxied network, except that it leads to this node when this node
  announces it itself, so that a loop can be noticed. Networks that no reachable peer announces any
  more are forgotten, addresses keep the entry they had.
\<close>

theorem address_tables_nearest:
  assumes "least_pick pick" and "distinct (map fst (peer_infos s))" and "known s my" and "nonneg_costs cc"
    and "older_table rt (synced_version s)"
  shows "\<exists>rt'. build_from_synced_info chk env pick hop_counts my s policy cc rt = Some (Inr rt') \<and>
    (\<forall>a. nearest_holds rt' (synced_version s) {p. peer_reachable rt' p \<and> announces_v4 s a p} (\<lambda>_. False)
      (map_of (ipv4_peer_id_map rt) a) (map_of (ipv4_peer_id_map rt') a)) \<and>
    (\<forall>a. nearest_holds rt' (synced_version s) {p. peer_reachable rt' p \<and> announces_v6 s a p} (\<lambda>_. False)
      (map_of (ipv6_peer_id_map rt) a) (map_of (ipv6_peer_id_map rt') a)) \<and>
    (\<forall>a n. nearest_holds rt' (synced_version s) {p. peer_reachable rt' p \<and> announces_cidr env s (CidrV4 a n) p} (\<lambda>p. p = my)
      None (map_of (cidr_peer_id_map rt') (a, n))) \<and>
    (\<forall>a n. nearest_holds rt' (synced_version s) {p. peer_reachable rt' p \<and> announces_cidr env s (CidrV6 a n) p} (\<lambda>p. p = my)
      None (map_of (cidr_v6_peer_id_map rt') (a, n)))"
proof -
  obtain rt1 rt' where "build_from_synced_info chk env pick hop_counts my s policy cc rt = Some (Inr rt')"
      and new: "new_hops my (synced_version s) rt rt1" and fill: "filled_from env my s rt1 rt'"
    using build_new_hops [OF assms] by blast
  moreover note filled_tables [OF new assms(5) fill, unfolded nearest_holds_same [OF filled_from_next_hop [OF fill]]
      reachable_same [OF filled_from_next_hop [OF fill]]]
  ultimately show ?thesis
    by blast
qed

section \<open>Looking up an address\<close>

definition Ipv6Addr_from :: "u32 \<times> u32 \<times> u32 \<times> u32 \<Rightarrow> 128 word" where
  "Ipv6Addr_from parts =
     (case parts of (a, b, c, d) \<Rightarrow> ucast a * 2 ^ 96 + ucast b * 2 ^ 64 + ucast c * 2 ^ 32 + ucast d)"

definition is_ip_in_same_network :: "acl_env \<Rightarrow> (u32 \<times> nat) option \<Rightarrow> (128 word \<times> nat) option \<Rightarrow> IpAddr \<Rightarrow> bool" where
  "is_ip_in_same_network env my_ipv4 my_ipv6 ip =
     (case ip of
        V4 a \<Rightarrow> (case my_ipv4 of Some (n, l) \<Rightarrow> v4_contains env n l a | None \<Rightarrow> False)
      | V6 a \<Rightarrow> (case my_ipv6 of Some (n, l) \<Rightarrow> v6_contains env n l a | None \<Rightarrow> False))"

definition get_peer_id_by_ipv4 ::
  "(((u32 \<times> nat) \<times> PeerIdAndVersion) list \<Rightarrow> u32 \<Rightarrow> PeerIdAndVersion option) \<Rightarrow>
   (((128 word \<times> nat) \<times> PeerIdAndVersion) list \<Rightarrow> 128 word \<Rightarrow> PeerIdAndVersion option) \<Rightarrow>
   (IpAddr \<Rightarrow> bool) \<Rightarrow> RouteTable \<Rightarrow> u32 \<Rightarrow> PeerId option" where
  "get_peer_id_by_ipv4 get_lpm get_lpm6 same_network rt a =
     (case map_of (ipv4_peer_id_map rt) a of
        Some p \<Rightarrow> Some (pv_peer_id p)
      | None \<Rightarrow> if same_network (V4 a) then None else get_peer_id_for_proxy get_lpm get_lpm6 rt (V4 a))"

definition get_peer_id_by_ipv6 ::
  "(((u32 \<times> nat) \<times> PeerIdAndVersion) list \<Rightarrow> u32 \<Rightarrow> PeerIdAndVersion option) \<Rightarrow>
   (((128 word \<times> nat) \<times> PeerIdAndVersion) list \<Rightarrow> 128 word \<Rightarrow> PeerIdAndVersion option) \<Rightarrow>
   (IpAddr \<Rightarrow> bool) \<Rightarrow> RouteTable \<Rightarrow> u32 \<times> u32 \<times> u32 \<times> u32 \<Rightarrow> PeerId option" where
  "get_peer_id_by_ipv6 get_lpm get_lpm6 same_network rt a =
     (case map_of (ipv6_peer_id_map rt) a of
        Some p \<Rightarrow> Some (pv_peer_id p)
      | None \<Rightarrow> if same_network (V6 (Ipv6Addr_from a)) then None
                else get_peer_id_for_proxy get_lpm get_lpm6 rt (V6 (Ipv6Addr_from a)))"

lemma map_of_filter_snd: "map_of xs k = Some v \<Longrightarrow> P v \<Longrightarrow> map_of (filter (\<lambda>(k, v). P v) xs) k = Some v"
  by (induction xs) (auto split: if_splits)

lemma reachable_kept:
  assumes "peer_reachable rt p"
  shows "map_of (filter (\<lambda>(p, h). next_hop_map_version rt \<le> nh_version h) (next_hop_map rt)) p \<noteq> None"
proof -
  obtain h where "map_of (next_hop_map rt) p = Some h" "next_hop_map_version rt \<le> nh_version h"
    using assms by (auto simp: peer_reachable_def get_next_hop_def split: option.splits if_splits)
  then show ?thesis
    using map_of_filter_snd [of "next_hop_map rt" p h "\<lambda>h. next_hop_map_version rt \<le> nh_version h"] by simp
qed

text \<open>
  A given-up address lingers. A peer that changes its virtual address stays the owner of the old
  one: once no peer announces an address, a rebuild and the periodic cleaning leave the entry as
  long as its peer is reachable, if only under its new address, so the old address keeps leading to
  that peer.
\<close>

theorem given_up_address_lingers:
  assumes "least_pick pick" and "distinct (map fst (peer_infos s))" and "known s my" and "nonneg_costs cc"
    and "older_table rt (synced_version s)" and "map_of (ipv4_peer_id_map rt) a = Some e" and "\<forall>p. \<not> announces_v4 s a p"
  shows "\<exists>rt'. build_from_synced_info chk env pick hop_counts my s policy cc rt = Some (Inr rt') \<and>
    (peer_reachable rt' (pv_peer_id e) \<longrightarrow>
      get_peer_id_by_ipv4 lpm lpm6 same_network (clean_expired_route_info rt') a = Some (pv_peer_id e))"
proof -
  obtain rt1 rt' where rt': "build_from_synced_info chk env pick hop_counts my s policy cc rt = Some (Inr rt')"
    and new: "new_hops my (synced_version s) rt rt1" and fill: "filled_from env my s rt1 rt'"
    using build_new_hops [OF assms(1-5)] by blast
  have e: "map_of (ipv4_peer_id_map rt') a = Some e"
    using filled_tables(1) [OF new assms(5) fill, of a] assms(6,7) by (simp add: nearest_holds_def)
  have "map_of (ipv4_peer_id_map (clean_expired_route_info rt')) a = Some e" if "peer_reachable rt' (pv_peer_id e)"
    using map_of_filter_snd [OF e, of "\<lambda>v. map_of (filter (\<lambda>(p, h). next_hop_map_version rt' \<le> nh_version h)
        (next_hop_map rt')) (pv_peer_id v) \<noteq> None"] reachable_kept [OF that]
    by (simp add: clean_expired_route_info_def Let_def)
  then show ?thesis
    using rt' by (auto simp: get_peer_id_by_ipv4_def)
qed

section \<open>Two owners of an address\<close>

text \<open>Peers 2 and 3 announce address 50; peer 2 is nearer to peer 1.\<close>

definition sample_owners :: "unit SyncedRouteInfo" where
  "sample_owners = sample_synced\<lparr>peer_infos :=
     [(1, announced 1), (2, announced 2\<lparr>ipv4_addr := Some 50\<rparr>), (3, announced 3\<lparr>ipv4_addr := Some 50\<rparr>)]\<rparr>"

lemma sample_owners_ok:
  "distinct (map fst (peer_infos sample_owners))" "known sample_owners 1" "nonneg_costs (\<lambda>_ _. 1)"
  "older_table RouteTable_new (synced_version sample_owners)"
  by (simp_all add: sample_owners_def sample_synced_def SyncedRouteInfo_empty_def known_def announced_def
      RoutePeerInfo_default_def nonneg_costs_def older_table_def older_def RouteTable_new_def)

theorem address_tables_nearest_witness:
  "\<exists>rt'. build_from_synced_info True no_cidrs least_index searched_counts 1 sample_owners LeastHop (\<lambda>_ _. 1) RouteTable_new =
      Some (Inr rt') \<and>
    nearest_holds rt' 1 {p. peer_reachable rt' p \<and> announces_v4 sample_owners 50 p} (\<lambda>_. False) None
      (map_of (ipv4_peer_id_map rt') 50)"
proof -
  obtain rt' where "build_from_synced_info True no_cidrs least_index searched_counts 1 sample_owners LeastHop (\<lambda>_ _. 1)
      RouteTable_new = Some (Inr rt')"
    and a: "\<forall>a. nearest_holds rt' (synced_version sample_owners) {p. peer_reachable rt' p \<and> announces_v4 sample_owners a p}
      (\<lambda>_. False) (map_of (ipv4_peer_id_map RouteTable_new) a) (map_of (ipv4_peer_id_map rt') a)"
    using address_tables_nearest [OF least_pick_least_index sample_owners_ok, of True no_cidrs searched_counts LeastHop]
    by (elim exE conjE)
  then show ?thesis
    using spec [OF a, of 50] by (simp add: RouteTable_new_def sample_owners_def sample_synced_def)
qed

text \<open>A table in which peer 3 held the address 50, which it does not announce any more.\<close>

definition sample_old_table :: RouteTable where
  "sample_old_table = RouteTable_new\<lparr>ipv4_peer_id_map := [(50, \<lparr>pv_peer_id = 3, pv_version = 0\<rparr>)]\<rparr>"

theorem given_up_address_lingers_witness:
  "\<exists>rt'. build_from_synced_info True no_cidrs least_index searched_counts 1 sample_synced LeastCost (\<lambda>_ _. 1) sample_old_table =
      Some (Inr rt') \<and>
    get_peer_id_by_ipv4 (\<lambda>_ _. None) (\<lambda>_ _. None) (\<lambda>_. True) (clean_expired_route_info rt') 50 = Some 3"
proof -
  have old: "older_table sample_old_table (synced_version sample_synced)"
    by (simp add: sample_old_table_def sample_synced_def older_table_def older_def RouteTable_new_def)
  have no: "\<forall>p. \<not> announces_v4 sample_synced 50 p"
    by (simp add: announces_v4_def sample_synced_def announced_def RoutePeerInfo_default_def split: option.split)
  note ok = least_pick_least_index sample_synced_ok(1-3)
  obtain rt' where r: "build_from_synced_info True no_cidrs least_index searched_counts 1 sample_synced LeastCost
        (\<lambda>_ _. 1) sample_old_table = Some (Inr rt')"
    and look: "peer_reachable rt' 3 \<longrightarrow>
      get_peer_id_by_ipv4 (\<lambda>_ _. None) (\<lambda>_ _. None) (\<lambda>_. True) (clean_expired_route_info rt') 50 = Some 3"
    using given_up_address_lingers [OF ok old _ no, of "\<lparr>pv_peer_id = 3, pv_version = 0\<rparr>" True no_cidrs searched_counts
        LeastCost "\<lambda>_ _. None" "\<lambda>_ _. None" "\<lambda>_. True"]
    by (auto simp: sample_old_table_def)
  have "older sample_old_table (synced_version sample_synced)"
    using old by (simp add: older_table_def)
  then have all: "\<forall>dst. case get_next_hop rt' dst of
        None \<Rightarrow> \<not> (\<exists>f c k. walk (links sample_synced (\<lambda>_ _. 1)) 1 f c k dst)
      | Some h \<Rightarrow> hop_found (links sample_synced (\<lambda>_ _. 1)) 1 h dst"
    using build_least_cost_ok [OF ok, of sample_old_table True no_cidrs searched_counts] r by auto
  have "peer_reachable rt' 3"
    using spec [OF all, of 3] sample_walk by (cases "get_next_hop rt' 3") (auto simp: peer_reachable_def)
  then show ?thesis
    using r look by blast
qed

end
