(* ===== verification/Ospf_Session.thy ===== *)
theory Ospf_Session
  imports Ospf_Info
begin

text \<open>
  The synchronisation session with one neighbour (\<open>SyncRouteSession\<close> in
  \<open>src/easytier/src/peers/peer_ospf_route.rs\<close>): which versions the neighbour is known to have, so
  that only what it lacks is sent, and who of the two initiated the session. Saved versions that
  nobody looked at for a minute are dropped. The task of a session is represented by whether it
  runs.
\<close>

section \<open>Saved versions\<close>

record VersionAndTouchTime =
  vt_version :: Version
  touch_time :: time

type_synonym 'k saved_versions = "('k \<times> VersionAndTouchTime) list"

definition VersionAndTouchTime_default :: "time \<Rightarrow> VersionAndTouchTime" where
  "VersionAndTouchTime_default now = \<lparr>vt_version = 0, touch_time = now\<rparr>"

definition vt_is_expired :: "time \<Rightarrow> VersionAndTouchTime \<Rightarrow> bool" where
  "vt_is_expired now v \<longleftrightarrow> now - touch_time v > secs 60"

text \<open>Looking at a saved version touches it.\<close>

definition check_saved :: "time \<Rightarrow> 'k \<Rightarrow> Version \<Rightarrow> 'k saved_versions \<Rightarrow> bool \<times> 'k saved_versions" where
  "check_saved now k ver m =
     (case map_of m k of
        Some v \<Rightarrow> (vt_version v \<ge> ver, AList.update k (v\<lparr>touch_time := now\<rparr>) m)
      | None \<Rightarrow> (False, m))"

definition save_version :: "time \<Rightarrow> 'k \<Rightarrow> Version \<Rightarrow> 'k saved_versions \<Rightarrow> 'k saved_versions" where
  "save_version now k ver m =
     (let v = (case map_of m k of Some v \<Rightarrow> v | None \<Rightarrow> VersionAndTouchTime_default now) in
      AList.update k (v\<lparr>vt_version := fst (set_if_larger ver (vt_version v))\<rparr>) m)"

section \<open>The session\<close>

record SyncRouteSession =
  dst_peer_id :: PeerId
  dst_saved_peer_info_versions :: "PeerId saved_versions"
  dst_saved_conn_info_version :: "PeerId saved_versions"
  dst_saved_foreign_network_versions :: "ForeignNetworkRouteInfoKey saved_versions"
  my_session_id :: u64
  dst_session_id :: u64
  we_are_initiator :: bool
  dst_is_initiator :: bool
  need_sync_initiator_info :: bool
  rpc_tx_count :: u32
  rpc_rx_count :: u32
  task_is_running :: bool

definition SyncRouteSession_new :: "u64 \<Rightarrow> PeerId \<Rightarrow> SyncRouteSession" where
  "SyncRouteSession_new random_id dst =
     \<lparr>dst_peer_id = dst, dst_saved_peer_info_versions = [], dst_saved_conn_info_version = [],
      dst_saved_foreign_network_versions = [], my_session_id = random_id, dst_session_id = 0, we_are_initiator = False,
      dst_is_initiator = False, need_sync_initiator_info = False, rpc_tx_count = 0, rpc_rx_count = 0,
      task_is_running = False\<rparr>"

definition check_saved_peer_info_update_to_date ::
  "time \<Rightarrow> PeerId \<Rightarrow> Version \<Rightarrow> SyncRouteSession \<Rightarrow> bool \<times> SyncRouteSession" where
  "check_saved_peer_info_update_to_date now p ver ss =
     (if ver = 0 \<or> p = dst_peer_id ss then (True, ss)
      else let (b, m) = check_saved now p ver (dst_saved_peer_info_versions ss)
           in (b, ss\<lparr>dst_saved_peer_info_versions := m\<rparr>))"

definition check_saved_conn_version_update_to_date ::
  "time \<Rightarrow> PeerId \<Rightarrow> Version \<Rightarrow> SyncRouteSession \<Rightarrow> bool \<times> SyncRouteSession" where
  "check_saved_conn_version_update_to_date now p ver ss =
     (if ver = 0 \<or> p = dst_peer_id ss then (True, ss)
      else let (b, m) = check_saved now p ver (dst_saved_conn_info_version ss)
           in (b, ss\<lparr>dst_saved_conn_info_version := m\<rparr>))"

definition check_saved_foreign_network_version_update_to_date ::
  "time \<Rightarrow> ForeignNetworkRouteInfoKey \<Rightarrow> Version \<Rightarrow> SyncRouteSession \<Rightarrow> bool \<times> SyncRouteSession" where
  "check_saved_foreign_network_version_update_to_date now k ver ss =
     (if ver = 0 \<or> fk_peer_id k = dst_peer_id ss then (True, ss)
      else let (b, m) = check_saved now k ver (dst_saved_foreign_network_versions ss)
           in (b, ss\<lparr>dst_saved_foreign_network_versions := m\<rparr>))"

definition update_dst_saved_peer_info_version ::
  "time \<Rightarrow> RoutePeerInfo list \<Rightarrow> PeerId \<Rightarrow> SyncRouteSession \<Rightarrow> SyncRouteSession" where
  "update_dst_saved_peer_info_version now infos dst ss =
     ss\<lparr>dst_saved_peer_info_versions :=
       fold (\<lambda>i m. if peer_id i = dst then m else save_version now (peer_id i) (version i) m) infos
         (dst_saved_peer_info_versions ss)\<rparr>"

definition update_dst_saved_conn_bitmap_version ::
  "time \<Rightarrow> RouteConnBitmap \<Rightarrow> PeerId \<Rightarrow> SyncRouteSession \<Rightarrow> SyncRouteSession" where
  "update_dst_saved_conn_bitmap_version now cb dst ss =
     ss\<lparr>dst_saved_conn_info_version :=
       fold (\<lambda>idv m. if idv_peer_id idv = dst then m else save_version now (idv_peer_id idv) (idv_version idv) m)
         (bm_peer_ids cb) (dst_saved_conn_info_version ss)\<rparr>"

definition update_dst_saved_conn_peer_list_version ::
  "time \<Rightarrow> RouteConnPeerList \<Rightarrow> PeerId \<Rightarrow> SyncRouteSession \<Rightarrow> SyncRouteSession" where
  "update_dst_saved_conn_peer_list_version now pcs dst ss =
     ss\<lparr>dst_saved_conn_info_version :=
       fold (\<lambda>pc m. case conn_peer_id pc of
               None \<Rightarrow> m
             | Some idv \<Rightarrow> if idv_peer_id idv = dst then m else save_version now (idv_peer_id idv) (idv_version idv) m)
         pcs (dst_saved_conn_info_version ss)\<rparr>"

definition update_dst_saved_conn_info_version ::
  "time \<Rightarrow> ConnInfo \<Rightarrow> PeerId \<Rightarrow> SyncRouteSession \<Rightarrow> SyncRouteSession" where
  "update_dst_saved_conn_info_version now ci dst ss =
     (case ci of
        ConnBitmap cb \<Rightarrow> update_dst_saved_conn_bitmap_version now cb dst ss
      | ConnPeerList pcs \<Rightarrow> update_dst_saved_conn_peer_list_version now pcs dst ss)"

fun save_foreigns ::
  "time \<Rightarrow> PeerId \<Rightarrow> RouteForeignNetworkInfos \<Rightarrow> ForeignNetworkRouteInfoKey saved_versions \<Rightarrow>
     ForeignNetworkRouteInfoKey saved_versions may_panic" where
  "save_foreigns now dst [] m = Inr m"
| "save_foreigns now dst ((k, e) # rest) m =
     rbind (unwrap k) (\<lambda>k.
       if fk_peer_id k = dst then save_foreigns now dst rest m
       else rbind (unwrap e) (\<lambda>e. save_foreigns now dst rest (save_version now k (fe_version e) m)))"

definition update_dst_saved_foreign_network_version ::
  "time \<Rightarrow> RouteForeignNetworkInfos \<Rightarrow> PeerId \<Rightarrow> SyncRouteSession \<Rightarrow> SyncRouteSession may_panic" where
  "update_dst_saved_foreign_network_version now infos dst ss =
     rbind (save_foreigns now dst infos (dst_saved_foreign_network_versions ss)) (\<lambda>m.
       Inr (ss\<lparr>dst_saved_foreign_network_versions := m\<rparr>))"

definition update_initiator_flag :: "bool \<Rightarrow> SyncRouteSession \<Rightarrow> SyncRouteSession" where
  "update_initiator_flag b ss = ss\<lparr>we_are_initiator := b, need_sync_initiator_info := True\<rparr>"

definition update_dst_session_id :: "u64 \<Rightarrow> SyncRouteSession \<Rightarrow> SyncRouteSession" where
  "update_dst_session_id sid ss =
     (if sid \<noteq> dst_session_id ss
      then ss\<lparr>dst_session_id := sid, dst_saved_conn_info_version := [], dst_saved_peer_info_versions := []\<rparr>
      else ss)"

definition retain_fresh :: "time \<Rightarrow> 'k saved_versions \<Rightarrow> 'k saved_versions" where
  "retain_fresh now m = filter (\<lambda>(k, v). \<not> vt_is_expired now v) m"

definition session_clean_dst_saved_map :: "time \<Rightarrow> SyncRouteSession \<Rightarrow> SyncRouteSession" where
  "session_clean_dst_saved_map now ss =
     ss\<lparr>dst_saved_peer_info_versions := retain_fresh now (dst_saved_peer_info_versions ss),
        dst_saved_conn_info_version := retain_fresh now (dst_saved_conn_info_version ss),
        dst_saved_foreign_network_versions := retain_fresh now (dst_saved_foreign_network_versions ss)\<rparr>"

end
