(* ===== verification/Ospf_Service.thy ===== *)
theory Ospf_Service
  imports Ospf_Session Ospf_Route
begin

text \<open>
  The route service of a node (\<open>PeerRouteServiceImpl\<close> and \<open>RouteSessionManager\<close> in
  \<open>src/easytier/src/peers/peer_ospf_route.rs\<close>): it keeps the tables and the sessions together, builds
  what a neighbour lacks, handles what a neighbour sends and decides with whom to keep a session.
  Every handler is one step; the call that sends a request waits for the answer in between and is
  two steps. What lies outside (the configuration, the cost of links, the choice of the heap,
  petgraph's search, random numbers, the clock) is in \<open>route_env\<close> or an argument.
\<close>

section \<open>State\<close>

record 'r route_env =
  re_chk :: bool
  re_hmac :: "bytes \<Rightarrow> bytes \<Rightarrow> bytes"
  re_ctx :: global_ctx
  re_cidr :: acl_env
  re_pick :: "(nat \<times> PeerId) list \<Rightarrow> nat"
  re_hop_counts :: "(PeerId \<Rightarrow> (PeerId \<times> nat) list) \<Rightarrow> PeerId \<Rightarrow> PeerId \<rightharpoonup> nat"
  re_calculate_cost :: "PeerId \<Rightarrow> PeerId \<Rightarrow> u32"
  re_raw_peer_id :: "'r \<Rightarrow> u32"
  re_transcode :: "RoutePeerInfo \<Rightarrow> 'r"
  re_force_conn_list :: bool

record 'r PeerRouteServiceImpl =
  svc_my_peer_id :: PeerId
  svc_my_peer_route_id :: u64
  sessions :: "(PeerId \<times> SyncRouteSession) list"
  route_table :: RouteTable
  route_table_with_cost :: RouteTable
  foreign_network_owner_map :: "((string \<times> bytes) \<times> PeerId list) list"
  foreign_network_my_peer_id_map :: "((string \<times> PeerId) \<times> PeerId) list"
  synced_route_info :: "'r SyncedRouteInfo"
  cached_local_conn_map :: RouteConnBitmap
  cached_local_conn_map_version :: Version
  last_update_my_foreign_network :: "time option"
  peer_info_last_update :: time

definition PeerRouteServiceImpl_new :: "PeerId \<Rightarrow> u64 \<Rightarrow> time \<Rightarrow> 'r PeerRouteServiceImpl" where
  "PeerRouteServiceImpl_new my random_id now =
     \<lparr>svc_my_peer_id = my, svc_my_peer_route_id = random_id, sessions = [], route_table = RouteTable_new,
      route_table_with_cost = RouteTable_new, foreign_network_owner_map = [], foreign_network_my_peer_id_map = [],
      synced_route_info = SyncedRouteInfo_empty, cached_local_conn_map = \<lparr>bm_peer_ids = [], bitmap = []\<rparr>,
      cached_local_conn_map_version = 0, last_update_my_foreign_network = None, peer_info_last_update = now\<rparr>"

definition get_session :: "PeerId \<Rightarrow> 'r PeerRouteServiceImpl \<Rightarrow> SyncRouteSession option" where
  "get_session dst s = map_of (sessions s) dst"

definition put_session :: "PeerId \<Rightarrow> SyncRouteSession \<Rightarrow> 'r PeerRouteServiceImpl \<Rightarrow> 'r PeerRouteServiceImpl" where
  "put_session dst ss s = s\<lparr>sessions := AList.update dst ss (sessions s)\<rparr>"

definition get_or_create_session ::
  "u64 \<Rightarrow> PeerId \<Rightarrow> 'r PeerRouteServiceImpl \<Rightarrow> SyncRouteSession \<times> 'r PeerRouteServiceImpl" where
  "get_or_create_session random_id dst s =
     (case get_session dst s of
        Some ss \<Rightarrow> (ss, s)
      | None \<Rightarrow> let ss = SyncRouteSession_new random_id dst in (ss, put_session dst ss s))"

definition remove_session :: "PeerId \<Rightarrow> 'r PeerRouteServiceImpl \<Rightarrow> 'r PeerRouteServiceImpl" where
  "remove_session dst s = s\<lparr>sessions := AList.delete dst (sessions s)\<rparr>"

definition list_session_peers :: "'r PeerRouteServiceImpl \<Rightarrow> PeerId list" where
  "list_session_peers s = map fst (sessions s)"

definition clean_dst_saved_map :: "time \<Rightarrow> PeerId \<Rightarrow> 'r PeerRouteServiceImpl \<Rightarrow> 'r PeerRouteServiceImpl" where
  "clean_dst_saved_map now dst s =
     (case get_session dst s of None \<Rightarrow> s | Some ss \<Rightarrow> put_session dst (session_clean_dst_saved_map now ss) s)"

definition update_peer_info_last_update :: "time \<Rightarrow> 'r PeerRouteServiceImpl \<Rightarrow> 'r PeerRouteServiceImpl" where
  "update_peer_info_last_update now s = s\<lparr>peer_info_last_update := now\<rparr>"

section \<open>Route tables and the connection bitmap\<close>

definition update_route_table :: "'r route_env \<Rightarrow> 'r PeerRouteServiceImpl \<Rightarrow> 'r PeerRouteServiceImpl search_result" where
  "update_route_table re s =
     (let build = (\<lambda>policy. build_from_synced_info (re_chk re) (re_cidr re) (re_pick re) (re_hop_counts re)
            (svc_my_peer_id s) (synced_route_info s) policy (re_calculate_cost re)) in
      sbind (build LeastHop (route_table s)) (\<lambda>rt.
      sbind (build LeastCost (route_table_with_cost s)) (\<lambda>rtc.
        Some (Inr (s\<lparr>route_table := rt, route_table_with_cost := rtc\<rparr>)))))"

definition digest_array :: "bytes \<Rightarrow> bytes" where
  "digest_array d = (if length d = 32 then d else replicate 32 0)"

definition add_owner ::
  "PeerId \<Rightarrow> RouteTable \<Rightarrow> ForeignNetworkRouteInfoKey \<times> ForeignNetworkRouteInfoEntry \<Rightarrow>
     ((string \<times> bytes) \<times> PeerId list) list \<times> ((string \<times> PeerId) \<times> PeerId) list \<Rightarrow>
     ((string \<times> bytes) \<times> PeerId list) list \<times> ((string \<times> PeerId) \<times> PeerId) list" where
  "add_owner my rt item maps =
     (case (item, maps) of ((k, e), (owners, origins)) \<Rightarrow>
        if fk_peer_id k = my \<or> \<not> peer_reachable rt (fk_peer_id k) \<or> foreign_peer_ids e = [] then maps
        else let ident = (fk_network_name k, digest_array (network_secret_digest e));
                 old = (case map_of owners ident of Some l \<Rightarrow> l | None \<Rightarrow> [])
             in (AList.update ident (old @ [my_peer_id_for_this_network e]) owners,
                 AList.update (fk_network_name k, my_peer_id_for_this_network e) (fk_peer_id k) origins))"

definition update_foreign_network_owner_map :: "'r PeerRouteServiceImpl \<Rightarrow> 'r PeerRouteServiceImpl" where
  "update_foreign_network_owner_map s =
     (let (owners, origins) =
        fold (add_owner (svc_my_peer_id s) (route_table s)) (foreign_network (synced_route_info s)) ([], [])
      in s\<lparr>foreign_network_owner_map := owners, foreign_network_my_peer_id_map := origins\<rparr>)"

definition all_dst_peer_ids :: "'r SyncedRouteInfo \<Rightarrow> PeerId set" where
  "all_dst_peer_ids s = (\<Union>(p, c, v)\<in>set (conn_map s). c)"

definition conn_peer_ids :: "'r SyncedRouteInfo \<Rightarrow> RouteTable \<Rightarrow> PeerIdVersion list" where
  "conn_peer_ids s rt =
     filter (\<lambda>idv. idv_peer_id idv \<in> all_dst_peer_ids s \<or> peer_reachable rt (idv_peer_id idv))
       (map (\<lambda>(p, c, v). \<lparr>idv_peer_id = p, idv_version = v\<rparr>) (conn_map s))"

definition set_bit_at :: "nat \<Rightarrow> bytes \<Rightarrow> bytes may_panic" where
  "set_bit_at i bm =
     (if i div 8 < length bm then Inr (bm[i div 8 := set_bit (i mod 8) (bm ! (i div 8))]) else Inl IndexOutOfRange)"

fun fill_row :: "PeerId set \<Rightarrow> nat \<Rightarrow> (nat \<times> PeerIdVersion) list \<Rightarrow> bytes \<Rightarrow> bytes may_panic" where
  "fill_row conn base [] bm = Inr bm"
| "fill_row conn base ((idx, idv) # rest) bm =
     rbind (if idv_peer_id idv \<in> conn then set_bit_at (base + idx) bm else Inr bm) (fill_row conn base rest)"

fun fill_rows ::
  "'r SyncedRouteInfo \<Rightarrow> PeerIdVersion list \<Rightarrow> (nat \<times> PeerIdVersion) list \<Rightarrow> bytes \<Rightarrow> bytes may_panic" where
  "fill_rows s ids [] bm = Inr bm"
| "fill_rows s ids ((peer_idx, idv) # rest) bm =
     rbind (case map_of (conn_map s) (idv_peer_id idv) of
              None \<Rightarrow> Inr bm
            | Some (c, v) \<Rightarrow> fill_row c (peer_idx * length ids) (enumerate 0 ids) bm)
       (fill_rows s ids rest)"

definition build_bitmap :: "'r SyncedRouteInfo \<Rightarrow> RouteTable \<Rightarrow> RouteConnBitmap may_panic" where
  "build_bitmap s rt =
     (let ids = conn_peer_ids s rt in
      rbind (fill_rows s ids (enumerate 0 ids) (replicate ((length ids * length ids + 7) div 8) 0)) (\<lambda>bm.
        Inr \<lparr>bm_peer_ids = ids, bitmap = bm\<rparr>))"

definition update_route_table_and_cached_local_conn_bitmap ::
  "'r route_env \<Rightarrow> time \<Rightarrow> 'r PeerRouteServiceImpl \<Rightarrow> 'r PeerRouteServiceImpl search_result" where
  "update_route_table_and_cached_local_conn_bitmap re now s =
     sbind (update_route_table re (update_peer_info_last_update now s)) (\<lambda>s.
     sbind (Some (build_bitmap (synced_route_info s) (route_table s))) (\<lambda>cb.
       let (v, larger) = set_if_larger (synced_version (synced_route_info s)) (cached_local_conn_map_version s);
           s = s\<lparr>cached_local_conn_map_version := v\<rparr>
       in Some (Inr (if larger then s\<lparr>cached_local_conn_map := cb\<rparr> else s))))"

section \<open>The node's own entries\<close>

definition update_my_peer_info ::
  "'r route_env \<Rightarrow> time \<Rightarrow> 'r PeerRouteServiceImpl \<Rightarrow> (bool \<times> 'r PeerRouteServiceImpl) search_result" where
  "update_my_peer_info re now s =
     (let (u, t) = sync_my_peer_info (re_hmac re) now (re_ctx re) (svc_my_peer_id s) (svc_my_peer_route_id s) (synced_route_info s);
          s = s\<lparr>synced_route_info := t\<rparr>
      in if u then sbind (update_route_table_and_cached_local_conn_bitmap re now s) (\<lambda>s. Some (Inr (True, s)))
         else Some (Inr (False, s)))"

definition update_my_conn_info ::
  "'r route_env \<Rightarrow> time \<Rightarrow> PeerId set \<Rightarrow> 'r PeerRouteServiceImpl \<Rightarrow> (bool \<times> 'r PeerRouteServiceImpl) search_result" where
  "update_my_conn_info re now peers s =
     (let (u, t) = sync_my_conn_info (ctx_easytier_version (re_ctx re)) now (svc_my_peer_id s) peers (synced_route_info s);
          s = s\<lparr>synced_route_info := t\<rparr>
      in if u then sbind (update_route_table_and_cached_local_conn_bitmap re now s) (\<lambda>s. Some (Inr (True, s)))
         else Some (Inr (False, s)))"

definition OSPF_UPDATE_MY_GLOBAL_FOREIGN_NETWORK_INTERVAL_SEC :: nat where
  "OSPF_UPDATE_MY_GLOBAL_FOREIGN_NETWORK_INTERVAL_SEC = 10"

definition update_my_foreign_network ::
  "time \<Rightarrow> (ForeignNetworkRouteInfoKey \<times> ForeignNetworkRouteInfoEntry) list \<Rightarrow> 'r PeerRouteServiceImpl \<Rightarrow>
     (bool \<times> 'r PeerRouteServiceImpl) may_panic" where
  "update_my_foreign_network now fns s =
     (if (case last_update_my_foreign_network s of
            Some t \<Rightarrow> (now - t) div secs 1 < OSPF_UPDATE_MY_GLOBAL_FOREIGN_NETWORK_INTERVAL_SEC | None \<Rightarrow> False)
      then Inr (False, s)
      else rbind (sync_my_foreign_network now (svc_my_peer_id s) fns (synced_route_info s)) (\<lambda>(u, t).
             Inr (u, s\<lparr>last_update_my_foreign_network := Some now, synced_route_info := t\<rparr>)))"

definition update_my_infos ::
  "'r route_env \<Rightarrow> time \<Rightarrow> PeerId set \<Rightarrow> (ForeignNetworkRouteInfoKey \<times> ForeignNetworkRouteInfoEntry) list \<Rightarrow>
     'r PeerRouteServiceImpl \<Rightarrow> (bool \<times> 'r PeerRouteServiceImpl) search_result" where
  "update_my_infos re now peers fns s =
     sbind (update_my_peer_info re now s) (\<lambda>(info_u, s).
     sbind (update_my_conn_info re now peers s) (\<lambda>(conn_u, s).
     sbind (Some (update_my_foreign_network now fns s)) (\<lambda>(foreign_u, s).
       let s = (if conn_u \<or> info_u then update_foreign_network_owner_map s else s);
           s = (if info_u then update_peer_info_last_update now s else s)
       in Some (Inr (info_u \<or> conn_u \<or> foreign_u, s)))))"

section \<open>What a neighbour lacks\<close>

text \<open>Each builder gives the part of the request and the session, whose saved versions were looked at.\<close>

fun route_infos_loop ::
  "time \<Rightarrow> RouteTable \<Rightarrow> (PeerId \<times> RoutePeerInfo) list \<Rightarrow> SyncRouteSession \<Rightarrow> RoutePeerInfo list \<times> SyncRouteSession" where
  "route_infos_loop now rt [] ss = ([], ss)"
| "route_infos_loop now rt ((p, i) # rest) ss =
     (if \<not> peer_reachable rt p then route_infos_loop now rt rest ss
      else let (up_to_date, ss) = check_saved_peer_info_update_to_date now (peer_id i) (version i) ss;
               (is, ss) = route_infos_loop now rt rest ss
           in (if up_to_date then is else i # is, ss))"

definition none_if_empty :: "'a list \<Rightarrow> 'a list option" where
  "none_if_empty xs = (if xs = [] then None else Some xs)"

definition build_route_info ::
  "time \<Rightarrow> 'r PeerRouteServiceImpl \<Rightarrow> SyncRouteSession \<Rightarrow> RoutePeerInfo list option \<times> SyncRouteSession" where
  "build_route_info now s ss =
     (let (is, ss) = route_infos_loop now (route_table s) (peer_infos (synced_route_info s)) ss in (none_if_empty is, ss))"

fun conn_bitmap_loop :: "time \<Rightarrow> PeerIdVersion list \<Rightarrow> SyncRouteSession \<Rightarrow> bool \<times> SyncRouteSession" where
  "conn_bitmap_loop now [] ss = (False, ss)"
| "conn_bitmap_loop now (idv # rest) ss =
     (let (up_to_date, ss) = check_saved_conn_version_update_to_date now (idv_peer_id idv) (idv_version idv) ss;
          (need, ss) = conn_bitmap_loop now rest ss
      in (\<not> up_to_date \<or> need, ss))"

definition build_conn_bitmap ::
  "time \<Rightarrow> 'r PeerRouteServiceImpl \<Rightarrow> SyncRouteSession \<Rightarrow> RouteConnBitmap option \<times> SyncRouteSession" where
  "build_conn_bitmap now s ss =
     (let (need, ss) = conn_bitmap_loop now (bm_peer_ids (cached_local_conn_map s)) ss
      in (if need then Some (cached_local_conn_map s) else None, ss))"

definition estimate_conn_bitmap_size :: "'r PeerRouteServiceImpl \<Rightarrow> nat" where
  "estimate_conn_bitmap_size s =
     length (bitmap (cached_local_conn_map s)) + length (bm_peer_ids (cached_local_conn_map s)) * 8"

fun conn_peer_list_loop ::
  "time \<Rightarrow> 'r SyncedRouteInfo \<Rightarrow> PeerIdVersion list \<Rightarrow> SyncRouteSession \<Rightarrow> RouteConnPeerList \<times> nat \<times> SyncRouteSession" where
  "conn_peer_list_loop now s [] ss = ([], 0, ss)"
| "conn_peer_list_loop now s (idv # rest) ss =
     (let (up_to_date, ss) = check_saved_conn_version_update_to_date now (idv_peer_id idv) (idv_version idv) ss;
          (pcs, size, ss) = conn_peer_list_loop now s rest ss
      in if up_to_date then (pcs, size, ss)
         else case map_of (conn_map s) (idv_peer_id idv) of
             None \<Rightarrow> (pcs, size, ss)
           | Some (c, v) \<Rightarrow>
               (\<lparr>conn_peer_id = Some idv, connected_peer_ids = sorted_list_of_set c\<rparr> # pcs, 8 + card c * 4 + size, ss))"

definition build_conn_peer_list ::
  "time \<Rightarrow> 'r PeerRouteServiceImpl \<Rightarrow> SyncRouteSession \<Rightarrow> RouteConnPeerList option \<times> nat \<times> SyncRouteSession" where
  "build_conn_peer_list now s ss =
     (let (pcs, size, ss) = conn_peer_list_loop now (synced_route_info s) (bm_peer_ids (cached_local_conn_map s)) ss
      in (none_if_empty pcs, size, ss))"

definition build_conn_info ::
  "bool \<Rightarrow> time \<Rightarrow> PeerId \<Rightarrow> 'r PeerRouteServiceImpl \<Rightarrow> SyncRouteSession \<Rightarrow> ConnInfo option \<times> SyncRouteSession" where
  "build_conn_info force_list now dst s ss =
     (let supports = (case Option.bind (map_of (peer_infos (synced_route_info s)) dst) feature_flag of
            Some f \<Rightarrow> support_conn_list_sync f | None \<Rightarrow> False);
          with_bitmap = (\<lambda>ss. let (cb, ss) = build_conn_bitmap now s ss in (map_option ConnBitmap cb, ss))
      in if \<not> supports \<and> \<not> force_list then with_bitmap ss
         else let (pcs, size, ss) = build_conn_peer_list now s ss in
           if size < estimate_conn_bitmap_size s \<or> force_list \<or> pcs = None then (map_option ConnPeerList pcs, ss)
           else with_bitmap ss)"

fun foreign_loop ::
  "time \<Rightarrow> (ForeignNetworkRouteInfoKey \<times> ForeignNetworkRouteInfoEntry) list \<Rightarrow> SyncRouteSession \<Rightarrow>
     RouteForeignNetworkInfos \<times> SyncRouteSession" where
  "foreign_loop now [] ss = ([], ss)"
| "foreign_loop now ((k, e) # rest) ss =
     (let (up_to_date, ss) = check_saved_foreign_network_version_update_to_date now k (fe_version e) ss;
          (fs, ss) = foreign_loop now rest ss
      in (if up_to_date then fs else (Some k, Some e) # fs, ss))"

definition build_foreign_network_info ::
  "time \<Rightarrow> 'r PeerRouteServiceImpl \<Rightarrow> SyncRouteSession \<Rightarrow> RouteForeignNetworkInfos option \<times> SyncRouteSession" where
  "build_foreign_network_info now s ss =
     (let (fs, ss) = foreign_loop now (foreign_network (synced_route_info s)) ss in (none_if_empty fs, ss))"

definition build_sync_request ::
  "bool \<Rightarrow> time \<Rightarrow> PeerId \<Rightarrow> 'r PeerRouteServiceImpl \<Rightarrow> SyncRouteSession \<Rightarrow>
     (RoutePeerInfo list option \<times> ConnInfo option \<times> RouteForeignNetworkInfos option) \<times> SyncRouteSession" where
  "build_sync_request force_list now dst s ss =
     (let (is, ss) = build_route_info now s ss;
          (ci, ss) = build_conn_info force_list now dst s ss;
          (fs, ss) = build_foreign_network_info now s ss
      in ((is, ci, fs), ss))"

section \<open>Expiry\<close>

fun expired_peers :: "time \<Rightarrow> (PeerId \<times> RoutePeerInfo) list \<Rightarrow> PeerId list may_panic" where
  "expired_peers now [] = Inr []"
| "expired_peers now ((p, i) # rest) =
     rbind (unwrap (last_update i)) (\<lambda>t.
     rbind (expired_peers now rest) (\<lambda>ps.
       Inr (case duration_since now t of
              Some d \<Rightarrow> if d > REMOVE_DEAD_PEER_INFO_AFTER then p # ps else ps | None \<Rightarrow> ps)))"

definition foreign_expired :: "time \<Rightarrow> ForeignNetworkRouteInfoEntry \<Rightarrow> bool" where
  "foreign_expired now e =
     (case Option.bind (fe_last_update e) (duration_since now) of
        None \<Rightarrow> True | Some d \<Rightarrow> d > REMOVE_DEAD_PEER_INFO_AFTER)"

definition clear_expired_peer :: "time \<Rightarrow> 'r PeerRouteServiceImpl \<Rightarrow> 'r PeerRouteServiceImpl may_panic" where
  "clear_expired_peer now s =
     rbind (expired_peers now (peer_infos (synced_route_info s))) (\<lambda>ps.
       let t = fold remove_peer ps (synced_route_info s);
           t = t\<lparr>foreign_network := filter (\<lambda>(k, e). \<not> foreign_expired now e) (foreign_network t)\<rparr>
       in Inr (s\<lparr>synced_route_info := t, route_table := clean_expired_route_info (route_table s),
                 route_table_with_cost := clean_expired_route_info (route_table_with_cost s)\<rparr>))"

section \<open>A round of synchronisation, at the sender\<close>

definition build_sync_route_raws :: "'r route_env \<Rightarrow> (PeerId \<times> 'r) list \<Rightarrow> RoutePeerInfo list \<Rightarrow> 'r list" where
  "build_sync_route_raws re raws infos =
     map (\<lambda>i. case map_of raws (peer_id i) of Some r \<Rightarrow> r | None \<Rightarrow> re_transcode re i) infos"

text \<open>The request with the raw form of its peer infos, or nothing to send.\<close>

definition sync_route_start ::
  "'r route_env \<Rightarrow> time \<Rightarrow> PeerId \<Rightarrow> bool \<Rightarrow> 'r PeerRouteServiceImpl \<Rightarrow>
     (SyncRouteInfoRequest \<times> 'r list option) option \<times> 'r PeerRouteServiceImpl" where
  "sync_route_start re now dst sync_as_initiator s =
     (case get_session dst s of
        None \<Rightarrow> (None, s)
      | Some ss \<Rightarrow>
          let ((is, ci, fs), ss) = build_sync_request (re_force_conn_list re) now dst s ss in
          if is = None \<and> ci = None \<and> fs = None \<and> \<not> need_sync_initiator_info ss \<and>
             \<not> (sync_as_initiator \<and> we_are_initiator ss)
          then (None, put_session dst ss s)
          else let ss = ss\<lparr>need_sync_initiator_info := False\<rparr>;
                   req = \<lparr>req_my_peer_id = svc_my_peer_id s, req_my_session_id = my_session_id ss,
                          req_is_initiator = we_are_initiator ss, req_peer_infos = is, req_conn_info = ci,
                          req_foreign_network_infos = fs\<rparr>
               in (Some (req, map_option (build_sync_route_raws re (raw_peer_infos (synced_route_info s))) is),
                   put_session dst ss s))"

definition apply_sent ::
  "time \<Rightarrow> PeerId \<Rightarrow> SyncRouteInfoRequest \<Rightarrow> SyncRouteSession \<Rightarrow> SyncRouteSession may_panic" where
  "apply_sent now dst req ss =
     (let ss = (case req_peer_infos req of Some is \<Rightarrow> update_dst_saved_peer_info_version now is dst ss | None \<Rightarrow> ss);
          ss = (case req_conn_info req of Some ci \<Rightarrow> update_dst_saved_conn_info_version now ci dst ss | None \<Rightarrow> ss)
      in case req_foreign_network_infos req of
           Some fs \<Rightarrow> update_dst_saved_foreign_network_version now fs dst ss | None \<Rightarrow> Inr ss)"

text \<open>What the sender does with the answer; \<open>None\<close> is a failed call.\<close>

definition session_sync_finish ::
  "global_ctx \<Rightarrow> time \<Rightarrow> PeerId \<Rightarrow> SyncRouteInfoRequest \<Rightarrow> SyncRouteInfoResponse option \<Rightarrow> SyncRouteSession \<Rightarrow>
     SyncRouteSession may_panic" where
  "session_sync_finish ctx now dst req ret ss =
     (case ret of
        None \<Rightarrow> Inr (ss\<lparr>need_sync_initiator_info := True\<rparr>)
      | Some resp \<Rightarrow>
          (case resp_error resp of
             Some err \<Rightarrow>
               if err = DuplicatePeerId
               then if \<not> is_public_server (ctx_feature_flags ctx) then Inl ExplicitPanic else Inr ss
               else Inr (ss\<lparr>need_sync_initiator_info := True\<rparr>)
           | None \<Rightarrow>
               apply_sent now dst req
                 (update_dst_session_id (resp_session_id resp)
                   (ss\<lparr>rpc_tx_count := rpc_tx_count ss + 1, dst_is_initiator := resp_is_initiator resp\<rparr>))))"

definition sync_route_finish ::
  "'r route_env \<Rightarrow> time \<Rightarrow> PeerId \<Rightarrow> SyncRouteInfoRequest \<Rightarrow> SyncRouteInfoResponse option \<Rightarrow> 'r PeerRouteServiceImpl \<Rightarrow>
     'r PeerRouteServiceImpl may_panic" where
  "sync_route_finish re now dst req ret s =
     (case get_session dst s of
        None \<Rightarrow> Inr s
      | Some ss \<Rightarrow> rbind (session_sync_finish (re_ctx re) now dst req ret ss) (\<lambda>ss. Inr (put_session dst ss s)))"

section \<open>A round of synchronisation, at the receiver\<close>

definition get_or_start_session ::
  "u64 \<Rightarrow> PeerId \<Rightarrow> 'r PeerRouteServiceImpl \<Rightarrow> SyncRouteSession \<times> 'r PeerRouteServiceImpl" where
  "get_or_start_session random_id dst s =
     (let (ss, s) = get_or_create_session random_id dst s; ss = ss\<lparr>task_is_running := True\<rparr> in (ss, put_session dst ss s))"

text \<open>The peer infos of a request; the result is an error or whether there were any.\<close>

definition accept_infos ::
  "'r route_env \<Rightarrow> time \<Rightarrow> PeerId \<Rightarrow> RoutePeerInfo list option \<Rightarrow> 'r list option \<Rightarrow> 'r PeerRouteServiceImpl \<times> SyncRouteSession \<Rightarrow>
     ((SyncRouteInfoError + bool) \<times> 'r PeerRouteServiceImpl \<times> SyncRouteSession) may_panic" where
  "accept_infos re now from infos raws st =
     (case st of (s, ss) \<Rightarrow>
       case infos of
         None \<Rightarrow> Inr (Inr False, s, ss)
       | Some infos \<Rightarrow>
           rbind (unwrap raws) (\<lambda>raws.
           rbind (update_peer_infos (re_raw_peer_id re) now (svc_my_peer_id s) (svc_my_peer_route_id s) from infos raws
                    (synced_route_info s)) (\<lambda>(r, t).
             case r of
               Inl e \<Rightarrow> Inr (Inl e, s\<lparr>synced_route_info := t\<rparr>, ss)
             | Inr _ \<Rightarrow>
                 let t = verify_and_update_group_trusts (re_hmac re) infos (get_acl_group_declarations (re_ctx re)) t
                 in Inr (Inr True, s\<lparr>synced_route_info := t\<rparr>, update_dst_saved_peer_info_version now infos from ss))))"

definition accept_conn ::
  "'r route_env \<Rightarrow> time \<Rightarrow> PeerId \<Rightarrow> ConnInfo option \<Rightarrow> 'r PeerRouteServiceImpl \<times> SyncRouteSession \<Rightarrow>
     (bool \<times> 'r PeerRouteServiceImpl \<times> SyncRouteSession) may_panic" where
  "accept_conn re now from conn st =
     (case st of (s, ss) \<Rightarrow>
       case conn of
         None \<Rightarrow> Inr (False, s, ss)
       | Some ci \<Rightarrow>
           rbind (update_conn_info (ctx_easytier_version (re_ctx re)) now ci (synced_route_info s)) (\<lambda>t.
             Inr (True, s\<lparr>synced_route_info := t\<rparr>, update_dst_saved_conn_info_version now ci from ss)))"

definition accept_foreign ::
  "time \<Rightarrow> PeerId \<Rightarrow> RouteForeignNetworkInfos option \<Rightarrow> 'r PeerRouteServiceImpl \<times> SyncRouteSession \<Rightarrow>
     ('r PeerRouteServiceImpl \<times> SyncRouteSession) may_panic" where
  "accept_foreign now from foreign st =
     (case st of (s, ss) \<Rightarrow>
       case foreign of
         None \<Rightarrow> Inr (s, ss)
       | Some fs \<Rightarrow>
           let s = s\<lparr>synced_route_info := update_foreign_network now fs (synced_route_info s)\<rparr> in
           rbind (update_dst_saved_foreign_network_version now fs from ss) (\<lambda>ss. Inr (s, ss)))"

definition do_sync_route_info ::
  "'r route_env \<Rightarrow> time \<Rightarrow> u64 \<Rightarrow> SyncRouteInfoRequest \<Rightarrow> 'r list option \<Rightarrow> 'r PeerRouteServiceImpl \<Rightarrow>
     ((SyncRouteInfoError + SyncRouteInfoResponse) \<times> 'r PeerRouteServiceImpl) search_result" where
  "do_sync_route_info re now random_id req raws s =
     (let from = req_my_peer_id req;
          (ss, s) = get_or_start_session random_id from s;
          ss = update_dst_session_id (req_my_session_id req) (ss\<lparr>rpc_rx_count := rpc_rx_count ss + 1\<rparr>)
      in sbind (Some (accept_infos re now from (req_peer_infos req) raws (s, ss))) (\<lambda>(r, s, ss).
         case r of
           Inl e \<Rightarrow> Some (Inr (Inl e, put_session from ss s))
         | Inr u \<Rightarrow>
             sbind (Some (accept_conn re now from (req_conn_info req) (s, ss))) (\<lambda>(u', s, ss).
             sbind (if u \<or> u' then update_route_table_and_cached_local_conn_bitmap re now s else Some (Inr s)) (\<lambda>s.
             sbind (Some (accept_foreign now from (req_foreign_network_infos req) (s, ss))) (\<lambda>(s, ss).
               let s = (if u \<or> u' \<or> req_foreign_network_infos req \<noteq> None then update_foreign_network_owner_map s else s);
                   ss = ss\<lparr>dst_is_initiator := req_is_initiator req\<rparr>
               in Some (Inr (Inr \<lparr>resp_is_initiator = we_are_initiator ss, resp_session_id = my_session_id ss,
                                  resp_error = None\<rparr>, put_session from ss s)))))))"

text \<open>The RPC method: the raw peer infos must be as many as the decoded ones.\<close>

definition sync_route_info ::
  "'r route_env \<Rightarrow> time \<Rightarrow> u64 \<Rightarrow> SyncRouteInfoRequest \<Rightarrow> 'r list option \<Rightarrow> 'r PeerRouteServiceImpl \<Rightarrow>
     (SyncRouteInfoResponse \<times> 'r PeerRouteServiceImpl) search_result" where
  "sync_route_info re now random_id req raw_input s =
     sbind (case req_peer_infos req of
              None \<Rightarrow> Some (Inr None)
            | Some infos \<Rightarrow> Some (rbind (unwrap raw_input) (\<lambda>r.
                rbind (rassert (length r = length infos) AssertionFailed) (\<lambda>_. Inr (Some r))))) (\<lambda>raws.
     sbind (do_sync_route_info re now random_id req raws s) (\<lambda>(r, s).
       Some (Inr (case r of
           Inr resp \<Rightarrow> resp
         | Inl e \<Rightarrow> \<lparr>resp_is_initiator = False, resp_session_id = 0, resp_error = Some e\<rparr>, s))))"

section \<open>With whom to keep a session\<close>

text \<open>
  One turn of \<open>maintain_sessions\<close>: \<open>peers\<close> are the directly connected peers, \<open>cur\<close> is the peer this node
  chose to initiate a session with.
\<close>

definition stop_gone ::
  "PeerId list \<Rightarrow> PeerId \<Rightarrow> PeerId option \<times> 'r PeerRouteServiceImpl \<Rightarrow> PeerId option \<times> 'r PeerRouteServiceImpl" where
  "stop_gone peers p st =
     (case st of (cur, s) \<Rightarrow>
        if p \<in> set peers then st else (if Some p = cur then None else cur, remove_session p s))"

definition initiator_candidates :: "PeerId list \<Rightarrow> 'r PeerRouteServiceImpl \<Rightarrow> PeerId list" where
  "initiator_candidates peers s =
     filter (\<lambda>p. case get_session p s of None \<Rightarrow> True | Some ss \<Rightarrow> \<not> dst_is_initiator ss) peers"

definition open_nat :: "RouteTable \<Rightarrow> PeerId \<Rightarrow> bool" where
  "open_nat rt p = (case get_nat_type rt p of Some t \<Rightarrow> t = NoPat \<or> t = OpenInternet | None \<Rightarrow> False)"

definition choose_initiator_dst :: "RouteTable \<Rightarrow> PeerId list \<Rightarrow> PeerId" where
  "choose_initiator_dst rt cands = (case find (open_nat rt) cands of Some p \<Rightarrow> p | None \<Rightarrow> hd cands)"

definition flag_session :: "bool \<Rightarrow> PeerId \<Rightarrow> 'r PeerRouteServiceImpl \<Rightarrow> 'r PeerRouteServiceImpl" where
  "flag_session b p s =
     (case get_session p s of None \<Rightarrow> s | Some ss \<Rightarrow> put_session p (update_initiator_flag b ss) s)"

definition switch_initiator ::
  "u64 \<Rightarrow> PeerId \<Rightarrow> PeerId option \<times> 'r PeerRouteServiceImpl \<Rightarrow> PeerId option \<times> 'r PeerRouteServiceImpl" where
  "switch_initiator random_id dst st =
     (case st of (cur, s) \<Rightarrow>
        if cur = Some dst then st
        else let s = (case cur of Some c \<Rightarrow> flag_session False c s | None \<Rightarrow> s);
                 (ss, s) = get_or_start_session random_id dst s
             in (Some dst, put_session dst (update_initiator_flag True ss) s))"

definition stop_idle :: "PeerId \<Rightarrow> 'r PeerRouteServiceImpl \<Rightarrow> 'r PeerRouteServiceImpl" where
  "stop_idle p s =
     (case get_session p s of
        None \<Rightarrow> s
      | Some ss \<Rightarrow>
          if (dst_is_initiator ss \<or> we_are_initiator ss \<or> need_sync_initiator_info ss) \<and> task_is_running ss then s
          else remove_session p s)"

definition maintain_turn ::
  "u64 \<Rightarrow> PeerId list \<Rightarrow> PeerId option \<times> 'r PeerRouteServiceImpl \<Rightarrow> PeerId option \<times> 'r PeerRouteServiceImpl" where
  "maintain_turn random_id peers st =
     (let session_peers = list_session_peers (snd st);
          peers = sort peers;
          (cur, s) = fold (stop_gone peers) session_peers st;
          cands = initiator_candidates peers s
      in if cands = [] then (cur, s)
         else let (cur, s) = switch_initiator random_id (choose_initiator_dst (route_table s) cands) (cur, s)
              in (cur, fold stop_idle session_peers s))"

section \<open>The routing interface of the node\<close>

definition get_next_hop_with_policy :: "PeerId \<Rightarrow> NextHopPolicy \<Rightarrow> 'r PeerRouteServiceImpl \<Rightarrow> PeerId option" where
  "get_next_hop_with_policy dst policy s =
     map_option next_hop_peer_id
       (get_next_hop (case policy of LeastCost \<Rightarrow> route_table_with_cost s | LeastHop \<Rightarrow> route_table s) dst)"

definition set_route_cost_fn :: "'r route_env \<Rightarrow> 'r PeerRouteServiceImpl \<Rightarrow> 'r PeerRouteServiceImpl search_result" where
  "set_route_cost_fn re s = update_route_table re (s\<lparr>synced_route_info := inc_version (synced_route_info s)\<rparr>)"

text \<open>One turn of \<open>update_my_peer_info_routine\<close>; the first result tells whether to synchronise now.\<close>

definition update_my_peer_info_turn ::
  "'r route_env \<Rightarrow> bool \<Rightarrow> time \<Rightarrow> PeerId set \<Rightarrow> (ForeignNetworkRouteInfoKey \<times> ForeignNetworkRouteInfoEntry) list \<Rightarrow>
     'r PeerRouteServiceImpl \<Rightarrow> (bool \<times> 'r PeerRouteServiceImpl) search_result" where
  "update_my_peer_info_turn re cost_need_update now peers fns s =
     sbind (update_my_infos re now peers fns s) (\<lambda>(u, s).
       if cost_need_update then sbind (set_route_cost_fn re s) (\<lambda>s. Some (Inr (u, s))) else Some (Inr (u, s)))"

definition list_foreign_network_info :: "'r PeerRouteServiceImpl \<Rightarrow> RouteForeignNetworkInfos" where
  "list_foreign_network_info s =
     map (\<lambda>(k, e). (Some k, Some e))
       (filter (\<lambda>(k, e). foreign_peer_ids e \<noteq> [] \<and> peer_reachable (route_table s) (fk_peer_id k))
         (foreign_network (synced_route_info s)))"

definition get_foreign_network_summary :: "'r PeerRouteServiceImpl \<Rightarrow> (PeerId \<times> u32 \<times> u32) list" where
  "get_foreign_network_summary s =
     fold (\<lambda>(k, e) m. let (n, c) = (case map_of m (fk_peer_id k) of Some x \<Rightarrow> x | None \<Rightarrow> (0, 0))
                      in AList.update (fk_peer_id k) (n + 1, c + of_nat (length (foreign_peer_ids e))) m)
       (foreign_network (synced_route_info s)) []"

definition list_peers_own_foreign_network :: "string \<times> bytes \<Rightarrow> 'r PeerRouteServiceImpl \<Rightarrow> PeerId list" where
  "list_peers_own_foreign_network ident s =
     (case map_of (foreign_network_owner_map s) ident of Some l \<Rightarrow> l | None \<Rightarrow> [])"

definition get_origin_my_peer_id :: "string \<Rightarrow> PeerId \<Rightarrow> 'r PeerRouteServiceImpl \<Rightarrow> PeerId option" where
  "get_origin_my_peer_id name p s = map_of (foreign_network_my_peer_id_map s) (name, p)"

definition get_peer_info :: "PeerId \<Rightarrow> 'r PeerRouteServiceImpl \<Rightarrow> RoutePeerInfo option" where
  "get_peer_info p s = map_of (rt_peer_infos (route_table s)) p"

end
