(* ===== verification/Ospf_Bitmap.thy ===== *)
theory Ospf_Bitmap
  imports Ospf_Service
begin

text \<open>
  The connection bitmap: the square matrix of who is connected to whom, packed eight bits to a
  byte by \<open>update_route_table_and_cached_local_conn_bitmap\<close> and unpacked by \<open>get_connected_peers\<close> at
  the receiver.
\<close>

section \<open>Bits of a byte string\<close>

definition bit_at :: "bytes \<Rightarrow> nat \<Rightarrow> bool" where
  "bit_at bm j \<longleftrightarrow> j div 8 < length bm \<and> bit (bm ! (j div 8)) (j mod 8)"

lemma set_bit_at_ok:
  assumes "i div 8 < length bm"
  shows "\<exists>bm'. set_bit_at i bm = Inr bm' \<and> length bm' = length bm \<and> (\<forall>j. bit_at bm' j \<longleftrightarrow> bit_at bm j \<or> j = i)"
proof -
  have "bit_at (bm[i div 8 := set_bit (i mod 8) (bm ! (i div 8))]) j \<longleftrightarrow> bit_at bm j \<or> j = i" for j
  proof (cases "j div 8 = i div 8")
    case True
    then have "j = i \<longleftrightarrow> i mod 8 = j mod 8"
      by (metis div_mult_mod_eq)
    moreover have "j mod 8 < 8"
      by simp
    ultimately show ?thesis
      using True assms by (simp add: bit_at_def bit_set_bit_iff)
  next
    case False
    then show ?thesis
      by (auto simp: bit_at_def)
  qed
  then show ?thesis
    using assms by (simp add: set_bit_at_def)
qed

lemma get_bit_ok: "i div 8 < length bm \<Longrightarrow> get_bit bm i = Inr (bit_at bm i)"
  by (simp add: get_bit_def bit_at_def)

lemma fill_row_ok:
  assumes "\<forall>(idx, idv)\<in>set items. (base + idx) div 8 < length bm"
  shows "\<exists>bm'. fill_row conn base items bm = Inr bm' \<and> length bm' = length bm \<and>
    (\<forall>j. bit_at bm' j \<longleftrightarrow> bit_at bm j \<or> (\<exists>(idx, idv)\<in>set items. idv_peer_id idv \<in> conn \<and> j = base + idx))"
  using assms
proof (induction items arbitrary: bm)
  case (Cons x items)
  obtain idx idv where x: "x = (idx, idv)"
    by (cases x)
  obtain bm1 where bm1: "(if idv_peer_id idv \<in> conn then set_bit_at (base + idx) bm else Inr bm) = Inr bm1"
      "length bm1 = length bm" "\<forall>j. bit_at bm1 j \<longleftrightarrow> bit_at bm j \<or> (idv_peer_id idv \<in> conn \<and> j = base + idx)"
    using set_bit_at_ok [of "base + idx" bm] Cons.prems x by (cases "idv_peer_id idv \<in> conn") auto
  obtain bm2 where "fill_row conn base items bm1 = Inr bm2" "length bm2 = length bm1"
      "\<forall>j. bit_at bm2 j \<longleftrightarrow> bit_at bm1 j \<or> (\<exists>(idx, idv)\<in>set items. idv_peer_id idv \<in> conn \<and> j = base + idx)"
    using Cons.IH [of bm1] Cons.prems bm1(2) by auto
  then show ?case
    using bm1 x by auto
qed simp

lemma fill_rows_ok:
  assumes "\<forall>(pi, idv)\<in>set rows. \<forall>(idx, idv')\<in>set (enumerate 0 ids). (pi * length ids + idx) div 8 < length bm"
  shows "\<exists>bm'. fill_rows s ids rows bm = Inr bm' \<and> length bm' = length bm \<and>
    (\<forall>j. bit_at bm' j \<longleftrightarrow> bit_at bm j \<or> (\<exists>(pi, idv)\<in>set rows. \<exists>(idx, idv')\<in>set (enumerate 0 ids).
       is_peer_bidirectly_connected (idv_peer_id idv) (idv_peer_id idv') s \<and> j = pi * length ids + idx))"
  using assms
proof (induction rows arbitrary: bm)
  case (Cons x rows)
  obtain pi idv where x: "x = (pi, idv)"
    by (cases x)
  define row where "row = (\<lambda>bm. case map_of (conn_map s) (idv_peer_id idv) of
      None \<Rightarrow> Inr bm | Some (c, v) \<Rightarrow> fill_row c (pi * length ids) (enumerate 0 ids) bm)"
  have ex: "\<exists>bm1. row bm = Inr bm1 \<and> length bm1 = length bm \<and> (\<forall>j. bit_at bm1 j \<longleftrightarrow> bit_at bm j \<or>
      (\<exists>(idx, idv')\<in>set (enumerate 0 ids). is_peer_bidirectly_connected (idv_peer_id idv) (idv_peer_id idv') s \<and>
         j = pi * length ids + idx))"
  proof (cases "map_of (conn_map s) (idv_peer_id idv)")
    case None
    then show ?thesis
      by (simp add: row_def is_peer_bidirectly_connected_def)
  next
    case (Some cv)
    then show ?thesis
      using fill_row_ok [of "enumerate 0 ids" "pi * length ids" bm "fst cv"] Cons.prems x
      by (cases cv) (auto simp: row_def is_peer_bidirectly_connected_def)
  qed
  then obtain bm1 where bm1: "row bm = Inr bm1" "length bm1 = length bm" "\<forall>j. bit_at bm1 j \<longleftrightarrow> bit_at bm j \<or>
      (\<exists>(idx, idv')\<in>set (enumerate 0 ids). is_peer_bidirectly_connected (idv_peer_id idv) (idv_peer_id idv') s \<and>
         j = pi * length ids + idx)"
    by blast
  obtain bm2 where bm2: "fill_rows s ids rows bm1 = Inr bm2" "length bm2 = length bm1"
    "\<forall>j. bit_at bm2 j \<longleftrightarrow> bit_at bm1 j \<or> (\<exists>(pi, idv)\<in>set rows. \<exists>(idx, idv')\<in>set (enumerate 0 ids).
       is_peer_bidirectly_connected (idv_peer_id idv) (idv_peer_id idv') s \<and> j = pi * length ids + idx)"
    using Cons.IH [of bm1] Cons.prems bm1(2) by auto
  have "fill_rows s ids (x # rows) bm = Inr bm2"
    using bm1(1) bm2(1) by (simp add: x row_def)
  then show ?case
    using bm1(2,3) bm2(2,3) by (auto simp: x)
qed simp

lemma matrix_index:
  fixes i j k l n :: nat
  assumes "k < n" and "l < n"
  shows "i * n + k = j * n + l \<longleftrightarrow> i = j \<and> k = l"
proof -
  have "(i * n + k) div n = i" "(j * n + l) div n = j" "(i * n + k) mod n = k" "(j * n + l) mod n = l"
    using assms by simp_all
  then show ?thesis
    by metis
qed

lemma matrix_in_range:
  fixes i k n :: nat
  assumes "i < n" and "k < n"
  shows "(i * n + k) div 8 < (n * n + 7) div 8"
proof -
  have "i * n + k < Suc i * n"
    using assms(2) by simp
  also have "\<dots> \<le> n * n"
    using assms(1) by (intro mult_le_mono1) simp
  finally show ?thesis
    by simp
qed

section \<open>The matrix at the receiver\<close>

lemma connected_peers_loop_ok:
  assumes "\<forall>(idx, idv)\<in>set items. (pi * length (bm_peer_ids cb) + idx) div 8 < length (bitmap cb)"
  shows "connected_peers_loop cb pi items =
    Inr (set (map (\<lambda>x. idv_peer_id (snd x)) (filter (\<lambda>x. bit_at (bitmap cb) (pi * length (bm_peer_ids cb) + fst x)) items)))"
  using assms by (induction items) (auto simp: get_bit_ok)

lemma build_bitmap_ok:
  "\<exists>bm. build_bitmap s rt = Inr \<lparr>bm_peer_ids = conn_peer_ids s rt, bitmap = bm\<rparr> \<and>
     (let ids = conn_peer_ids s rt; n = length ids in
      (\<forall>i<n. \<forall>k<n. (i * n + k) div 8 < length bm) \<and>
      (\<forall>i<n. \<forall>k<n. bit_at bm (i * n + k) \<longleftrightarrow> is_peer_bidirectly_connected (idv_peer_id (ids ! i)) (idv_peer_id (ids ! k)) s))"
proof -
  let ?ids = "conn_peer_ids s rt" and ?n = "length (conn_peer_ids s rt)"
  let ?bm = "replicate ((?n * ?n + 7) div 8) (0 :: u8)"
  have en: "(i, x) \<in> set (enumerate 0 ?ids) \<longleftrightarrow> i < ?n \<and> x = ?ids ! i" for i x
    by (auto simp: in_set_enumerate_eq)
  have "\<forall>(pi, idv)\<in>set (enumerate 0 ?ids). \<forall>(idx, idv')\<in>set (enumerate 0 ?ids). (pi * ?n + idx) div 8 < length ?bm"
    by (auto simp: en intro: matrix_in_range)
  then obtain bm where bm: "fill_rows s ?ids (enumerate 0 ?ids) ?bm = Inr bm" "length bm = length ?bm"
    and bits: "\<forall>j. bit_at bm j \<longleftrightarrow> bit_at ?bm j \<or> (\<exists>(pi, idv)\<in>set (enumerate 0 ?ids). \<exists>(idx, idv')\<in>set (enumerate 0 ?ids).
       is_peer_bidirectly_connected (idv_peer_id idv) (idv_peer_id idv') s \<and> j = pi * ?n + idx)"
    using fill_rows_ok by blast
  have "bit_at bm (i * ?n + k) \<longleftrightarrow> is_peer_bidirectly_connected (idv_peer_id (?ids ! i)) (idv_peer_id (?ids ! k)) s"
    if "i < ?n" "k < ?n" for i k
  proof -
    have "\<not> bit_at ?bm j" for j
      by (simp add: bit_at_def)
    then have "bit_at bm (i * ?n + k) \<longleftrightarrow> (\<exists>pi<?n. \<exists>idx<?n.
        is_peer_bidirectly_connected (idv_peer_id (?ids ! pi)) (idv_peer_id (?ids ! idx)) s \<and> i * ?n + k = pi * ?n + idx)"
      using bits by (auto simp: en Bex_def)
    also have "\<dots> \<longleftrightarrow> is_peer_bidirectly_connected (idv_peer_id (?ids ! i)) (idv_peer_id (?ids ! k)) s"
      using that matrix_index [of k ?n] by metis
    finally show ?thesis .
  qed
  moreover have "(i * ?n + k) div 8 < length bm" if "i < ?n" "k < ?n" for i k
    using matrix_in_range [OF that] bm(2) by simp
  ultimately show ?thesis
    using bm(1) by (simp add: build_bitmap_def Let_def)
qed

text \<open>Whoever is connected to a peer has an entry, if only an empty one (\<open>fill_empty_peer_info\<close>).\<close>

definition conn_closed :: "'r SyncedRouteInfo \<Rightarrow> bool" where
  "conn_closed s \<longleftrightarrow> (\<forall>(p, c, v)\<in>set (conn_map s). c \<subseteq> fst ` set (conn_map s))"

lemma conn_peer_ids_iff:
  "q \<in> idv_peer_id ` set (conn_peer_ids s rt) \<longleftrightarrow> q \<in> fst ` set (conn_map s) \<and> (q \<in> all_dst_peer_ids s \<or> peer_reachable rt q)"
  by (force simp: conn_peer_ids_def)


text \<open>Two peers that are connected to each other.\<close>

definition sample_conns :: "unit SyncedRouteInfo" where
  "sample_conns = SyncedRouteInfo_empty\<lparr>conn_map := [(1, {2}, 1), (2, {1}, 1)]\<rparr>"


end
