(* ===== verification/Ospf_Convergence.thy ===== *)
theory Ospf_Convergence
  imports Ospf_Info
begin

text \<open>
  What route synchronisation achieves for the tables of \<open>Ospf_Info\<close>. The peer infos, the
  connections and the foreign networks each implement a versioned store; entries of version 0 are
  placeholders and do not count, and the local time of arrival is not part of a value. Every
  operation that is not an expiry is a step of all three stores, so the laws of the interface
  hold for whatever sequence of messages and local changes a node goes through.
\<close>

section \<open>The tables as versioned stores\<close>

definition info_value :: "RoutePeerInfo \<Rightarrow> RoutePeerInfo" where
  "info_value i = i\<lparr>last_update := None\<rparr>"

definition foreign_value :: "ForeignNetworkRouteInfoEntry \<Rightarrow> ForeignNetworkRouteInfoEntry" where
  "foreign_value e = e\<lparr>fe_last_update := None\<rparr>"

definition info_view :: "'r SyncedRouteInfo \<Rightarrow> PeerId \<Rightarrow> (RoutePeerInfo \<times> Version) option" where
  "info_view s k =
     (case map_of (peer_infos s) k of
        Some i \<Rightarrow> if version i = 0 then None else Some (info_value i, version i) | None \<Rightarrow> None)"

definition conn_view :: "'r SyncedRouteInfo \<Rightarrow> PeerId \<Rightarrow> (PeerId set \<times> Version) option" where
  "conn_view s k =
     (case map_of (conn_map s) k of Some (c, v) \<Rightarrow> if v = 0 then None else Some (c, v) | None \<Rightarrow> None)"

definition foreign_view ::
  "'r SyncedRouteInfo \<Rightarrow> ForeignNetworkRouteInfoKey \<Rightarrow> (ForeignNetworkRouteInfoEntry \<times> Version) option" where
  "foreign_view s k =
     (case map_of (foreign_network s) k of
        Some e \<Rightarrow> if fe_version e = 0 then None else Some (foreign_value e, fe_version e) | None \<Rightarrow> None)"

definition info_items :: "RoutePeerInfo list \<Rightarrow> (PeerId \<times> RoutePeerInfo \<times> Version) list" where
  "info_items is = map (\<lambda>i. (peer_id i, info_value i, version i)) (filter (\<lambda>i. version i \<noteq> 0) is)"

definition foreign_items ::
  "RouteForeignNetworkInfos \<Rightarrow> (ForeignNetworkRouteInfoKey \<times> ForeignNetworkRouteInfoEntry \<times> Version) list" where
  "foreign_items is =
     List.map_filter (\<lambda>i. case i of
         (Some k, Some e) \<Rightarrow> if fe_version e = 0 then None else Some (k, foreign_value e, fe_version e)
       | _ \<Rightarrow> None) is"

definition conn_item :: "PeerIdVersion \<Rightarrow> PeerId set \<Rightarrow> (PeerId \<times> PeerId set \<times> Version) list" where
  "conn_item idv c = (if idv_version idv = 0 then [] else [(idv_peer_id idv, c, idv_version idv)])"

definition list_items :: "RouteConnPeerList \<Rightarrow> (PeerId \<times> PeerId set \<times> Version) list" where
  "list_items pcs =
     concat (map (\<lambda>pc. case conn_peer_id pc of Some idv \<Rightarrow> conn_item idv (set (connected_peer_ids pc)) | None \<Rightarrow> []) pcs)"

definition bitmap_items :: "RouteConnBitmap \<Rightarrow> (PeerId \<times> PeerId set \<times> Version) list" where
  "bitmap_items cb =
     concat (map (\<lambda>(i, idv). case bitmap_connected_peers cb i of Inr c \<Rightarrow> conn_item idv c | Inl e \<Rightarrow> [])
       (enumerate 0 (bm_peer_ids cb)))"

definition conn_items :: "ConnInfo \<Rightarrow> (PeerId \<times> PeerId set \<times> Version) list" where
  "conn_items ci = (case ci of ConnBitmap cb \<Rightarrow> bitmap_items cb | ConnPeerList pcs \<Rightarrow> list_items pcs)"

named_theorems view_frame \<open>operations that leave a view of the tables alone\<close>

lemmas map_of_update = update_conv' [of k v al for k v al]

lemma view_inc [simp, view_frame]:
  "info_view (inc_if b s) = info_view s" "conn_view (inc_if b s) = conn_view s"
  "foreign_view (inc_if b s) = foreign_view s" "info_view (inc_version s) = info_view s"
  "conn_view (inc_version s) = conn_view s" "foreign_view (inc_version s) = foreign_view s"
  by (simp_all add: inc_if_def inc_version_def info_view_def conn_view_def foreign_view_def fun_eq_iff)

lemma fill_one_views:
  "info_view (snd (fill_one ver now p ns)) = info_view (snd ns)"
  "conn_view (snd (fill_one ver now p ns)) = conn_view (snd ns)"
  "foreign_view (snd (fill_one ver now p ns)) = foreign_view (snd ns)"
  by (auto simp: fill_one_def info_view_def conn_view_def foreign_view_def map_of_update RoutePeerInfo_new_def
      fun_eq_iff split: prod.splits)

lemma fill_fold_views:
  "info_view (snd (fold (fill_one ver now) xs ns)) = info_view (snd ns) \<and>
   conn_view (snd (fold (fill_one ver now) xs ns)) = conn_view (snd ns) \<and>
   foreign_view (snd (fold (fill_one ver now) xs ns)) = foreign_view (snd ns)"
  by (induction xs arbitrary: ns) (simp_all add: fill_one_views)

lemma fill_empty_views [simp, view_frame]:
  "info_view (fill_empty_peer_info ver now ids s) = info_view s"
  "conn_view (fill_empty_peer_info ver now ids s) = conn_view s"
  "foreign_view (fill_empty_peer_info ver now ids s) = foreign_view s"
  by (simp_all add: fill_empty_peer_info_def case_prod_beta fill_fold_views)

lemma store_info_views:
  "info_view (snd (store_info (i\<lparr>last_update := t\<rparr>) raw ns)) k = newest (info_view (snd ns) k) (items_for k (info_items [i]))"
  "conn_view (snd (store_info i raw ns)) = conn_view (snd ns)"
  "foreign_view (snd (store_info i raw ns)) = foreign_view (snd ns)"
proof -
  show "info_view (snd (store_info (i\<lparr>last_update := t\<rparr>) raw ns)) k = newest (info_view (snd ns) k) (items_for k (info_items [i]))"
    by (auto simp: store_info_def info_view_def info_items_def info_value_def map_of_update newer_def word_greater_zero_iff
        split: prod.splits option.splits)
qed (auto simp: store_info_def conn_view_def foreign_view_def fun_eq_iff split: prod.splits)

lemma info_items_Cons: "info_items (i # is) = info_items [i] @ info_items is"
  by (simp add: info_items_def)

lemma update_infos_loop_Cons:
  assumes "update_infos_loop rp now my rid dst raws idx (i # infos) ns = Inr (Inr (), ns')"
  shows "\<exists>raw. update_infos_loop rp now my rid dst raws (idx + 1) infos
     (store_info (i\<lparr>last_update := Some now\<rparr>) raw ns) = Inr (Inr (), ns')"
proof -
  obtain raw and r :: "SyncRouteInfoError + unit" where "(case r of
       Inl e \<Rightarrow> Inr (Inl e, ns)
     | Inr _ \<Rightarrow>
         rbind (rassert (rp raw = peer_id i) AssertionFailed) (\<lambda>_.
           update_infos_loop rp now my rid dst raws (idx + 1) infos
             (store_info (i\<lparr>last_update := Some now\<rparr>) raw ns))) = Inr (Inr (), ns')"
    using assms unfolding update_infos_loop.simps(2) rbind_eq_Inr_iff [of _ _ "(Inr (), ns')"]
    by (elim exE conjE) (rule that)
  then show ?thesis
    by (cases r) (auto simp: rbind_eq_Inr_iff)
qed

lemma update_infos_loop_views:
  assumes "update_infos_loop rp now my rid dst raws idx infos ns = Inr (Inr (), ns')"
  shows "info_view (snd ns') k = newest (info_view (snd ns) k) (items_for k (info_items infos))"
    and "conn_view (snd ns') = conn_view (snd ns)" and "foreign_view (snd ns') = foreign_view (snd ns)"
proof -
  have "info_view (snd ns') k = newest (info_view (snd ns) k) (items_for k (info_items infos)) \<and>
      conn_view (snd ns') = conn_view (snd ns) \<and> foreign_view (snd ns') = foreign_view (snd ns)"
    using assms
  proof (induction infos arbitrary: idx ns)
    case Nil
    then show ?case
      by (simp add: info_items_def)
  next
    case (Cons i infos)
    from update_infos_loop_Cons [OF Cons.prems] obtain raw where
      "update_infos_loop rp now my rid dst raws (idx + 1) infos
        (store_info (i\<lparr>last_update := Some now\<rparr>) raw ns) = Inr (Inr (), ns')"
      by blast
    then show ?case
      using Cons.IH by (simp add: store_info_views info_items_Cons [of i infos] newest_append)
  qed
  then show "info_view (snd ns') k = newest (info_view (snd ns) k) (items_for k (info_items infos))"
    and "conn_view (snd ns') = conn_view (snd ns)" and "foreign_view (snd ns') = foreign_view (snd ns)"
    by blast+
qed

lemma store_conn_views:
  "conn_view (snd (store_conn idv c ns)) k = newest (conn_view (snd ns) k) (items_for k (conn_item idv c))"
  "info_view (snd (store_conn idv c ns)) = info_view (snd ns)"
  "foreign_view (snd (store_conn idv c ns)) = foreign_view (snd ns)"
proof -
  show "conn_view (snd (store_conn idv c ns)) k = newest (conn_view (snd ns) k) (items_for k (conn_item idv c))"
    by (auto simp: store_conn_def conn_view_def conn_item_def map_of_update newer_def word_greater_zero_iff
        split: prod.splits option.splits)
qed (auto simp: store_conn_def info_view_def foreign_view_def fun_eq_iff split: prod.splits)

lemma update_conn_map_loop_views:
  assumes "update_conn_map_loop ver now cb l ns = Inr ns'"
  shows "conn_view (snd ns') k = newest (conn_view (snd ns) k) (items_for k (concat
      (map (\<lambda>(i, idv). case bitmap_connected_peers cb i of Inr c \<Rightarrow> conn_item idv c | Inl e \<Rightarrow> []) l)))"
    and "info_view (snd ns') = info_view (snd ns)" and "foreign_view (snd ns') = foreign_view (snd ns)"
proof -
  have "conn_view (snd ns') k = newest (conn_view (snd ns) k) (items_for k (concat
      (map (\<lambda>(i, idv). case bitmap_connected_peers cb i of Inr c \<Rightarrow> conn_item idv c | Inl e \<Rightarrow> []) l))) \<and>
      info_view (snd ns') = info_view (snd ns) \<and> foreign_view (snd ns') = foreign_view (snd ns)"
    using assms
  proof (induction l arbitrary: ns)
    case (Cons x l)
    then obtain i idv c where x: "x = (i, idv)" and c: "bitmap_connected_peers cb i = Inr c"
      and loop: "update_conn_map_loop ver now cb l
        (store_conn idv c (fst ns, fill_empty_peer_info ver now c (snd ns))) = Inr ns'"
      by (cases x) (auto simp: rbind_eq_Inr_iff)
    show ?case
      using Cons.IH [OF loop] by (simp add: x c store_conn_views newest_append)
  qed simp
  then show "conn_view (snd ns') k = newest (conn_view (snd ns) k) (items_for k (concat
      (map (\<lambda>(i, idv). case bitmap_connected_peers cb i of Inr c \<Rightarrow> conn_item idv c | Inl e \<Rightarrow> []) l)))"
    and "info_view (snd ns') = info_view (snd ns)" and "foreign_view (snd ns') = foreign_view (snd ns)"
    by blast+
qed

lemma list_items_Cons: "list_items (pc # pcs) = list_items [pc] @ list_items pcs"
  by (simp add: list_items_def)

lemma store_one_peer_conn_views:
  "conn_view (snd (store_peer_conn ver now pc ns)) k = newest (conn_view (snd ns) k) (items_for k (list_items [pc]))"
  "info_view (snd (store_peer_conn ver now pc ns)) = info_view (snd ns)"
  "foreign_view (snd (store_peer_conn ver now pc ns)) = foreign_view (snd ns)"
  by (simp_all add: store_peer_conn_def list_items_def store_conn_views Let_def split: option.split)

lemma store_peer_conn_views:
  "conn_view (snd (fold (store_peer_conn ver now) pcs ns)) k = newest (conn_view (snd ns) k) (items_for k (list_items pcs)) \<and>
   info_view (snd (fold (store_peer_conn ver now) pcs ns)) = info_view (snd ns) \<and>
   foreign_view (snd (fold (store_peer_conn ver now) pcs ns)) = foreign_view (snd ns)"
proof (induction pcs arbitrary: ns)
  case Nil
  then show ?case
    by (simp add: list_items_def)
next
  case (Cons pc pcs)
  then show ?case
    by (simp add: list_items_Cons [of pc pcs] store_one_peer_conn_views newest_append)
qed

lemma update_conn_info_views:
  assumes "update_conn_info ver now ci s = Inr s'"
  shows "conn_view s' k = newest (conn_view s k) (items_for k (conn_items ci))"
    and "info_view s' = info_view s" and "foreign_view s' = foreign_view s"
proof -
  have "conn_view s' k = newest (conn_view s k) (items_for k (conn_items ci)) \<and>
      info_view s' = info_view s \<and> foreign_view s' = foreign_view s"
  proof (cases ci)
    case (ConnBitmap cb)
    then obtain need s1 where "update_conn_map_loop ver now cb (enumerate 0 (bm_peer_ids cb))
        (False, fill_empty_peer_info ver now (set (map idv_peer_id (bm_peer_ids cb))) s) = Inr (need, s1)"
        and "s' = inc_if need s1"
      using assms by (auto simp: update_conn_info_def update_conn_map_def rbind_eq_Inr_iff)
    then show ?thesis
      using update_conn_map_loop_views [of ver now cb _ _ "(need, s1)"] ConnBitmap
      by (simp add: conn_items_def bitmap_items_def)
  next
    case (ConnPeerList pcs)
    then show ?thesis
      using assms store_peer_conn_views [of ver now pcs "(False, s)" k]
      by (auto simp: update_conn_info_def update_conn_peer_list_def conn_items_def case_prod_beta)
  qed
  then show "conn_view s' k = newest (conn_view s k) (items_for k (conn_items ci))"
    and "info_view s' = info_view s" and "foreign_view s' = foreign_view s"
    by blast+
qed

lemma store_foreign_views:
  "foreign_view (store_foreign now item s) k = newest (foreign_view s k) (items_for k (foreign_items [item]))"
  "info_view (store_foreign now item s) = info_view s" "conn_view (store_foreign now item s) = conn_view s"
proof -
  show "foreign_view (store_foreign now item s) k = newest (foreign_view s k) (items_for k (foreign_items [item]))"
    by (auto simp: store_foreign_def foreign_view_def foreign_items_def foreign_value_def map_of_update newer_def
        map_filter_simps word_greater_zero_iff Let_def split: prod.splits option.splits)
qed (auto simp: store_foreign_def info_view_def conn_view_def fun_eq_iff Let_def split: prod.splits option.splits)

lemma foreign_items_Cons: "foreign_items (i # is) = foreign_items [i] @ foreign_items is"
  by (simp add: foreign_items_def map_filter_simps split: option.split)

lemma update_foreign_network_views:
  "foreign_view (update_foreign_network now is s) k = newest (foreign_view s k) (items_for k (foreign_items is)) \<and>
   info_view (update_foreign_network now is s) = info_view s \<and> conn_view (update_foreign_network now is s) = conn_view s"
  unfolding update_foreign_network_def
proof (induction "is" arbitrary: s)
  case Nil
  then show ?case
    by (simp add: foreign_items_def map_filter_simps)
next
  case (Cons i "is")
  then show ?case
    by (simp add: foreign_items_Cons [of i "is"] store_foreign_views newest_append)
qed

lemma group_trust_views [simp, view_frame]:
  "info_view (verify_and_update_group_trusts hmac is ds s) = info_view s"
  "conn_view (verify_and_update_group_trusts hmac is ds s) = conn_view s"
  "foreign_view (verify_and_update_group_trusts hmac is ds s) = foreign_view s"
proof -
  have one: "peer_infos (update_group_trust hmac d i s) = peer_infos s \<and> conn_map (update_group_trust hmac d i s) = conn_map s \<and>
      foreign_network (update_group_trust hmac d i s) = foreign_network s" for d i and s :: "'a SyncedRouteInfo"
    by (simp add: update_group_trust_def Let_def split: option.split)
  have "peer_infos (fold (update_group_trust hmac d) is s) = peer_infos s \<and>
      conn_map (fold (update_group_trust hmac d) is s) = conn_map s \<and>
      foreign_network (fold (update_group_trust hmac d) is s) = foreign_network s" for d
    by (induction "is" arbitrary: s) (simp_all add: one)
  then show "info_view (verify_and_update_group_trusts hmac is ds s) = info_view s"
    and "conn_view (verify_and_update_group_trusts hmac is ds s) = conn_view s"
    and "foreign_view (verify_and_update_group_trusts hmac is ds s) = foreign_view s"
    by (simp_all add: verify_and_update_group_trusts_def info_view_def conn_view_def foreign_view_def fun_eq_iff)
qed

section \<open>Local changes\<close>

lemma update_self_version:
  "version (update_self hmac now ctx my rid self) =
     (if my_info hmac ctx my rid self \<noteq> self \<or> need_update_periodically now (last_update self)
      then version self + 1 else version self)"
  "update_self hmac now ctx my rid self = self \<or>
     version (update_self hmac now ctx my rid self) = version self + 1 \<and> peer_id (update_self hmac now ctx my rid self) = my"
  by (auto simp: update_self_def my_info_def Let_def)

lemma my_info_not_default: "my_info hmac ctx my rid RoutePeerInfo_default \<noteq> RoutePeerInfo_default"
  by (simp add: my_info_def RoutePeerInfo_default_def)

lemma word_less_plus_1: "(v :: 'a::len word) \<noteq> - 1 \<Longrightarrow> v < v + 1"
proof -
  assume "v \<noteq> - 1"
  then have "1 + v \<noteq> 0"
    by (metis add_eq_0_iff minus_equation_iff)
  then have "unat (1 + v) = Suc (unat v)"
    by (rule unatSuc)
  then show ?thesis
    by (simp add: word_less_nat_alt add.commute)
qed

definition stored_info :: "PeerId \<Rightarrow> 'r SyncedRouteInfo \<Rightarrow> RoutePeerInfo" where
  "stored_info p s = (case map_of (peer_infos s) p of Some i \<Rightarrow> i | None \<Rightarrow> RoutePeerInfo_default)"

definition stored_conn :: "PeerId \<Rightarrow> 'r SyncedRouteInfo \<Rightarrow> PeerId set \<times> Version" where
  "stored_conn p s = (case map_of (conn_map s) p of Some e \<Rightarrow> e | None \<Rightarrow> ({}, 0))"

lemma sync_my_peer_info_views:
  assumes "sync_my_peer_info hmac now ctx my rid s = (u, s')" and "version (stored_info my s) \<noteq> - 1"
  shows "info_view s' k = newest (info_view s k) (items_for k (if u then info_items [stored_info my s'] else []))"
    and "conn_view s' = conn_view s" and "foreign_view s' = foreign_view s"
proof -
  let ?old = "stored_info my s"
  let ?new = "update_self hmac now ctx my rid ?old"
  have u: "u \<longleftrightarrow> version ?new \<noteq> version ?old"
    and infos: "map_of (peer_infos s') = (map_of (peer_infos s))(my \<mapsto> ?new)"
    and rest: "conn_map s' = conn_map s" "foreign_network s' = foreign_network s"
    using assms(1)
    by (auto simp: sync_my_peer_info_def stored_info_def update_my_group_trusts_def inc_version_def Let_def map_of_update
        split: if_splits)
  have less: "version ?old < version ?old + 1" and nz: "version ?old + 1 \<noteq> 0"
    using assms(2) word_less_plus_1 [of "version ?old"] by auto
  have same: "?new = ?old" if "\<not> u"
    using update_self_version(2) [of hmac now ctx my rid ?old] u that by auto
  have none: "u" if "map_of (peer_infos s) my = None"
    using u that update_self_version(1) [of hmac now ctx my rid ?old] my_info_not_default
    by (simp add: stored_info_def)
  show "info_view s' k = newest (info_view s k) (items_for k (if u then info_items [stored_info my s'] else []))"
  proof (cases u)
    case True
    then have v: "version ?new = version ?old + 1" "peer_id ?new = my"
      using update_self_version(2) [of hmac now ctx my rid ?old] u by auto
    show ?thesis
      using True v less nz unfolding info_view_def
      by (auto simp: infos stored_info_def info_items_def newer_def split: option.splits)
  next
    case False
    then have "map_of (peer_infos s') = map_of (peer_infos s)"
      using none same [OF False] infos by (auto simp: stored_info_def fun_eq_iff split: option.splits)
    then show ?thesis
      using False by (simp add: info_view_def)
  qed
  show "conn_view s' = conn_view s" and "foreign_view s' = foreign_view s"
    using rest by (simp_all add: conn_view_def foreign_view_def fun_eq_iff)
qed

lemma sync_my_conn_info_views:
  assumes "sync_my_conn_info ver now my c s = (u, s')" and "snd (stored_conn my s) \<noteq> - 1"
  shows "conn_view s' k = newest (conn_view s k) (items_for k (if u then [(my, stored_conn my s')] else []))"
    and "info_view s' = info_view s" and "foreign_view s' = foreign_view s"
proof -
  define s1 where "s1 = fill_empty_peer_info ver now c s"
  have views: "conn_view s1 = conn_view s" "info_view s1 = info_view s" "foreign_view s1 = foreign_view s"
    by (simp_all add: s1_def)
  obtain d v where dv: "stored_conn my s1 = (d, v)"
    by fastforce
  have res: "(u, s') = (if c = d then (False, s1\<lparr>conn_map := AList.update my (d, v) (conn_map s1)\<rparr>)
      else (True, inc_version (s1\<lparr>conn_map := AList.update my (c, v + 1) (conn_map s1)\<rparr>)))"
    using assms(1) dv by (simp add: sync_my_conn_info_def s1_def [symmetric] stored_conn_def Let_def)
  have "v = snd (stored_conn my s) \<or> v = 0"
  proof -
    have "conn_view s1 my = conn_view s my"
      by (simp add: views)
    then show ?thesis
      using dv by (cases "map_of (conn_map s) my"; cases "map_of (conn_map s1) my")
        (auto simp: conn_view_def stored_conn_def split: if_splits prod.splits)
  qed
  then have less: "v < v + 1" and nz: "v + 1 \<noteq> 0"
    using assms(2) word_less_plus_1 [of v] by auto
  have "conn_view s' k = newest (conn_view s1 k) (items_for k (if u then [(my, stored_conn my s')] else []))"
    using res dv less nz
    by (auto simp: conn_view_def stored_conn_def inc_version_def map_of_update newer_def split: if_splits option.splits)
  then show "conn_view s' k = newest (conn_view s k) (items_for k (if u then [(my, stored_conn my s')] else []))"
    by (simp add: views)
  show "info_view s' = info_view s" and "foreign_view s' = foreign_view s"
    using res views by (auto simp: info_view_def foreign_view_def inc_version_def fun_eq_iff split: if_splits)
qed

text \<open>The entries that an update of the node's own foreign networks wrote.\<close>

definition changed_entry ::
  "'r SyncedRouteInfo \<Rightarrow> 'r SyncedRouteInfo \<Rightarrow> ForeignNetworkRouteInfoKey \<Rightarrow> (ForeignNetworkRouteInfoEntry \<times> Version) option" where
  "changed_entry s s' k =
     (case map_of (foreign_network s') k of
        Some e \<Rightarrow> if map_of (foreign_network s) k = Some e \<or> fe_version e = 0 then None else Some (foreign_value e, fe_version e)
      | None \<Rightarrow> None)"

definition changed_foreign ::
  "'r SyncedRouteInfo \<Rightarrow> 'r SyncedRouteInfo \<Rightarrow> (ForeignNetworkRouteInfoKey \<times> ForeignNetworkRouteInfoEntry \<times> Version) list" where
  "changed_foreign s s' =
     List.map_filter (\<lambda>k. map_option (Pair k) (changed_entry s s' k)) (remdups (map fst (foreign_network s')))"

text \<open>The update gave every entry it replaced a greater version; it does unless the clock was set back.\<close>

definition versions_grow :: "'r SyncedRouteInfo \<Rightarrow> 'r SyncedRouteInfo \<Rightarrow> bool" where
  "versions_grow s s' \<longleftrightarrow>
     (\<forall>(k, e)\<in>set (foreign_network s). case map_of (foreign_network s') k of
        Some e' \<Rightarrow> e' = e \<or> fe_version e < fe_version e' | None \<Rightarrow> False)"

lemma items_for_map_filter:
  "distinct ks \<Longrightarrow> items_for k (List.map_filter (\<lambda>k. map_option (Pair k) (f k)) ks) =
     (if k \<in> set ks then (case f k of Some x \<Rightarrow> [x] | None \<Rightarrow> []) else [])"
  by (induction ks) (auto simp: map_filter_simps split: option.splits)

lemma changed_foreign_items:
  "items_for k (changed_foreign s s') = (case changed_entry s s' k of Some x \<Rightarrow> [x] | None \<Rightarrow> [])"
  unfolding changed_foreign_def
  by (subst items_for_map_filter)
    (auto simp: changed_entry_def image_iff split: option.splits, metis fst_conv map_of_SomeD)

lemma sync_my_foreign_network_views:
  assumes "sync_my_foreign_network now my fns s = Inr (u, s')" and "versions_grow s s'"
  shows "foreign_view s' k = newest (foreign_view s k) (items_for k (changed_foreign s s'))"
    and "info_view s' = info_view s" and "conn_view s' = conn_view s"
proof -
  show "info_view s' = info_view s" and "conn_view s' = conn_view s"
    using assms(1)
    by (auto simp: sync_my_foreign_network_def rbind_eq_Inr_iff Let_def info_view_def conn_view_def inc_if_def
        inc_version_def fun_eq_iff split: if_splits)
  show "foreign_view s' k = newest (foreign_view s k) (items_for k (changed_foreign s s'))"
  proof (cases "map_of (foreign_network s) k")
    case None
    then show ?thesis
      by (auto simp: changed_foreign_items changed_entry_def foreign_view_def newer_def split: option.split)
  next
    case (Some e)
    then obtain e' where "map_of (foreign_network s') k = Some e'" "e' = e \<or> fe_version e < fe_version e'"
      using assms(2) map_of_SomeD [OF Some] by (fastforce simp: versions_grow_def split: option.splits)
    then show ?thesis
      using Some by (auto simp: changed_foreign_items changed_entry_def foreign_view_def newer_def)
  qed
qed

section \<open>The life of a node\<close>

text \<open>
  One change of the tables, labelled with the peer infos, connections and foreign networks that
  were offered. A message whose processing stops at a duplicate peer id has stored the infos
  before it, which the first rule covers with a prefix of the message. The wrap-around of a
  node's own 32-bit versions and a clock that runs backwards are excluded; expiry is not a step.
\<close>

type_synonym sync_label =
  "(PeerId \<times> RoutePeerInfo \<times> Version) list \<times> (PeerId \<times> PeerId set \<times> Version) list \<times>
   (ForeignNetworkRouteInfoKey \<times> ForeignNetworkRouteInfoEntry \<times> Version) list"

inductive tables_step :: "'r SyncedRouteInfo \<Rightarrow> sync_label \<Rightarrow> 'r SyncedRouteInfo \<Rightarrow> bool" where
  step_infos: "update_infos_loop rp now my rid dst raws 0 infos (False, s) = Inr (Inr (), need, s1) \<Longrightarrow>
    tables_step s (info_items infos, [], []) (inc_if b s1)"
| step_groups: "tables_step s ([], [], []) (verify_and_update_group_trusts hmac infos ds s)"
| step_conn: "update_conn_info ver now ci s = Inr s' \<Longrightarrow> tables_step s ([], conn_items ci, []) s'"
| step_foreign: "tables_step s ([], [], foreign_items fs) (update_foreign_network now fs s)"
| step_my_info: "sync_my_peer_info hmac now ctx my rid s = (u, s') \<Longrightarrow> version (stored_info my s) \<noteq> - 1 \<Longrightarrow>
    tables_step s (if u then info_items [stored_info my s'] else [], [], []) s'"
| step_my_conn: "sync_my_conn_info ver now my c s = (u, s') \<Longrightarrow> snd (stored_conn my s) \<noteq> - 1 \<Longrightarrow>
    tables_step s ([], if u then [(my, stored_conn my s')] else [], []) s'"
| step_my_foreign: "sync_my_foreign_network now my fns s = Inr (u, s') \<Longrightarrow> versions_grow s s' \<Longrightarrow>
    tables_step s ([], [], changed_foreign s s') s'"

definition info_step :: "'r SyncedRouteInfo \<Rightarrow> (PeerId \<times> RoutePeerInfo \<times> Version) list \<Rightarrow> 'r SyncedRouteInfo \<Rightarrow> bool" where
  "info_step s is s' \<longleftrightarrow> (\<exists>cs fs. tables_step s (is, cs, fs) s')"

definition conn_step :: "'r SyncedRouteInfo \<Rightarrow> (PeerId \<times> PeerId set \<times> Version) list \<Rightarrow> 'r SyncedRouteInfo \<Rightarrow> bool" where
  "conn_step s cs s' \<longleftrightarrow> (\<exists>is fs. tables_step s (is, cs, fs) s')"

definition foreign_step ::
  "'r SyncedRouteInfo \<Rightarrow> (ForeignNetworkRouteInfoKey \<times> ForeignNetworkRouteInfoEntry \<times> Version) list \<Rightarrow>
     'r SyncedRouteInfo \<Rightarrow> bool" where
  "foreign_step s fs s' \<longleftrightarrow> (\<exists>is cs. tables_step s (is, cs, fs) s')"

lemma tables_step_views:
  assumes "tables_step s l s'"
  shows "info_view s' k = newest (info_view s k) (items_for k (fst l)) \<and>
    conn_view s' k = newest (conn_view s k) (items_for k (fst (snd l))) \<and>
    foreign_view s' kf = newest (foreign_view s kf) (items_for kf (snd (snd l)))"
  using assms
proof (cases rule: tables_step.cases)
  case (step_infos rp now my rid dst raws infos need s1 b)
  then show ?thesis
    using update_infos_loop_views [OF step_infos(3)] by simp
next
  case (step_conn ver now ci)
  then show ?thesis
    using update_conn_info_views [OF step_conn(2)] by simp
next
  case (step_foreign fs now)
  then show ?thesis
    using update_foreign_network_views [of now fs s] by simp
next
  case (step_my_info hmac now ctx my rid u)
  then show ?thesis
    using sync_my_peer_info_views [OF step_my_info(2,3)] by simp
next
  case (step_my_conn ver now my c u)
  then show ?thesis
    using sync_my_conn_info_views [OF step_my_conn(2,3)] by simp
next
  case (step_my_foreign now my fns u)
  then show ?thesis
    using sync_my_foreign_network_views [OF step_my_foreign(2,3)] by simp
qed simp

interpretation info_store: versioned_store info_view info_step
proof
  fix s s' :: "'r SyncedRouteInfo" and xs k
  assume "info_step s xs s'"
  then show "info_view s' k = newest (info_view s k) (items_for k xs)"
    using tables_step_views by (fastforce simp: info_step_def)
qed

interpretation conn_store: versioned_store conn_view conn_step
proof
  fix s s' :: "'r SyncedRouteInfo" and xs k
  assume "conn_step s xs s'"
  then show "conn_view s' k = newest (conn_view s k) (items_for k xs)"
    using tables_step_views by (fastforce simp: conn_step_def)
qed

interpretation foreign_store: versioned_store foreign_view foreign_step
proof
  fix s s' :: "'r SyncedRouteInfo" and xs k
  assume "foreign_step s xs s'"
  then show "foreign_view s' k = newest (foreign_view s k) (items_for k xs)"
    using tables_step_views by (fastforce simp: foreign_step_def)
qed

inductive tables_run :: "'r SyncedRouteInfo \<Rightarrow> sync_label list \<Rightarrow> 'r SyncedRouteInfo \<Rightarrow> bool" where
  tables_none: "tables_run s [] s"
| tables_more: "tables_run s ls s' \<Longrightarrow> tables_step s' l s'' \<Longrightarrow> tables_run s (ls @ [l]) s''"

definition offered_infos :: "sync_label list \<Rightarrow> (PeerId \<times> RoutePeerInfo \<times> Version) list" where
  "offered_infos ls = concat (map fst ls)"

definition offered_conns :: "sync_label list \<Rightarrow> (PeerId \<times> PeerId set \<times> Version) list" where
  "offered_conns ls = concat (map (\<lambda>l. fst (snd l)) ls)"

definition offered_foreign :: "sync_label list \<Rightarrow> (ForeignNetworkRouteInfoKey \<times> ForeignNetworkRouteInfoEntry \<times> Version) list" where
  "offered_foreign ls = concat (map (\<lambda>l. snd (snd l)) ls)"

lemma tables_run_stores:
  assumes "tables_run s ls s'"
  shows "store_run info_step s (offered_infos ls) s'" and "store_run conn_step s (offered_conns ls) s'"
    and "store_run foreign_step s (offered_foreign ls) s'"
proof -
  have "store_run info_step s (offered_infos ls) s' \<and> store_run conn_step s (offered_conns ls) s' \<and>
      store_run foreign_step s (offered_foreign ls) s'"
    using assms
  proof (induction rule: tables_run.induct)
    case (tables_none s)
    then show ?case
      by (simp add: offered_infos_def offered_conns_def offered_foreign_def store_run.run_none)
  next
    case (tables_more s ls s' l s'')
    moreover have "info_step s' (fst l) s''" "conn_step s' (fst (snd l)) s''" "foreign_step s' (snd (snd l)) s''"
      using tables_more.hyps(2) unfolding info_step_def conn_step_def foreign_step_def by (metis prod.collapse)+
    ultimately show ?case
      by (auto simp: offered_infos_def offered_conns_def offered_foreign_def intro: run_step)
  qed
  then show "store_run info_step s (offered_infos ls) s'" and "store_run conn_step s (offered_conns ls) s'"
    and "store_run foreign_step s (offered_foreign ls) s'"
    by blast+
qed

text \<open>A version of a key names one value: its owner increments the version with every change.\<close>

definition version_names_value :: "('k \<times> 'v \<times> 'w) list \<Rightarrow> bool" where
  "version_names_value xs \<longleftrightarrow>
     (\<forall>(k, v, n)\<in>set xs. \<forall>(k', v', n')\<in>set xs. k = k' \<longrightarrow> n = n' \<longrightarrow> v = v')"

lemma version_names_valueD:
  assumes "version_names_value xs" and "(k, v, n) \<in> set xs" and "(k, v', n) \<in> set xs"
  shows "v = v'"
  using bspec [OF bspec [OF assms(1) [unfolded version_names_value_def] assms(2), simplified] assms(3)] by simp

lemma version_names_items:
  assumes "version_names_value xs"
  shows "\<forall>x\<in>set (items_for k xs). \<forall>y\<in>set (items_for k xs). snd x = snd y \<longrightarrow> x = y"
proof (intro ballI impI)
  fix x y
  assume "x \<in> set (items_for k xs)" "y \<in> set (items_for k xs)" "snd x = snd y"
  then show "x = y"
    using version_names_valueD [OF assms] unfolding in_items_for by (metis prod.collapse)
qed

lemma items_for_set_eq: "set xs = set ys \<Longrightarrow> set (items_for k xs) = set (items_for k ys)"
  by (auto simp: in_items_for)

text \<open>
  C4: Nodes that heard the same agree. Two nodes that start with empty tables and were offered the
  same peer infos, connections and foreign networks, by whatever messages, from whatever
  neighbours, in whatever order and however often, interleaved with changes of their own, hold the
  same entries in all three tables, arrival times and placeholders aside.
\<close>

theorem sync_converges:
  fixes s t :: "'r SyncedRouteInfo"
  assumes "tables_run SyncedRouteInfo_empty ls s" and "tables_run SyncedRouteInfo_empty ms t"
    and "set (offered_infos ls) = set (offered_infos ms)" and "set (offered_conns ls) = set (offered_conns ms)"
    and "set (offered_foreign ls) = set (offered_foreign ms)"
    and "version_names_value (offered_infos ls)" and "version_names_value (offered_conns ls)"
    and "version_names_value (offered_foreign ls)"
  shows "info_view s = info_view t \<and> conn_view s = conn_view t \<and> foreign_view s = foreign_view t"
proof -
  note runs = tables_run_stores [OF assms(1)] tables_run_stores [OF assms(2)]
  have "info_view s k = info_view t k" for k
    by (rule info_store.converges [OF runs(1,4) _ _ items_for_set_eq [OF assms(3)] version_names_items [OF assms(6)]])
      (simp_all add: info_view_def SyncedRouteInfo_empty_def)
  moreover have "conn_view s k = conn_view t k" for k
    by (rule conn_store.converges [OF runs(2,5) _ _ items_for_set_eq [OF assms(4)] version_names_items [OF assms(7)]])
      (simp_all add: conn_view_def SyncedRouteInfo_empty_def)
  moreover have "foreign_view s k = foreign_view t k" for k
    by (rule foreign_store.converges [OF runs(3,6) _ _ items_for_set_eq [OF assms(5)] version_names_items [OF assms(8)]])
      (simp_all add: foreign_view_def SyncedRouteInfo_empty_def)
  ultimately show ?thesis
    by (simp add: fun_eq_iff)
qed


section \<open>Two nodes that hear of a third\<close>

definition sample_info :: "Version \<Rightarrow> RoutePeerInfo" where
  "sample_info v = RoutePeerInfo_default\<lparr>peer_id := 7, version := v\<rparr>"

lemma hears_sample_info:
  fixes s :: "u32 SyncedRouteInfo"
  assumes "v \<noteq> 0"
  shows "\<exists>s'. tables_step s ([(7, info_value (sample_info v), v)], [], []) s'"
proof -
  obtain need s1 where "store_info (sample_info v\<lparr>last_update := Some 0\<rparr>) 7 (False, s) = (need, s1)"
    by (cases "store_info (sample_info v\<lparr>last_update := Some 0\<rparr>) 7 (False, s)")
  then have "update_infos_loop id 0 1 0 9 [7] 0 [sample_info v] (False, s) = Inr (Inr (), need, s1)"
    by (simp add: sample_info_def check_duplicate_peer_id_def rassert_def)
  from step_infos [OF this] show ?thesis
    using assms by (auto simp: info_items_def sample_info_def)
qed

lemma hears_sample_infos:
  assumes "v \<noteq> 0" and "w \<noteq> 0"
  shows "\<exists>s. tables_run (SyncedRouteInfo_empty :: u32 SyncedRouteInfo)
    [([(7, info_value (sample_info v), v)], [], []), ([(7, info_value (sample_info w), w)], [], [])] s"
proof -
  obtain s1 where 1: "tables_step (SyncedRouteInfo_empty :: u32 SyncedRouteInfo) ([(7, info_value (sample_info v), v)], [], []) s1"
    using hears_sample_info [OF assms(1)] by blast
  obtain s2 where 2: "tables_step s1 ([(7, info_value (sample_info w), w)], [], []) s2"
    using hears_sample_info [OF assms(2)] by blast
  show ?thesis
    using tables_more [OF tables_more [OF tables_none 1] 2] by auto
qed

theorem sync_converges_witness:
  "\<exists>s t. tables_run (SyncedRouteInfo_empty :: u32 SyncedRouteInfo)
      [([(7, info_value (sample_info 1), 1)], [], []), ([(7, info_value (sample_info 2), 2)], [], [])] s \<and>
    tables_run (SyncedRouteInfo_empty :: u32 SyncedRouteInfo)
      [([(7, info_value (sample_info 2), 2)], [], []), ([(7, info_value (sample_info 1), 1)], [], [])] t \<and>
    info_view s = info_view t"
proof -
  let ?a = "([(7, info_value (sample_info 1), 1)], [], []) :: sync_label"
  let ?b = "([(7, info_value (sample_info 2), 2)], [], []) :: sync_label"
  obtain s t where runs: "tables_run (SyncedRouteInfo_empty :: u32 SyncedRouteInfo) [?a, ?b] s"
      "tables_run (SyncedRouteInfo_empty :: u32 SyncedRouteInfo) [?b, ?a] t"
    using hears_sample_infos [of 1 2] hears_sample_infos [of 2 1] by auto
  moreover have "info_view s = info_view t"
    using sync_converges [OF runs]
    by (auto simp: offered_infos_def offered_conns_def offered_foreign_def version_names_value_def)
  ultimately show ?thesis
    by blast
qed


end
