(* ===== verification/Ospf_Rounds.thy ===== *)
theory Ospf_Rounds
  imports Ospf_Service Ospf_Convergence
begin

text \<open>
  Rounds of route synchronisation between neighbours, over the operations of \<open>Ospf_Service\<close>. A
  session is seen as three functions from keys to versions; looking a version up changes nothing
  but the time of the last look. A round sends exactly what these functions say the neighbour
  lacks and raises them by what was sent.
\<close>

section \<open>A session as version vectors\<close>

definition saved :: "'k saved_versions \<Rightarrow> 'k \<Rightarrow> Version" where
  "saved m k = (case map_of m k of Some v \<Rightarrow> vt_version v | None \<Rightarrow> 0)"

lemma saved_Nil [simp]: "saved [] k = 0"
  by (simp add: saved_def)

lemma saved_check [simp]: "saved (snd (check_saved now k ver m)) = saved m"
  by (auto simp: saved_def check_saved_def update_conv' fun_eq_iff split: option.split)

lemma check_saved_iff: "ver \<noteq> 0 \<Longrightarrow> fst (check_saved now k ver m) \<longleftrightarrow> ver \<le> saved m k"
  by (simp add: saved_def check_saved_def word_le_0_iff split: option.split)

lemma saved_save: "saved (save_version now k ver m) = (saved m)(k := max ver (saved m k))"
  by (auto simp: saved_def save_version_def Let_def update_conv' set_if_larger_def VersionAndTouchTime_default_def
      max_def fun_eq_iff split: option.split)

text \<open>Sessions that differ in the times of the last look only.\<close>

definition touched :: "SyncRouteSession \<Rightarrow> SyncRouteSession \<Rightarrow> bool" where
  "touched ss ss' \<longleftrightarrow>
     saved (dst_saved_peer_info_versions ss') = saved (dst_saved_peer_info_versions ss) \<and>
     saved (dst_saved_conn_info_version ss') = saved (dst_saved_conn_info_version ss) \<and>
     saved (dst_saved_foreign_network_versions ss') = saved (dst_saved_foreign_network_versions ss) \<and>
     dst_peer_id ss' = dst_peer_id ss \<and> my_session_id ss' = my_session_id ss \<and> dst_session_id ss' = dst_session_id ss \<and>
     we_are_initiator ss' = we_are_initiator ss \<and> dst_is_initiator ss' = dst_is_initiator ss \<and>
     need_sync_initiator_info ss' = need_sync_initiator_info ss \<and> task_is_running ss' = task_is_running ss"

lemma touched_refl [simp]: "touched ss ss"
  by (simp add: touched_def)

lemma touched_trans [trans]: "touched a b \<Longrightarrow> touched b c \<Longrightarrow> touched a c"
  by (simp add: touched_def)

definition needs_info :: "SyncRouteSession \<Rightarrow> PeerId \<Rightarrow> Version \<Rightarrow> bool" where
  "needs_info ss p ver \<longleftrightarrow> \<not> (ver = 0 \<or> p = dst_peer_id ss \<or> ver \<le> saved (dst_saved_peer_info_versions ss) p)"

definition needs_conn :: "SyncRouteSession \<Rightarrow> PeerIdVersion \<Rightarrow> bool" where
  "needs_conn ss idv \<longleftrightarrow>
     \<not> (idv_version idv = 0 \<or> idv_peer_id idv = dst_peer_id ss \<or>
        idv_version idv \<le> saved (dst_saved_conn_info_version ss) (idv_peer_id idv))"

definition needs_foreign :: "SyncRouteSession \<Rightarrow> ForeignNetworkRouteInfoKey \<Rightarrow> Version \<Rightarrow> bool" where
  "needs_foreign ss k ver \<longleftrightarrow>
     \<not> (ver = 0 \<or> fk_peer_id k = dst_peer_id ss \<or> ver \<le> saved (dst_saved_foreign_network_versions ss) k)"

lemma touched_needs:
  "touched ss ss' \<Longrightarrow> needs_info ss' = needs_info ss" "touched ss ss' \<Longrightarrow> needs_conn ss' = needs_conn ss"
  "touched ss ss' \<Longrightarrow> needs_foreign ss' = needs_foreign ss"
  by (simp_all add: touched_def needs_info_def needs_conn_def needs_foreign_def fun_eq_iff)

lemma check_info:
  "\<exists>ss'. check_saved_peer_info_update_to_date now p ver ss = (\<not> needs_info ss p ver, ss') \<and> touched ss ss'"
  using check_saved_iff [of ver now p "dst_saved_peer_info_versions ss"]
    saved_check [of now p ver "dst_saved_peer_info_versions ss"]
  by (auto simp: check_saved_peer_info_update_to_date_def needs_info_def touched_def split_beta Let_def)

lemma check_conn:
  "\<exists>ss'. check_saved_conn_version_update_to_date now (idv_peer_id idv) (idv_version idv) ss = (\<not> needs_conn ss idv, ss') \<and>
     touched ss ss'"
  using check_saved_iff [of "idv_version idv" now "idv_peer_id idv" "dst_saved_conn_info_version ss"]
    saved_check [of now "idv_peer_id idv" "idv_version idv" "dst_saved_conn_info_version ss"]
  by (auto simp: check_saved_conn_version_update_to_date_def needs_conn_def touched_def split_beta Let_def)

lemma check_foreign:
  "\<exists>ss'. check_saved_foreign_network_version_update_to_date now k ver ss = (\<not> needs_foreign ss k ver, ss') \<and> touched ss ss'"
  using check_saved_iff [of ver now k "dst_saved_foreign_network_versions ss"]
    saved_check [of now k ver "dst_saved_foreign_network_versions ss"]
  by (auto simp: check_saved_foreign_network_version_update_to_date_def needs_foreign_def touched_def split_beta Let_def)

section \<open>What is sent\<close>

lemma route_infos_loop_eq:
  "\<exists>ss'. touched ss ss' \<and> route_infos_loop now rt xs ss =
     (map snd (filter (\<lambda>(p, i). peer_reachable rt p \<and> needs_info ss (peer_id i) (version i)) xs), ss')"
proof (induction xs arbitrary: ss)
  case (Cons x xs)
  obtain p i where x: "x = (p, i)"
    by (cases x)
  obtain ss1 where ss1: "check_saved_peer_info_update_to_date now (peer_id i) (version i) ss =
      (\<not> needs_info ss (peer_id i) (version i), ss1)" "touched ss ss1"
    using check_info by blast
  show ?case
  proof (cases "peer_reachable rt p")
    case True
    obtain ss2 where "touched ss1 ss2" "route_infos_loop now rt xs ss1 =
        (map snd (filter (\<lambda>(p, i). peer_reachable rt p \<and> needs_info ss1 (peer_id i) (version i)) xs), ss2)"
      using Cons.IH by blast
    then show ?thesis
      using ss1 touched_trans [OF ss1(2)] by (auto simp: x True touched_needs [OF ss1(2)])
  next
    case False
    then show ?thesis
      using Cons.IH [of ss] by (simp add: x)
  qed
qed simp

lemma conn_bitmap_loop_eq:
  "\<exists>ss'. touched ss ss' \<and> conn_bitmap_loop now idvs ss = ((\<exists>idv\<in>set idvs. needs_conn ss idv), ss')"
proof (induction idvs arbitrary: ss)
  case (Cons idv idvs)
  obtain ss1 where ss1: "check_saved_conn_version_update_to_date now (idv_peer_id idv) (idv_version idv) ss =
      (\<not> needs_conn ss idv, ss1)" "touched ss ss1"
    using check_conn by blast
  obtain ss2 where "touched ss1 ss2" "conn_bitmap_loop now idvs ss1 = ((\<exists>idv\<in>set idvs. needs_conn ss1 idv), ss2)"
    using Cons.IH by blast
  then show ?case
    using ss1 touched_trans [OF ss1(2)] by (auto simp: touched_needs [OF ss1(2)])
qed simp

text \<open>The entries of the connection list: the cached ids the neighbour lacks that have connections.\<close>

definition list_entry :: "'r SyncedRouteInfo \<Rightarrow> PeerIdVersion \<Rightarrow> PeerConnInfo" where
  "list_entry s idv = \<lparr>conn_peer_id = Some idv,
     connected_peer_ids = (case map_of (conn_map s) (idv_peer_id idv) of Some (c, v) \<Rightarrow> sorted_list_of_set c | None \<Rightarrow> [])\<rparr>"

lemma conn_peer_list_loop_eq:
  "\<exists>ss' size. touched ss ss' \<and> conn_peer_list_loop now s idvs ss =
     (map (list_entry s) (filter (\<lambda>idv. needs_conn ss idv \<and> map_of (conn_map s) (idv_peer_id idv) \<noteq> None) idvs), size, ss')"
proof (induction idvs arbitrary: ss)
  case (Cons idv idvs)
  obtain ss1 where ss1: "check_saved_conn_version_update_to_date now (idv_peer_id idv) (idv_version idv) ss =
      (\<not> needs_conn ss idv, ss1)" "touched ss ss1"
    using check_conn by blast
  obtain ss2 size where "touched ss1 ss2" "conn_peer_list_loop now s idvs ss1 =
      (map (list_entry s) (filter (\<lambda>idv. needs_conn ss1 idv \<and> map_of (conn_map s) (idv_peer_id idv) \<noteq> None) idvs), size, ss2)"
    using Cons.IH by blast
  then show ?case
    using ss1 touched_trans [OF ss1(2)] by (auto simp: touched_needs [OF ss1(2)] list_entry_def split: option.split)
qed simp

lemma foreign_loop_eq:
  "\<exists>ss'. touched ss ss' \<and> foreign_loop now xs ss =
     (map (\<lambda>(k, e). (Some k, Some e)) (filter (\<lambda>(k, e). needs_foreign ss k (fe_version e)) xs), ss')"
proof (induction xs arbitrary: ss)
  case (Cons x xs)
  obtain k e where x: "x = (k, e)"
    by (cases x)
  obtain ss1 where ss1: "check_saved_foreign_network_version_update_to_date now k (fe_version e) ss =
      (\<not> needs_foreign ss k (fe_version e), ss1)" "touched ss ss1"
    using check_foreign by blast
  obtain ss2 where "touched ss1 ss2" "foreign_loop now xs ss1 =
      (map (\<lambda>(k, e). (Some k, Some e)) (filter (\<lambda>(k, e). needs_foreign ss1 k (fe_version e)) xs), ss2)"
    using Cons.IH by blast
  then show ?case
    using ss1 touched_trans [OF ss1(2)] by (auto simp: x touched_needs [OF ss1(2)])
qed simp

lemma build_route_info_eq:
  "\<exists>ss'. touched ss ss' \<and> build_route_info now s ss =
     (none_if_empty (map snd (filter (\<lambda>(p, i). peer_reachable (route_table s) p \<and> needs_info ss (peer_id i) (version i))
        (peer_infos (synced_route_info s)))), ss')"
  using route_infos_loop_eq [of ss now "route_table s" "peer_infos (synced_route_info s)"]
  by (auto simp: build_route_info_def)

lemma build_foreign_eq:
  "\<exists>ss'. touched ss ss' \<and> build_foreign_network_info now s ss =
     (none_if_empty (map (\<lambda>(k, e). (Some k, Some e)) (filter (\<lambda>(k, e). needs_foreign ss k (fe_version e))
        (foreign_network (synced_route_info s)))), ss')"
  using foreign_loop_eq [of ss now "foreign_network (synced_route_info s)"]
  by (auto simp: build_foreign_network_info_def)

text \<open>The ids a connection message carries, and the cached ids the neighbour lacks.\<close>

definition conn_ids :: "ConnInfo \<Rightarrow> PeerIdVersion set" where
  "conn_ids ci = (case ci of ConnBitmap cb \<Rightarrow> set (bm_peer_ids cb) | ConnPeerList pcs \<Rightarrow> {idv. \<exists>pc\<in>set pcs. conn_peer_id pc = Some idv})"

definition cached_ids :: "'r PeerRouteServiceImpl \<Rightarrow> PeerIdVersion list" where
  "cached_ids s = bm_peer_ids (cached_local_conn_map s)"

definition lacking_conns :: "'r PeerRouteServiceImpl \<Rightarrow> SyncRouteSession \<Rightarrow> PeerIdVersion list" where
  "lacking_conns s ss =
     filter (\<lambda>idv. needs_conn ss idv \<and> map_of (conn_map (synced_route_info s)) (idv_peer_id idv) \<noteq> None) (cached_ids s)"

lemma conn_ids_list: "conn_ids (ConnPeerList (map (list_entry t) idvs)) = set idvs"
  by (auto simp: conn_ids_def list_entry_def)

lemma build_conn_bitmap_eq:
  "\<exists>ss'. touched ss ss' \<and> build_conn_bitmap now s ss =
     (if \<exists>idv\<in>set (cached_ids s). needs_conn ss idv then Some (cached_local_conn_map s) else None, ss')"
  using conn_bitmap_loop_eq [of ss now "cached_ids s"] by (auto simp: build_conn_bitmap_def cached_ids_def)

lemma build_conn_peer_list_eq:
  "\<exists>ss' size. touched ss ss' \<and> build_conn_peer_list now s ss =
     (none_if_empty (map (list_entry (synced_route_info s)) (lacking_conns s ss)), size, ss')"
  using conn_peer_list_loop_eq [of ss now "synced_route_info s" "cached_ids s"]
  by (auto simp: build_conn_peer_list_def lacking_conns_def cached_ids_def)

text \<open>Whether connections go as a bitmap only.\<close>

definition bitmap_only :: "bool \<Rightarrow> PeerId \<Rightarrow> 'r PeerRouteServiceImpl \<Rightarrow> bool" where
  "bitmap_only force_list dst s \<longleftrightarrow> \<not> force_list \<and>
     \<not> (case Option.bind (map_of (peer_infos (synced_route_info s)) dst) feature_flag of
          Some f \<Rightarrow> support_conn_list_sync f | None \<Rightarrow> False)"

lemma build_conn_info_cases:
  "\<exists>ci ss'. build_conn_info force_list now dst s ss = (ci, ss') \<and> touched ss ss' \<and>
     (if bitmap_only force_list dst s
      then ci = (if \<exists>idv\<in>set (cached_ids s). needs_conn ss idv then Some (ConnBitmap (cached_local_conn_map s)) else None)
      else if lacking_conns s ss = [] then ci = None
      else ci = Some (ConnBitmap (cached_local_conn_map s)) \<or>
           ci = Some (ConnPeerList (map (list_entry (synced_route_info s)) (lacking_conns s ss))))"
proof -
  obtain ss1 where ss1: "touched ss ss1" "build_conn_bitmap now s ss =
      (if \<exists>idv\<in>set (cached_ids s). needs_conn ss idv then Some (cached_local_conn_map s) else None, ss1)"
    using build_conn_bitmap_eq by blast
  obtain ss2 size where ss2: "touched ss ss2" "build_conn_peer_list now s ss =
      (none_if_empty (map (list_entry (synced_route_info s)) (lacking_conns s ss)), size, ss2)"
    using build_conn_peer_list_eq by blast
  obtain ss3 where ss3: "touched ss2 ss3" "build_conn_bitmap now s ss2 =
      (if \<exists>idv\<in>set (cached_ids s). needs_conn ss2 idv then Some (cached_local_conn_map s) else None, ss3)"
    using build_conn_bitmap_eq by blast
  have lack: "\<exists>idv\<in>set (cached_ids s). needs_conn ss2 idv" if "lacking_conns s ss \<noteq> []"
    using that unfolding touched_needs(2) [OF ss2(1)] by (auto simp: lacking_conns_def filter_empty_conv)
  show ?thesis
  proof (cases "bitmap_only force_list dst s")
    case True
    then have "build_conn_info force_list now dst s ss =
        (map_option ConnBitmap (if \<exists>idv\<in>set (cached_ids s). needs_conn ss idv then Some (cached_local_conn_map s) else None), ss1)"
      using ss1(2) by (simp add: build_conn_info_def bitmap_only_def Let_def)
    then show ?thesis
      using True ss1(1) by simp
  next
    case False
    then have "build_conn_info force_list now dst s ss =
        (if size < estimate_conn_bitmap_size s \<or> force_list \<or> lacking_conns s ss = []
         then (map_option ConnPeerList (none_if_empty (map (list_entry (synced_route_info s)) (lacking_conns s ss))), ss2)
         else (Some (ConnBitmap (cached_local_conn_map s)), ss3))"
      using ss2(2) ss3(2) lack by (auto simp: build_conn_info_def bitmap_only_def none_if_empty_def)
    then show ?thesis
      using False ss2(1) touched_trans [OF ss2(1) ss3(1)] by (auto simp: none_if_empty_def)
  qed
qed

definition lacking_infos :: "'r PeerRouteServiceImpl \<Rightarrow> SyncRouteSession \<Rightarrow> RoutePeerInfo list" where
  "lacking_infos s ss =
     map snd (filter (\<lambda>(p, i). peer_reachable (route_table s) p \<and> needs_info ss (peer_id i) (version i))
       (peer_infos (synced_route_info s)))"

definition lacking_foreign :: "'r PeerRouteServiceImpl \<Rightarrow> SyncRouteSession \<Rightarrow> RouteForeignNetworkInfos" where
  "lacking_foreign s ss =
     map (\<lambda>(k, e). (Some k, Some e)) (filter (\<lambda>(k, e). needs_foreign ss k (fe_version e)) (foreign_network (synced_route_info s)))"

definition conn_part :: "bool \<Rightarrow> PeerId \<Rightarrow> 'r PeerRouteServiceImpl \<Rightarrow> SyncRouteSession \<Rightarrow> ConnInfo option \<Rightarrow> bool" where
  "conn_part force_list dst s ss ci \<longleftrightarrow>
     (if bitmap_only force_list dst s
      then ci = (if \<exists>idv\<in>set (cached_ids s). needs_conn ss idv then Some (ConnBitmap (cached_local_conn_map s)) else None)
      else if lacking_conns s ss = [] then ci = None
      else ci = Some (ConnBitmap (cached_local_conn_map s)) \<or>
           ci = Some (ConnPeerList (map (list_entry (synced_route_info s)) (lacking_conns s ss))))"

lemma touched_lacking:
  assumes "touched ss ss'"
  shows "lacking_infos s ss' = lacking_infos s ss" "lacking_foreign s ss' = lacking_foreign s ss"
    "conn_part f dst s ss' = conn_part f dst s ss"
  unfolding lacking_infos_def lacking_foreign_def conn_part_def [abs_def] lacking_conns_def touched_needs [OF assms]
  by (rule refl)+

lemma build_sync_request_eq:
  "\<exists>ci ss'. build_sync_request f now dst s ss =
      ((none_if_empty (lacking_infos s ss), ci, none_if_empty (lacking_foreign s ss)), ss') \<and>
     touched ss ss' \<and> conn_part f dst s ss ci"
proof -
  obtain ss1 where 1: "touched ss ss1" "build_route_info now s ss = (none_if_empty (lacking_infos s ss), ss1)"
    using build_route_info_eq [of ss now s] by (auto simp: lacking_infos_def)
  obtain ci ss2 where 2: "build_conn_info f now dst s ss1 = (ci, ss2)" "touched ss1 ss2" "conn_part f dst s ss1 ci"
    using build_conn_info_cases [of f now dst s ss1] by (auto simp: conn_part_def)
  obtain ss3 where 3: "touched ss2 ss3" "build_foreign_network_info now s ss2 = (none_if_empty (lacking_foreign s ss2), ss3)"
    using build_foreign_eq [of ss2 now s] by (auto simp: lacking_foreign_def)
  have "touched ss ss2" "touched ss ss3"
    using touched_trans [OF 1(1) 2(2)] touched_trans [OF touched_trans [OF 1(1) 2(2)] 3(1)] by blast+
  then show ?thesis
    using 1 2 3(2) by (simp add: build_sync_request_def touched_lacking)
qed

lemma none_if_empty_None [simp]: "none_if_empty xs = None \<longleftrightarrow> xs = []"
  by (simp add: none_if_empty_def)

lemma get_put_session [simp]: "get_session d (put_session d' ss s) = (if d = d' then Some ss else get_session d s)"
  by (simp add: get_session_def put_session_def update_conv')

lemma put_session_frame [simp]:
  "synced_route_info (put_session d ss s) = synced_route_info s" "route_table (put_session d ss s) = route_table s"
  "cached_local_conn_map (put_session d ss s) = cached_local_conn_map s" "svc_my_peer_id (put_session d ss s) = svc_my_peer_id s"
  by (simp_all add: put_session_def)

lemma put_session_parts [simp]:
  "cached_ids (put_session d ss' s) = cached_ids s" "lacking_conns (put_session d ss' s) ss = lacking_conns s ss"
  "bitmap_only f dst (put_session d ss' s) = bitmap_only f dst s"
  by (simp_all add: cached_ids_def lacking_conns_def bitmap_only_def)

lemma put_session_lacking [simp]:
  "lacking_infos (put_session d ss' s) ss = lacking_infos s ss" "lacking_foreign (put_session d ss' s) ss = lacking_foreign s ss"
  "conn_part f dst (put_session d ss' s) ss = conn_part f dst s ss"
  by (simp_all only: lacking_infos_def lacking_foreign_def conn_part_def [abs_def] put_session_parts put_session_frame)

text \<open>The start of a round, in terms of what the neighbour lacks.\<close>

lemma sync_route_start_eq:
  assumes "get_session dst s = Some ss"
  shows "\<exists>ci ss'. touched ss ss' \<and> conn_part (re_force_conn_list re) dst s ss ci \<and>
    sync_route_start re now dst init s =
      (if lacking_infos s ss = [] \<and> ci = None \<and> lacking_foreign s ss = [] \<and> \<not> need_sync_initiator_info ss \<and>
          \<not> (init \<and> we_are_initiator ss)
       then (None, put_session dst ss' s)
       else (Some (\<lparr>req_my_peer_id = svc_my_peer_id s, req_my_session_id = my_session_id ss,
                    req_is_initiator = we_are_initiator ss, req_peer_infos = none_if_empty (lacking_infos s ss),
                    req_conn_info = ci, req_foreign_network_infos = none_if_empty (lacking_foreign s ss)\<rparr>,
                  map_option (build_sync_route_raws re (raw_peer_infos (synced_route_info s))) (none_if_empty (lacking_infos s ss))),
             put_session dst (ss'\<lparr>need_sync_initiator_info := False\<rparr>) s))"
proof -
  obtain ci ss' where b: "build_sync_request (re_force_conn_list re) now dst s ss =
      ((none_if_empty (lacking_infos s ss), ci, none_if_empty (lacking_foreign s ss)), ss')" "touched ss ss'"
      "conn_part (re_force_conn_list re) dst s ss ci"
    using build_sync_request_eq by blast
  then have "need_sync_initiator_info ss' = need_sync_initiator_info ss" "we_are_initiator ss' = we_are_initiator ss"
      "my_session_id ss' = my_session_id ss"
    by (simp_all add: touched_def)
  then show ?thesis
    using b assms by (auto simp: sync_route_start_def Let_def)
qed

section \<open>Raising saved versions\<close>

definition raised :: "('k \<Rightarrow> Version) \<Rightarrow> ('k \<Rightarrow> Version) \<Rightarrow> ('k \<times> Version) set \<Rightarrow> bool" where
  "raised old new S \<longleftrightarrow> (\<forall>k. old k \<le> new k) \<and> (\<forall>(k, v)\<in>S. v \<le> new k) \<and> (\<forall>k. new k = old k \<or> (k, new k) \<in> S)"

lemma raised_refl: "raised m m {}"
  by (simp add: raised_def)

lemma raised_trans:
  assumes "raised a b S" and "raised b c T"
  shows "raised a c (S \<union> T)"
proof -
  have ab: "a k \<le> b k" "b k = a k \<or> (k, b k) \<in> S" and bc: "b k \<le> c k" "c k = b k \<or> (k, c k) \<in> T" for k
    using assms by (auto simp: raised_def)
  have "v \<le> c k" if "(k, v) \<in> S \<union> T" for k v
    using that assms bc(1) [of k] by (auto simp: raised_def intro: order_trans)
  moreover have "c k = a k \<or> (k, c k) \<in> S \<union> T" for k
    using ab(2) [of k] bc(2) [of k] by auto
  ultimately show ?thesis
    using order_trans [OF ab(1) bc(1)] by (auto simp: raised_def)
qed

lemma raised_fold:
  assumes "\<And>x m. saved (g x m) = (case f x of None \<Rightarrow> saved m | Some (k, v) \<Rightarrow> (saved m)(k := max v (saved m k)))"
  shows "raised (saved m) (saved (fold g xs m)) {kv. \<exists>x\<in>set xs. f x = Some kv}"
proof (induction xs arbitrary: m)
  case (Cons x xs)
  have "raised (saved m) (saved (g x m)) {kv. f x = Some kv}"
    by (auto simp: raised_def assms max_def split: option.split)
  from raised_trans [OF this Cons.IH] have
    "raised (saved m) (saved (fold g xs (g x m))) ({kv. f x = Some kv} \<union> {kv. \<exists>x\<in>set xs. f x = Some kv})" .
  moreover have "{kv. f x = Some kv} \<union> {kv. \<exists>x\<in>set xs. f x = Some kv} = {kv. \<exists>x\<in>set (x # xs). f x = Some kv}"
    by auto
  ultimately show ?case
    by simp
qed (simp add: raised_refl)

text \<open>What a request offers to \<open>dst\<close>, as keys with versions; entries of \<open>dst\<close> itself do not count.\<close>

definition info_pairs :: "PeerId \<Rightarrow> RoutePeerInfo list option \<Rightarrow> (PeerId \<times> Version) set" where
  "info_pairs dst is = {(peer_id i, version i) | i. (\<exists>xs. is = Some xs \<and> i \<in> set xs) \<and> peer_id i \<noteq> dst}"

definition conn_pairs :: "PeerId \<Rightarrow> ConnInfo option \<Rightarrow> (PeerId \<times> Version) set" where
  "conn_pairs dst ci =
     {(idv_peer_id idv, idv_version idv) | idv. (\<exists>c. ci = Some c \<and> idv \<in> conn_ids c) \<and> idv_peer_id idv \<noteq> dst}"

definition foreign_pairs :: "PeerId \<Rightarrow> RouteForeignNetworkInfos option \<Rightarrow> (ForeignNetworkRouteInfoKey \<times> Version) set" where
  "foreign_pairs dst fs =
     {(k, fe_version e) | k e. (\<exists>xs. fs = Some xs \<and> (Some k, Some e) \<in> set xs) \<and> fk_peer_id k \<noteq> dst}"

lemma raised_infos:
  "raised (saved (dst_saved_peer_info_versions ss))
     (saved (dst_saved_peer_info_versions (update_dst_saved_peer_info_version now is dst ss))) (info_pairs dst (Some is))"
proof -
  have "saved (if peer_id i = dst then m else save_version now (peer_id i) (version i) m) =
      (case (if peer_id i = dst then None else Some (peer_id i, version i)) of
         None \<Rightarrow> saved m | Some (k, v) \<Rightarrow> (saved m)(k := max v (saved m k)))" for i m
    by (simp add: saved_save)
  note raised_fold [of "\<lambda>i m. if peer_id i = dst then m else save_version now (peer_id i) (version i) m",
      OF this, of "dst_saved_peer_info_versions ss" "is"]
  moreover have "{kv. \<exists>i\<in>set is. (if peer_id i = dst then None else Some (peer_id i, version i)) = Some kv} =
      info_pairs dst (Some is)"
    by (auto simp: info_pairs_def split: if_splits)
  ultimately show ?thesis
    by (simp add: update_dst_saved_peer_info_version_def)
qed

lemma raised_conns:
  "raised (saved (dst_saved_conn_info_version ss))
     (saved (dst_saved_conn_info_version (update_dst_saved_conn_info_version now ci dst ss))) (conn_pairs dst (Some ci))"
proof (cases ci)
  case (ConnBitmap cb)
  have "saved (if idv_peer_id i = dst then m else save_version now (idv_peer_id i) (idv_version i) m) =
      (case (if idv_peer_id i = dst then None else Some (idv_peer_id i, idv_version i)) of
         None \<Rightarrow> saved m | Some (k, v) \<Rightarrow> (saved m)(k := max v (saved m k)))" for i m
    by (simp add: saved_save)
  note raised_fold [of "\<lambda>i m. if idv_peer_id i = dst then m else save_version now (idv_peer_id i) (idv_version i) m",
      OF this, of "dst_saved_conn_info_version ss" "bm_peer_ids cb"]
  moreover have "{kv. \<exists>i\<in>set (bm_peer_ids cb). (if idv_peer_id i = dst then None else Some (idv_peer_id i, idv_version i)) = Some kv} =
      conn_pairs dst (Some ci)"
    by (auto simp: conn_pairs_def conn_ids_def ConnBitmap split: if_splits)
  ultimately show ?thesis
    by (simp add: update_dst_saved_conn_info_version_def update_dst_saved_conn_bitmap_version_def ConnBitmap)
next
  case (ConnPeerList pcs)
  define g where "g = (\<lambda>(pc :: PeerConnInfo) m. case conn_peer_id pc of None \<Rightarrow> m
    | Some i \<Rightarrow> if idv_peer_id i = dst then m else save_version now (idv_peer_id i) (idv_version i) m)"
  define f where "f = (\<lambda>(pc :: PeerConnInfo). case conn_peer_id pc of None \<Rightarrow> None
    | Some i \<Rightarrow> if idv_peer_id i = dst then None else Some (idv_peer_id i, idv_version i))"
  have "saved (g pc m) = (case f pc of None \<Rightarrow> saved m | Some (k, v) \<Rightarrow> (saved m)(k := max v (saved m k)))" for pc m
    by (simp add: g_def f_def saved_save split: option.split)
  note raised_fold [where g = g and f = f, OF this, where m = "dst_saved_conn_info_version ss" and xs = pcs]
  moreover have "{kv. \<exists>pc\<in>set pcs. f pc = Some kv} = conn_pairs dst (Some ci)"
    by (auto simp: f_def conn_pairs_def conn_ids_def ConnPeerList split: option.splits if_splits)
  ultimately show ?thesis
    by (simp add: update_dst_saved_conn_info_version_def update_dst_saved_conn_peer_list_version_def ConnPeerList g_def)
qed

lemma raised_foreign:
  assumes "update_dst_saved_foreign_network_version now fs dst ss = Inr ss'"
  shows "raised (saved (dst_saved_foreign_network_versions ss)) (saved (dst_saved_foreign_network_versions ss'))
     (foreign_pairs dst (Some fs)) \<and> ss' = ss\<lparr>dst_saved_foreign_network_versions := dst_saved_foreign_network_versions ss'\<rparr>"
proof -
  have step: "raised (saved m) (saved m') (foreign_pairs dst (Some fs))" if "save_foreigns now dst fs m = Inr m'" for m m'
    using that
  proof (induction fs arbitrary: m)
    case Nil
    then show ?case
      by (simp add: raised_refl foreign_pairs_def)
  next
    case (Cons x fs)
    obtain ko eo where x: "x = (ko, eo)"
      by (cases x)
    obtain k where ko: "ko = Some k"
      using Cons.prems by (auto simp: x unwrap_def split: option.splits)
    show ?case
    proof (cases "fk_peer_id k = dst")
      case True
      have "foreign_pairs dst (Some (x # fs)) = foreign_pairs dst (Some fs)"
        using True by (auto simp: foreign_pairs_def x ko)
      then show ?thesis
        using Cons True by (simp add: x ko unwrap_def)
    next
      case False
      obtain e where eo: "eo = Some e"
        using Cons.prems False by (auto simp: x ko unwrap_def split: option.splits)
      have "raised (saved m) (saved (save_version now k (fe_version e) m)) {(k, fe_version e)}"
        by (auto simp: raised_def saved_save max_def)
      moreover have "raised (saved (save_version now k (fe_version e) m)) (saved m') (foreign_pairs dst (Some fs))"
        using Cons False by (simp add: x ko eo unwrap_def)
      ultimately have "raised (saved m) (saved m') ({(k, fe_version e)} \<union> foreign_pairs dst (Some fs))"
        by (rule raised_trans)
      moreover have "{(k, fe_version e)} \<union> foreign_pairs dst (Some fs) = foreign_pairs dst (Some (x # fs))"
        using False by (auto simp: foreign_pairs_def x ko eo)
      ultimately show ?thesis
        by simp
    qed
  qed
  obtain m where "save_foreigns now dst fs (dst_saved_foreign_network_versions ss) = Inr m"
      "ss' = ss\<lparr>dst_saved_foreign_network_versions := m\<rparr>"
    using assms by (auto simp: update_dst_saved_foreign_network_version_def rbind_eq_Inr_iff)
  then show ?thesis
    using step by simp
qed

lemma save_foreigns_ok:
  "\<forall>(k, e)\<in>set fs. k \<noteq> None \<and> e \<noteq> None \<Longrightarrow> \<exists>m'. save_foreigns now dst fs m = Inr m'"
  by (induction fs arbitrary: m) (auto simp: unwrap_def)

text \<open>The part of a session that saved versions are not.\<close>

definition flags :: "SyncRouteSession \<Rightarrow> SyncRouteSession" where
  "flags ss = ss\<lparr>dst_saved_peer_info_versions := [], dst_saved_conn_info_version := [], dst_saved_foreign_network_versions := []\<rparr>"

definition session_raised :: "PeerId \<Rightarrow> SyncRouteInfoRequest \<Rightarrow> SyncRouteSession \<Rightarrow> SyncRouteSession \<Rightarrow> bool" where
  "session_raised dst req ss ss' \<longleftrightarrow> flags ss' = flags ss \<and>
     raised (saved (dst_saved_peer_info_versions ss)) (saved (dst_saved_peer_info_versions ss')) (info_pairs dst (req_peer_infos req)) \<and>
     raised (saved (dst_saved_conn_info_version ss)) (saved (dst_saved_conn_info_version ss')) (conn_pairs dst (req_conn_info req)) \<and>
     raised (saved (dst_saved_foreign_network_versions ss)) (saved (dst_saved_foreign_network_versions ss'))
       (foreign_pairs dst (req_foreign_network_infos req))"

lemma update_infos_frame:
  "flags (update_dst_saved_peer_info_version now is dst ss) = flags ss"
  "dst_saved_conn_info_version (update_dst_saved_peer_info_version now is dst ss) = dst_saved_conn_info_version ss"
  "dst_saved_foreign_network_versions (update_dst_saved_peer_info_version now is dst ss) = dst_saved_foreign_network_versions ss"
  by (simp_all add: flags_def update_dst_saved_peer_info_version_def)

lemma update_conns_frame:
  "flags (update_dst_saved_conn_info_version now ci dst ss) = flags ss"
  "dst_saved_peer_info_versions (update_dst_saved_conn_info_version now ci dst ss) = dst_saved_peer_info_versions ss"
  "dst_saved_foreign_network_versions (update_dst_saved_conn_info_version now ci dst ss) = dst_saved_foreign_network_versions ss"
  by (cases ci; simp add: flags_def update_dst_saved_conn_info_version_def update_dst_saved_conn_bitmap_version_def
      update_dst_saved_conn_peer_list_version_def)+

lemma apply_sent_raises:
  assumes "apply_sent now dst req ss = Inr ss'"
  shows "session_raised dst req ss ss'"
proof -
  define ss1 where "ss1 = (case req_peer_infos req of Some is \<Rightarrow> update_dst_saved_peer_info_version now is dst ss | None \<Rightarrow> ss)"
  define ss2 where "ss2 = (case req_conn_info req of Some ci \<Rightarrow> update_dst_saved_conn_info_version now ci dst ss1 | None \<Rightarrow> ss1)"
  have sent: "apply_sent now dst req ss = (case req_foreign_network_infos req of
      Some fs \<Rightarrow> update_dst_saved_foreign_network_version now fs dst ss2 | None \<Rightarrow> Inr ss2)"
    unfolding apply_sent_def ss1_def ss2_def Let_def by (rule refl)
  have 1: "flags ss1 = flags ss" "dst_saved_conn_info_version ss1 = dst_saved_conn_info_version ss"
      "dst_saved_foreign_network_versions ss1 = dst_saved_foreign_network_versions ss"
      "raised (saved (dst_saved_peer_info_versions ss)) (saved (dst_saved_peer_info_versions ss1)) (info_pairs dst (req_peer_infos req))"
    using raised_infos raised_refl by (auto simp: ss1_def update_infos_frame info_pairs_def split: option.split)
  have 2: "flags ss2 = flags ss1" "dst_saved_peer_info_versions ss2 = dst_saved_peer_info_versions ss1"
      "dst_saved_foreign_network_versions ss2 = dst_saved_foreign_network_versions ss1"
      "raised (saved (dst_saved_conn_info_version ss1)) (saved (dst_saved_conn_info_version ss2)) (conn_pairs dst (req_conn_info req))"
    using raised_conns raised_refl by (auto simp: ss2_def update_conns_frame conn_pairs_def split: option.split)
  have "flags ss' = flags ss2 \<and> dst_saved_peer_info_versions ss' = dst_saved_peer_info_versions ss2 \<and>
      dst_saved_conn_info_version ss' = dst_saved_conn_info_version ss2 \<and>
      raised (saved (dst_saved_foreign_network_versions ss2)) (saved (dst_saved_foreign_network_versions ss'))
        (foreign_pairs dst (req_foreign_network_infos req))"
  proof (cases "req_foreign_network_infos req")
    case None
    then have "ss' = ss2"
      using assms unfolding sent by simp
    then show ?thesis
      by (simp add: None raised_refl foreign_pairs_def)
  next
    case (Some fs)
    then have "update_dst_saved_foreign_network_version now fs dst ss2 = Inr ss'"
      using assms unfolding sent by simp
    from raised_foreign [OF this] obtain m where
        "raised (saved (dst_saved_foreign_network_versions ss2)) (saved m) (foreign_pairs dst (Some fs))"
        "ss' = ss2\<lparr>dst_saved_foreign_network_versions := m\<rparr>"
      by metis
    then show ?thesis
      by (simp add: Some flags_def)
  qed
  then show ?thesis
    using 1 2 by (simp add: session_raised_def)
qed

lemma apply_sent_ok:
  assumes "\<forall>fs. req_foreign_network_infos req = Some fs \<longrightarrow> (\<forall>(k, e)\<in>set fs. k \<noteq> None \<and> e \<noteq> None)"
  shows "\<exists>ss'. apply_sent now dst req ss = Inr ss'"
proof (cases "req_foreign_network_infos req")
  case None
  then show ?thesis
    by (simp add: apply_sent_def Let_def)
next
  case (Some fs)
  then have "\<exists>ss'. update_dst_saved_foreign_network_version now fs dst ss = Inr ss'" for ss
    using save_foreigns_ok [of fs now dst "dst_saved_foreign_network_versions ss"] assms
    by (auto simp: update_dst_saved_foreign_network_version_def)
  then show ?thesis
    by (simp only: apply_sent_def Let_def Some option.case)
qed

section \<open>A round that succeeds leaves nothing to send\<close>

lemma raised_le: "raised old new S \<Longrightarrow> old k \<le> new k" "raised old new S \<Longrightarrow> (k, v) \<in> S \<Longrightarrow> v \<le> new k"
  by (auto simp: raised_def)

lemma flags_fields:
  assumes "flags ss = flags ss'"
  shows "dst_peer_id ss = dst_peer_id ss'" "need_sync_initiator_info ss = need_sync_initiator_info ss'"
    "my_session_id ss = my_session_id ss'" "dst_session_id ss = dst_session_id ss'"
    "we_are_initiator ss = we_are_initiator ss'" "dst_is_initiator ss = dst_is_initiator ss'"
  using arg_cong [OF assms, of dst_peer_id] arg_cong [OF assms, of need_sync_initiator_info]
    arg_cong [OF assms, of my_session_id] arg_cong [OF assms, of dst_session_id]
    arg_cong [OF assms, of we_are_initiator] arg_cong [OF assms, of dst_is_initiator]
  by (simp_all add: flags_def)

lemma in_lacking_infos: "i \<in> set (lacking_infos s ss) \<longleftrightarrow>
  (\<exists>p. (p, i) \<in> set (peer_infos (synced_route_info s)) \<and> peer_reachable (route_table s) p \<and> needs_info ss (peer_id i) (version i))"
  by (force simp: lacking_infos_def)

lemma in_lacking_foreign: "x \<in> set (lacking_foreign s ss) \<longleftrightarrow>
  (\<exists>k e. x = (Some k, Some e) \<and> (k, e) \<in> set (foreign_network (synced_route_info s)) \<and> needs_foreign ss k (fe_version e))"
  by (force simp: lacking_foreign_def)

text \<open>A session that knows at least what \<open>ss\<close> knew, of the same neighbour.\<close>

definition knows_more :: "SyncRouteSession \<Rightarrow> SyncRouteSession \<Rightarrow> bool" where
  "knows_more ss ss' \<longleftrightarrow> dst_peer_id ss' = dst_peer_id ss \<and>
     (\<forall>k. saved (dst_saved_peer_info_versions ss) k \<le> saved (dst_saved_peer_info_versions ss') k) \<and>
     (\<forall>k. saved (dst_saved_conn_info_version ss) k \<le> saved (dst_saved_conn_info_version ss') k) \<and>
     (\<forall>k. saved (dst_saved_foreign_network_versions ss) k \<le> saved (dst_saved_foreign_network_versions ss') k)"

lemma knows_more_needs:
  assumes "knows_more ss ss'"
  shows "needs_info ss' p v \<Longrightarrow> needs_info ss p v" "needs_conn ss' idv \<Longrightarrow> needs_conn ss idv"
    "needs_foreign ss' k v \<Longrightarrow> needs_foreign ss k v"
  using assms by (auto simp: knows_more_def needs_info_def needs_conn_def needs_foreign_def intro: order_trans)

lemma nothing_lacking:
  assumes more: "knows_more ss ss'" and dst: "dst_peer_id ss = dst" and part: "conn_part f dst s ss ci"
    and infos: "\<And>k v. (k, v) \<in> info_pairs dst (none_if_empty (lacking_infos s ss)) \<Longrightarrow> v \<le> saved (dst_saved_peer_info_versions ss') k"
    and conns: "\<And>k v. (k, v) \<in> conn_pairs dst ci \<Longrightarrow> v \<le> saved (dst_saved_conn_info_version ss') k"
    and foreign: "\<And>k v. (k, v) \<in> foreign_pairs dst (none_if_empty (lacking_foreign s ss)) \<Longrightarrow>
      v \<le> saved (dst_saved_foreign_network_versions ss') k"
  shows "lacking_infos s ss' = []" and "lacking_foreign s ss' = []" and "conn_part f dst s ss' cj \<Longrightarrow> cj = None"
proof -
  have "i \<notin> set (lacking_infos s ss')" for i
  proof
    assume "i \<in> set (lacking_infos s ss')"
    then have n: "needs_info ss' (peer_id i) (version i)" and "i \<in> set (lacking_infos s ss)"
      using knows_more_needs(1) [OF more] by (auto simp: in_lacking_infos)
    then have "(peer_id i, version i) \<in> info_pairs dst (none_if_empty (lacking_infos s ss))"
      using more dst by (auto simp: info_pairs_def none_if_empty_def needs_info_def knows_more_def)
    from infos [OF this] show False
      using n by (simp add: needs_info_def)
  qed
  then show "lacking_infos s ss' = []"
    by (metis last_in_set)
  have "x \<notin> set (lacking_foreign s ss')" for x
  proof
    assume "x \<in> set (lacking_foreign s ss')"
    then obtain k e where x: "x = (Some k, Some e)" "needs_foreign ss' k (fe_version e)" "x \<in> set (lacking_foreign s ss)"
      using knows_more_needs(3) [OF more] by (fastforce simp: in_lacking_foreign)
    then have "(k, fe_version e) \<in> foreign_pairs dst (none_if_empty (lacking_foreign s ss))"
      using more dst by (auto simp: foreign_pairs_def none_if_empty_def needs_foreign_def knows_more_def)
    from foreign [OF this] show False
      using x(2) by (simp add: needs_foreign_def)
  qed
  then show "lacking_foreign s ss' = []"
    by (metis last_in_set)
  have sent: "\<not> needs_conn ss' idv" if "ci = Some c" "idv \<in> conn_ids c" for idv c
    using conns [of "idv_peer_id idv" "idv_version idv"] that more dst by (auto simp: conn_pairs_def needs_conn_def knows_more_def)
  have all: "\<not> needs_conn ss' idv" if "ci = Some (ConnBitmap (cached_local_conn_map s))" "idv \<in> set (cached_ids s)" for idv
    using sent [OF that(1)] that(2) by (simp add: conn_ids_def cached_ids_def)
  show "cj = None" if "conn_part f dst s ss' cj"
  proof (cases "bitmap_only f dst s")
    case True
    have "\<not> needs_conn ss' idv" if idv: "idv \<in> set (cached_ids s)" for idv
    proof
      assume n: "needs_conn ss' idv"
      then have "ci = Some (ConnBitmap (cached_local_conn_map s))"
        using part True idv knows_more_needs(2) [OF more n] unfolding conn_part_def by (metis (full_types))
      from all [OF this idv] n show False ..
    qed
    then show ?thesis
      using that True by (auto simp: conn_part_def)
  next
    case False
    have "idv \<notin> set (lacking_conns s ss')" for idv
    proof
      assume idv: "idv \<in> set (lacking_conns s ss')"
      then have l: "idv \<in> set (lacking_conns s ss)" "needs_conn ss' idv" "idv \<in> set (cached_ids s)"
        using knows_more_needs(2) [OF more] by (auto simp: lacking_conns_def)
      then have "ci = Some (ConnBitmap (cached_local_conn_map s)) \<or>
          ci = Some (ConnPeerList (map (list_entry (synced_route_info s)) (lacking_conns s ss)))"
        using part False by (auto simp: conn_part_def split: if_splits)
      then show False
      proof
        assume "ci = Some (ConnBitmap (cached_local_conn_map s))"
        from all [OF this l(3)] l(2) show False ..
      next
        assume ci: "ci = Some (ConnPeerList (map (list_entry (synced_route_info s)) (lacking_conns s ss)))"
        have "idv \<in> conn_ids (ConnPeerList (map (list_entry (synced_route_info s)) (lacking_conns s ss)))"
          unfolding conn_ids_list by (rule l(1))
        from sent [OF ci this] l(2) show False ..
      qed
    qed
    then have "lacking_conns s ss' = []"
      by (metis last_in_set)
    then show ?thesis
      using that False by (simp add: conn_part_def)
  qed
qed

lemma sent_foreign_complete: "none_if_empty (lacking_foreign s ss) = Some fs \<Longrightarrow> (k, e) \<in> set fs \<Longrightarrow> k \<noteq> None \<and> e \<noteq> None"
  by (auto simp: none_if_empty_def lacking_foreign_def split: if_splits)

text \<open>An answer without an error: the saved versions as they are after the session id was compared, then raised.\<close>

lemma round_answered:
  assumes "get_session dst s = Some ss" and "dst_peer_id ss = dst"
    and "sync_route_start re now dst init s = (Some (req, raws), s1)" and "resp_error resp = None"
  obtains ss0 ss2 ss3 where "conn_part (re_force_conn_list re) dst s ss (req_conn_info req)"
    and "req_my_peer_id req = svc_my_peer_id s" and "req_peer_infos req = none_if_empty (lacking_infos s ss)"
    and "req_foreign_network_infos req = none_if_empty (lacking_foreign s ss)"
    and "s1 = put_session dst ss0 s" and "sync_route_finish re now' dst req (Some resp) s1 = Inr (put_session dst ss3 s1)"
    and "session_raised dst req ss2 ss3" and "dst_peer_id ss3 = dst" and "\<not> need_sync_initiator_info ss3"
    and "saved (dst_saved_foreign_network_versions ss2) = saved (dst_saved_foreign_network_versions ss)"
    and "saved (dst_saved_peer_info_versions ss2) =
      (if resp_session_id resp = dst_session_id ss then saved (dst_saved_peer_info_versions ss) else (\<lambda>_. 0))"
    and "saved (dst_saved_conn_info_version ss2) =
      (if resp_session_id resp = dst_session_id ss then saved (dst_saved_conn_info_version ss) else (\<lambda>_. 0))"
proof -
  obtain ci ss' where t: "touched ss ss'" and part: "conn_part (re_force_conn_list re) dst s ss ci"
    and req: "req_my_peer_id req = svc_my_peer_id s" "req_peer_infos req = none_if_empty (lacking_infos s ss)" "req_conn_info req = ci"
      "req_foreign_network_infos req = none_if_empty (lacking_foreign s ss)"
    and s1: "s1 = put_session dst (ss'\<lparr>need_sync_initiator_info := False\<rparr>) s"
    using sync_route_start_eq [OF assms(1), of re now init] assms(3) by (auto split: if_splits)
  define ss2 where "ss2 = update_dst_session_id (resp_session_id resp) (ss'\<lparr>need_sync_initiator_info := False,
      rpc_tx_count := rpc_tx_count ss' + 1, dst_is_initiator := resp_is_initiator resp\<rparr>)"
  have ss2: "dst_peer_id ss2 = dst" "\<not> need_sync_initiator_info ss2"
      "saved (dst_saved_foreign_network_versions ss2) = saved (dst_saved_foreign_network_versions ss)"
      "saved (dst_saved_peer_info_versions ss2) =
        (if resp_session_id resp = dst_session_id ss then saved (dst_saved_peer_info_versions ss) else (\<lambda>_. 0))"
      "saved (dst_saved_conn_info_version ss2) =
        (if resp_session_id resp = dst_session_id ss then saved (dst_saved_conn_info_version ss) else (\<lambda>_. 0))"
    using t assms(2) by (auto simp: ss2_def update_dst_session_id_def touched_def fun_eq_iff)
  obtain ss3 where ss3: "apply_sent now' dst req ss2 = Inr ss3"
    using apply_sent_ok [of req now' dst ss2] sent_foreign_complete [of s ss] unfolding req(4) by fast
  note raised = apply_sent_raises [OF ss3]
  then have "dst_peer_id ss3 = dst" "\<not> need_sync_initiator_info ss3"
    using ss2(1,2) flags_fields [of ss3 ss2] by (auto simp: session_raised_def)
  moreover have "sync_route_finish re now' dst req (Some resp) s1 = Inr (put_session dst ss3 s1)"
    using ss3 assms(4) by (simp add: sync_route_finish_def session_sync_finish_def s1 ss2_def)
  ultimately show ?thesis
    using that [OF part [folded req(3)] req(1,2,4) s1 _ raised] ss2 by blast
qed

text \<open>
  C12: A successful round leaves nothing to send. When the neighbour answered a request without an
  error and is still the one whose versions were saved (or none were saved yet), the saved versions
  are recorded without a panic, and while the tables do not change the next look finds nothing
  that the neighbour lacks, neither infos nor connections, in whatever form they were sent, nor
  foreign networks.
\<close>

theorem sync_round_quiesces:
  assumes "get_session dst s = Some ss" and "dst_peer_id ss = dst"
    and "sync_route_start re now dst init s = (Some (req, raws), s1)" and "resp_error resp = None"
    and "resp_session_id resp = dst_session_id ss \<or>
      dst_saved_peer_info_versions ss = [] \<and> dst_saved_conn_info_version ss = []"
  shows "\<exists>s2. sync_route_finish re now' dst req (Some resp) s1 = Inr s2 \<and> fst (sync_route_start re now'' dst False s2) = None"
proof -
  obtain ss0 ss2 ss3 where part: "conn_part (re_force_conn_list re) dst s ss (req_conn_info req)"
    and req: "req_peer_infos req = none_if_empty (lacking_infos s ss)" "req_foreign_network_infos req = none_if_empty (lacking_foreign s ss)"
    and s1: "s1 = put_session dst ss0 s" and finish: "sync_route_finish re now' dst req (Some resp) s1 = Inr (put_session dst ss3 s1)"
    and raised: "session_raised dst req ss2 ss3" and fl: "dst_peer_id ss3 = dst" "\<not> need_sync_initiator_info ss3"
    and ss2: "saved (dst_saved_foreign_network_versions ss2) = saved (dst_saved_foreign_network_versions ss)"
      "saved (dst_saved_peer_info_versions ss2) =
        (if resp_session_id resp = dst_session_id ss then saved (dst_saved_peer_info_versions ss) else (\<lambda>_. 0))"
      "saved (dst_saved_conn_info_version ss2) =
        (if resp_session_id resp = dst_session_id ss then saved (dst_saved_conn_info_version ss) else (\<lambda>_. 0))"
    by (rule round_answered [OF assms(1-4), of now'])
  have "saved (dst_saved_peer_info_versions ss2) = saved (dst_saved_peer_info_versions ss)"
      "saved (dst_saved_conn_info_version ss2) = saved (dst_saved_conn_info_version ss)"
    using ss2(2,3) assms(5) by (auto simp: fun_eq_iff split: if_splits)
  then have more: "knows_more ss ss3"
    using raised fl(1) assms(2) ss2(1) by (auto simp: knows_more_def session_raised_def raised_def)
  have pairs: "(k, v) \<in> info_pairs dst (none_if_empty (lacking_infos s ss)) \<Longrightarrow> v \<le> saved (dst_saved_peer_info_versions ss3) k"
      "(k, v) \<in> conn_pairs dst (req_conn_info req) \<Longrightarrow> v \<le> saved (dst_saved_conn_info_version ss3) k" for k v
    using raised unfolding session_raised_def req by (auto simp: raised_def)
  have fpairs: "(k, v) \<in> foreign_pairs dst (none_if_empty (lacking_foreign s ss)) \<Longrightarrow>
      v \<le> saved (dst_saved_foreign_network_versions ss3) k" for k v
    using raised unfolding session_raised_def req by (auto simp: raised_def)
  note none = nothing_lacking [OF more assms(2) part pairs fpairs]
  have "get_session dst (put_session dst ss3 s1) = Some ss3"
    by simp
  from sync_route_start_eq [OF this, of re now'' False] have "fst (sync_route_start re now'' dst False (put_session dst ss3 s1)) = None"
    using none fl(2) by (auto simp: s1)
  then show ?thesis
    using finish by blast
qed

text \<open>Node 1 knows of peer 7, which node 2 has not been told of.\<close>

definition sample_ctx :: global_ctx where
  "sample_ctx =
     \<lparr>ctx_id = (0, 0, 0, 0), ctx_ipv4 = None, ctx_proxy_cidrs = [], ctx_vpn_portal_cidr = None, ctx_hostname = [],
      ctx_udp_nat_type = 0,
      ctx_feature_flags = \<lparr>is_public_server = False, avoid_relay_data = False, kcp_input = False, no_relay_kcp = False,
        support_conn_list_sync = True\<rparr>,
      ctx_quic_proxy_port = None, ctx_ipv6 = None, ctx_acl = None, ctx_easytier_version = []\<rparr>"

definition sample_re :: "u32 route_env" where
  "sample_re =
     \<lparr>re_chk = True, re_hmac = \<lambda>_ _. [], re_ctx = sample_ctx,
      re_cidr = \<lparr>cidr_from_str = \<lambda>_. None, v4_contains = \<lambda>_ _ _. False, v6_contains = \<lambda>_ _ _. False, show_ip = \<lambda>_. []\<rparr>,
      re_pick = least_index, re_hop_counts = \<lambda>_ _ _. None, re_calculate_cost = \<lambda>_ _. 1, re_raw_peer_id = id,
      re_transcode = peer_id, re_force_conn_list = True\<rparr>"

definition sample_service :: "u32 PeerRouteServiceImpl" where
  "sample_service = (PeerRouteServiceImpl_new 1 0 0)
     \<lparr>sessions := [(2, SyncRouteSession_new 5 2)],
      synced_route_info := SyncedRouteInfo_empty\<lparr>peer_infos := [(7, sample_info 1)]\<rparr>,
      route_table := RouteTable_new\<lparr>next_hop_map :=
        [(7, \<lparr>next_hop_peer_id = 7, path_latency = 1, path_len = 1, nh_version = 1\<rparr>)]\<rparr>\<rparr>"

lemma sample_service_sends:
  "sync_route_start sample_re 0 2 False sample_service =
     (Some (\<lparr>req_my_peer_id = 1, req_my_session_id = 5, req_is_initiator = False, req_peer_infos = Some [sample_info 1],
             req_conn_info = None, req_foreign_network_infos = None\<rparr>, Some [7]),
      put_session 2 (SyncRouteSession_new 5 2) sample_service)"
  by (simp add: sync_route_start_def sample_service_def sample_re_def get_session_def build_sync_request_def
      build_route_info_def build_conn_info_def build_conn_peer_list_def build_foreign_network_info_def
      PeerRouteServiceImpl_new_def SyncedRouteInfo_empty_def RouteTable_new_def peer_reachable_def get_next_hop_def
      check_saved_peer_info_update_to_date_def check_saved_def SyncRouteSession_new_def sample_info_def
      RoutePeerInfo_default_def none_if_empty_def build_sync_route_raws_def put_session_def)

theorem sync_round_quiesces_witness:
  "\<exists>req raws s1 s2. sync_route_start sample_re 0 2 False sample_service = (Some (req, raws), s1) \<and>
     req_peer_infos req = Some [sample_info 1] \<and>
     sync_route_finish sample_re 1 2 req (Some \<lparr>resp_is_initiator = False, resp_session_id = 9, resp_error = None\<rparr>) s1 = Inr s2 \<and>
     fst (sync_route_start sample_re 2 2 False s2) = None"
proof -
  have ss: "get_session 2 sample_service = Some (SyncRouteSession_new 5 2)" "dst_peer_id (SyncRouteSession_new 5 2) = 2"
    and sid: "resp_session_id \<lparr>resp_is_initiator = False, resp_session_id = 9, resp_error = None\<rparr> =
        dst_session_id (SyncRouteSession_new 5 2) \<or>
      dst_saved_peer_info_versions (SyncRouteSession_new 5 2) = [] \<and> dst_saved_conn_info_version (SyncRouteSession_new 5 2) = []"
    by (simp_all add: get_session_def sample_service_def SyncRouteSession_new_def)
  show ?thesis
    using sync_round_quiesces [OF ss sample_service_sends _ sid, of 1 2] by (auto simp: sample_service_sends)
qed

end
