(* ===== verification/Ospf_Delivery.thy ===== *)
theory Ospf_Delivery
  imports Ospf_Rounds
begin

text \<open>
  A round of synchronisation seen from both ends. The receiver's handler is a sequence of steps of
  the versioned tables of \<open>Ospf_Convergence\<close>, so it never loses a version and takes up everything
  offered. What a node believes about its neighbour's tables stays true, and after a round the
  neighbour has all that the sender would tell it.
\<close>

section \<open>Versions in the tables\<close>

definition conn_version :: "'r SyncedRouteInfo \<Rightarrow> PeerId \<Rightarrow> Version" where
  "conn_version t p = (case map_of (conn_map t) p of Some (c, v) \<Rightarrow> v | None \<Rightarrow> 0)"

definition foreign_version :: "'r SyncedRouteInfo \<Rightarrow> ForeignNetworkRouteInfoKey \<Rightarrow> Version" where
  "foreign_version t k = (case map_of (foreign_network t) k of Some e \<Rightarrow> fe_version e | None \<Rightarrow> 0)"

lemma versions_view:
  "get_peer_info_version_with_default p t = (case info_view t p of Some (i, n) \<Rightarrow> n | None \<Rightarrow> 0)"
  "conn_version t p = (case conn_view t p of Some (c, n) \<Rightarrow> n | None \<Rightarrow> 0)"
  "foreign_version t k = (case foreign_view t k of Some (e, n) \<Rightarrow> n | None \<Rightarrow> 0)"
  by (simp_all add: get_peer_info_version_with_default_def info_view_def conn_version_def conn_view_def foreign_version_def
      foreign_view_def split: option.split)

lemma run_versions_grow:
  assumes "tables_run t ls t'"
  shows "get_peer_info_version_with_default p t \<le> get_peer_info_version_with_default p t'"
    and "conn_version t p \<le> conn_version t' p" and "foreign_version t k \<le> foreign_version t' k"
  using info_store.version_monotone [OF tables_run_stores(1) [OF assms], of p]
    conn_store.version_monotone [OF tables_run_stores(2) [OF assms], of p]
    foreign_store.version_monotone [OF tables_run_stores(3) [OF assms], of k]
  by (auto simp: versions_view split: option.split)

lemma run_versions_delivered:
  assumes "tables_run t ls t'"
  shows "(p, i, n) \<in> set (offered_infos ls) \<Longrightarrow> n \<le> get_peer_info_version_with_default p t'"
    and "(p, c, n) \<in> set (offered_conns ls) \<Longrightarrow> n \<le> conn_version t' p"
    and "(k, f, n) \<in> set (offered_foreign ls) \<Longrightarrow> n \<le> foreign_version t' k"
  using info_store.delivered [OF tables_run_stores(1) [OF assms], of p]
    conn_store.delivered [OF tables_run_stores(2) [OF assms], of p]
    foreign_store.delivered [OF tables_run_stores(3) [OF assms], of k]
  by (fastforce simp: versions_view)+

section \<open>The handler as a run of the tables\<close>

lemma tables_run_append: "tables_run s ls s' \<Longrightarrow> tables_run s' ms s'' \<Longrightarrow> tables_run s (ls @ ms) s''"
proof (rotate_tac 1, induction rule: tables_run.induct)
  case (tables_more s' ms s'' l s''')
  then show ?case
    using tables_run.tables_more [of s "ls @ ms" s'' l s'''] by simp
qed simp

lemma tables_one: "tables_step s l s' \<Longrightarrow> tables_run s [l] s'"
  using tables_more [OF tables_none, of s l s'] by simp

lemma offered_append [simp]:
  "offered_infos (ls @ ms) = offered_infos ls @ offered_infos ms" "offered_conns (ls @ ms) = offered_conns ls @ offered_conns ms"
  "offered_foreign (ls @ ms) = offered_foreign ls @ offered_foreign ms"
  by (simp_all add: offered_infos_def offered_conns_def offered_foreign_def)

lemma offered_Cons [simp]:
  "offered_infos (l # ls) = fst l @ offered_infos ls" "offered_conns (l # ls) = fst (snd l) @ offered_conns ls"
  "offered_foreign (l # ls) = snd (snd l) @ offered_foreign ls"
  by (simp_all add: offered_infos_def offered_conns_def offered_foreign_def)

lemma offered_Nil [simp]: "offered_infos [] = []" "offered_conns [] = []" "offered_foreign [] = []"
  by (simp_all add: offered_infos_def offered_conns_def offered_foreign_def)

lemma accept_infos_run:
  assumes "accept_infos re now from infos raws (s, ss) = Inr (Inr u, s', ss')"
  shows "\<exists>ls t. tables_run (synced_route_info s) ls t \<and> s' = s\<lparr>synced_route_info := t\<rparr> \<and>
    offered_infos ls = info_items (case infos of Some is \<Rightarrow> is | None \<Rightarrow> []) \<and>
    ss' = (case infos of Some is \<Rightarrow> update_dst_saved_peer_info_version now is from ss | None \<Rightarrow> ss)"
proof (cases infos)
  case None
  then show ?thesis
    using assms tables_none by (intro exI [of _ "[]"] exI [of _ "synced_route_info s"]) (auto simp: accept_infos_def info_items_def)
next
  case (Some "is")
  obtain rs r t where raws: "unwrap raws = Inr rs" and upd: "update_peer_infos (re_raw_peer_id re) now (svc_my_peer_id s)
      (svc_my_peer_route_id s) from is rs (synced_route_info s) = Inr (r, t)"
    using assms Some by (auto simp: accept_infos_def rbind_eq_Inr_iff)
  have r: "r = Inr ()" and s': "s' = s\<lparr>synced_route_info := verify_and_update_group_trusts (re_hmac re) is
        (get_acl_group_declarations (re_ctx re)) t\<rparr>" "ss' = update_dst_saved_peer_info_version now is from ss"
    using assms Some raws upd by (cases r; simp add: accept_infos_def Let_def)+
  obtain r0 need s1 where loop0: "update_infos_loop (re_raw_peer_id re) now (svc_my_peer_id s) (svc_my_peer_route_id s) from rs 0 is
      (False, synced_route_info s) = Inr (r0, need, s1)"
    using upd by (auto simp: update_peer_infos_def rbind_eq_Inr_iff)
  then have "r0 = Inr ()" and t: "t = inc_if need s1"
    using upd unfolding r by (cases r0; simp add: update_peer_infos_def)+
  note loop = loop0 [unfolded this(1)]
  have "tables_run (synced_route_info s) ([(info_items is, [], [])] @ [([], [], [])])
      (verify_and_update_group_trusts (re_hmac re) is (get_acl_group_declarations (re_ctx re)) t)"
    using tables_run_append [OF tables_one [OF step_infos [OF loop]] tables_one [OF step_groups]] t by blast
  then show ?thesis
    using s' Some by (intro exI [of _ "[(info_items is, [], [])] @ [([], [], [])]"] exI conjI) auto
qed

lemma accept_conn_run:
  assumes "accept_conn re now from conn (s, ss) = Inr (u, s', ss')"
  shows "\<exists>ls t. tables_run (synced_route_info s) ls t \<and> s' = s\<lparr>synced_route_info := t\<rparr> \<and>
    offered_conns ls = (case conn of Some ci \<Rightarrow> conn_items ci | None \<Rightarrow> []) \<and>
    ss' = (case conn of Some ci \<Rightarrow> update_dst_saved_conn_info_version now ci from ss | None \<Rightarrow> ss) \<and>
    (\<forall>ci. conn = Some ci \<longrightarrow> (\<exists>ver. update_conn_info ver now ci (synced_route_info s) = Inr t))"
proof (cases conn)
  case None
  then show ?thesis
    using assms tables_none by (intro exI [of _ "[]"] exI [of _ "synced_route_info s"]) (auto simp: accept_conn_def)
next
  case (Some ci)
  obtain t where t: "update_conn_info (ctx_easytier_version (re_ctx re)) now ci (synced_route_info s) = Inr t"
    and s': "s' = s\<lparr>synced_route_info := t\<rparr>" "ss' = update_dst_saved_conn_info_version now ci from ss"
    using assms Some by (auto simp: accept_conn_def rbind_eq_Inr_iff)
  then show ?thesis
    using tables_one [OF step_conn [OF t]] Some by (intro exI [of _ "[([], conn_items ci, [])]"] exI conjI) auto
qed

lemma accept_foreign_run:
  assumes "accept_foreign now from foreign (s, ss) = Inr (s', ss')"
  shows "\<exists>ls t. tables_run (synced_route_info s) ls t \<and> s' = s\<lparr>synced_route_info := t\<rparr> \<and>
    offered_foreign ls = foreign_items (case foreign of Some fs \<Rightarrow> fs | None \<Rightarrow> []) \<and>
    (case foreign of Some fs \<Rightarrow> update_dst_saved_foreign_network_version now fs from ss = Inr ss' | None \<Rightarrow> ss' = ss)"
proof (cases foreign)
  case None
  then show ?thesis
    using assms tables_none by (intro exI [of _ "[]"] exI [of _ "synced_route_info s"]) (auto simp: accept_foreign_def foreign_items_def List.map_filter_def)
next
  case (Some fs)
  then show ?thesis
    using assms tables_one [OF step_foreign [of "synced_route_info s" fs now]]
    by (intro exI [of _ "[([], [], foreign_items fs)]"] exI [of _ "update_foreign_network now fs (synced_route_info s)"])
      (auto simp: accept_foreign_def rbind_eq_Inr_iff Let_def)
qed

lemma rebuild_frame:
  assumes "update_route_table_and_cached_local_conn_bitmap re now s = Some (Inr s')"
  shows "synced_route_info s' = synced_route_info s" "sessions s' = sessions s"
  using assms unfolding update_route_table_and_cached_local_conn_bitmap_def update_route_table_def
    update_peer_info_last_update_def Let_def set_if_larger_def
  by (auto simp: sbind_eq_Inr split: if_splits)

lemma owner_map_frame [simp]:
  "synced_route_info (update_foreign_network_owner_map s) = synced_route_info s"
  "sessions (update_foreign_network_owner_map s) = sessions s"
  by (simp_all add: update_foreign_network_owner_map_def split: prod.split)

text \<open>The session a request is handled in: the one there is, or a new one.\<close>

definition session_for :: "u64 \<Rightarrow> PeerId \<Rightarrow> 'r PeerRouteServiceImpl \<Rightarrow> SyncRouteSession" where
  "session_for random_id p s = (case get_session p s of Some ss \<Rightarrow> ss | None \<Rightarrow> SyncRouteSession_new random_id p)"

lemma get_or_start_session_eq:
  "\<exists>s'. get_or_start_session random_id p s = ((session_for random_id p s)\<lparr>task_is_running := True\<rparr>, s') \<and>
     synced_route_info s' = synced_route_info s"
  by (simp add: get_or_start_session_def get_or_create_session_def session_for_def Let_def put_session_def split: option.split)

lemma do_sync_run:
  fixes s s' :: "'r PeerRouteServiceImpl"
  assumes "do_sync_route_info re now rid req raws s = Some (Inr (Inr resp, s'))"
  shows "\<exists>ls ss'. tables_run (synced_route_info s) ls (synced_route_info s') \<and>
    set (info_items (case req_peer_infos req of Some is \<Rightarrow> is | None \<Rightarrow> [])) \<subseteq> set (offered_infos ls) \<and>
    set (case req_conn_info req of Some ci \<Rightarrow> conn_items ci | None \<Rightarrow> []) \<subseteq> set (offered_conns ls) \<and>
    set (foreign_items (case req_foreign_network_infos req of Some fs \<Rightarrow> fs | None \<Rightarrow> [])) \<subseteq> set (offered_foreign ls) \<and>
    (\<forall>ci. req_conn_info req = Some ci \<longrightarrow>
      (\<exists>ver (t :: 'r SyncedRouteInfo) t'. update_conn_info ver now ci t = Inr t')) \<and>
    apply_sent now (req_my_peer_id req) req (update_dst_session_id (req_my_session_id req)
      ((session_for rid (req_my_peer_id req) s)\<lparr>task_is_running := True,
         rpc_rx_count := rpc_rx_count (session_for rid (req_my_peer_id req) s) + 1\<rparr>)) = Inr ss' \<and>
    get_session (req_my_peer_id req) s' = Some (ss'\<lparr>dst_is_initiator := req_is_initiator req\<rparr>)"
proof -
  let ?from = "req_my_peer_id req"
  define ss where "ss = update_dst_session_id (req_my_session_id req)
      ((session_for rid ?from s)\<lparr>task_is_running := True, rpc_rx_count := rpc_rx_count (session_for rid ?from s) + 1\<rparr>)"
  obtain s0 where s0: "get_or_start_session rid ?from s = ((session_for rid ?from s)\<lparr>task_is_running := True\<rparr>, s0)"
      "synced_route_info s0 = synced_route_info s"
    using get_or_start_session_eq by blast
  obtain r s1 ss1 where 1: "accept_infos re now ?from (req_peer_infos req) raws (s0, ss) = Inr (r, s1, ss1)"
    using assms by (auto simp: do_sync_route_info_def s0(1) ss_def Let_def sbind_eq_Inr)
  then obtain u where r: "r = Inr u"
    using assms by (cases r) (auto simp: do_sync_route_info_def s0(1) ss_def Let_def)
  obtain u' s2 ss2 s3 s4 ss4 where 2: "accept_conn re now ?from (req_conn_info req) (s1, ss1) = Inr (u', s2, ss2)"
    and 3: "(if u \<or> u' then update_route_table_and_cached_local_conn_bitmap re now s2 else Some (Inr s2)) = Some (Inr s3)"
    and 4: "accept_foreign now ?from (req_foreign_network_infos req) (s3, ss2) = Inr (s4, ss4)"
    and s': "s' = put_session ?from (ss4\<lparr>dst_is_initiator := req_is_initiator req\<rparr>)
        (if u \<or> u' \<or> req_foreign_network_infos req \<noteq> None then update_foreign_network_owner_map s4 else s4)"
    using assms 1 unfolding r by (auto simp: do_sync_route_info_def s0(1) ss_def Let_def sbind_eq_Inr)
  obtain la ta where a: "tables_run (synced_route_info s0) la ta" "s1 = s0\<lparr>synced_route_info := ta\<rparr>"
      "offered_infos la = info_items (case req_peer_infos req of Some is \<Rightarrow> is | None \<Rightarrow> [])"
      "ss1 = (case req_peer_infos req of Some is \<Rightarrow> update_dst_saved_peer_info_version now is ?from ss | None \<Rightarrow> ss)"
    using accept_infos_run [OF 1 [unfolded r]] by blast
  obtain lb tb where b: "tables_run (synced_route_info s1) lb tb" "s2 = s1\<lparr>synced_route_info := tb\<rparr>"
      "offered_conns lb = (case req_conn_info req of Some ci \<Rightarrow> conn_items ci | None \<Rightarrow> [])"
      "ss2 = (case req_conn_info req of Some ci \<Rightarrow> update_dst_saved_conn_info_version now ci ?from ss1 | None \<Rightarrow> ss1)"
      "\<forall>ci. req_conn_info req = Some ci \<longrightarrow> (\<exists>ver. update_conn_info ver now ci (synced_route_info s1) = Inr tb)"
    using accept_conn_run [OF 2] by blast
  have s3: "synced_route_info s3 = synced_route_info s2"
    using 3 rebuild_frame(1) by (auto split: if_splits)
  obtain lc tc where c: "tables_run (synced_route_info s3) lc tc" "s4 = s3\<lparr>synced_route_info := tc\<rparr>"
      "offered_foreign lc = foreign_items (case req_foreign_network_infos req of Some fs \<Rightarrow> fs | None \<Rightarrow> [])"
      "case req_foreign_network_infos req of
         Some fs \<Rightarrow> update_dst_saved_foreign_network_version now fs ?from ss2 = Inr ss4 | None \<Rightarrow> ss4 = ss2"
    using accept_foreign_run [OF 4] by blast
  have run: "tables_run (synced_route_info s) (la @ lb @ lc) tc"
    using tables_run_append [OF a(1) tables_run_append [of ta lb tb lc tc]] a(2) b(1,2) c(1) s3 s0(2) by simp
  have "synced_route_info s' = tc" "get_session ?from s' = Some (ss4\<lparr>dst_is_initiator := req_is_initiator req\<rparr>)"
    using s' c(2) by auto
  moreover have "apply_sent now ?from req ss = Inr ss4"
    using a(4) b(4) c(4) by (auto simp: apply_sent_def Let_def split: option.splits)
  moreover have "\<forall>ci. req_conn_info req = Some ci \<longrightarrow>
      (\<exists>ver (t :: 'r SyncedRouteInfo) t'. update_conn_info ver now ci t = Inr t')"
    using b(5) by meson
  ultimately show ?thesis
    using run a(3) b(3) c(3) unfolding ss_def by (intro exI [of _ "la @ lb @ lc"] exI [of _ ss4]) auto
qed

section \<open>Beliefs about the neighbour\<close>

definition believes :: "SyncRouteSession \<Rightarrow> 'r SyncedRouteInfo \<Rightarrow> bool" where
  "believes ss t \<longleftrightarrow>
     (\<forall>p. saved (dst_saved_peer_info_versions ss) p \<le> get_peer_info_version_with_default p t) \<and>
     (\<forall>p. saved (dst_saved_conn_info_version ss) p \<le> conn_version t p) \<and>
     (\<forall>k. saved (dst_saved_foreign_network_versions ss) k \<le> foreign_version t k)"

lemma believes_session_id: "believes ss t \<Longrightarrow> believes (update_dst_session_id sid ss) t"
  by (simp add: believes_def update_dst_session_id_def)

lemma believes_flags: "believes ss t \<Longrightarrow> flags ss' = flags ss \<Longrightarrow>
    dst_saved_peer_info_versions ss' = dst_saved_peer_info_versions ss \<Longrightarrow>
    dst_saved_conn_info_version ss' = dst_saved_conn_info_version ss \<Longrightarrow>
    dst_saved_foreign_network_versions ss' = dst_saved_foreign_network_versions ss \<Longrightarrow> believes ss' t"
  by (simp add: believes_def)

lemma believes_run: "believes ss t \<Longrightarrow> tables_run t ls t' \<Longrightarrow> believes ss t'"
  unfolding believes_def using run_versions_grow by (meson order_trans)

text \<open>The request says nothing that is not in the tables \<open>t\<close>, in that version or a later one.\<close>

definition backed :: "PeerId \<Rightarrow> SyncRouteInfoRequest \<Rightarrow> 'r SyncedRouteInfo \<Rightarrow> bool" where
  "backed dst req t \<longleftrightarrow>
     (\<forall>(p, v)\<in>info_pairs dst (req_peer_infos req). v \<le> get_peer_info_version_with_default p t) \<and>
     (\<forall>(p, v)\<in>conn_pairs dst (req_conn_info req). v \<le> conn_version t p) \<and>
     (\<forall>(k, v)\<in>foreign_pairs dst (req_foreign_network_infos req). v \<le> foreign_version t k)"

lemma raised_bound:
  assumes "raised old new S" and "\<And>k. old k \<le> f k" and "\<And>k v. (k, v) \<in> S \<Longrightarrow> v \<le> f k"
  shows "new k \<le> f k"
proof -
  have "new k = old k \<or> (k, new k) \<in> S"
    using assms(1) by (simp add: raised_def)
  then show ?thesis
    using assms(2,3) by auto
qed

lemma believes_raised:
  assumes "believes ss t" and "session_raised dst req ss ss'" and "backed dst req t"
  shows "believes ss' t"
  unfolding believes_def
proof (intro conjI allI)
  fix k
  note b = assms(1) [unfolded believes_def] assms(3) [unfolded backed_def]
  show "saved (dst_saved_peer_info_versions ss') k \<le> get_peer_info_version_with_default k t"
    by (rule raised_bound) (use assms(2) b in \<open>auto simp: session_raised_def\<close>)
  show "saved (dst_saved_conn_info_version ss') k \<le> conn_version t k"
    by (rule raised_bound) (use assms(2) b in \<open>auto simp: session_raised_def\<close>)
next
  fix k
  note b = assms(1) [unfolded believes_def] assms(3) [unfolded backed_def]
  show "saved (dst_saved_foreign_network_versions ss') k \<le> foreign_version t k"
    by (rule raised_bound) (use assms(2) b in \<open>auto simp: session_raised_def\<close>)
qed

lemma conn_items_cover:
  assumes "update_conn_info ver now ci t = Inr t'" and "idv \<in> conn_ids ci" and "idv_version idv \<noteq> 0"
  shows "\<exists>c. (idv_peer_id idv, c, idv_version idv) \<in> set (conn_items ci)"
proof (cases ci)
  case (ConnPeerList pcs)
  then show ?thesis
    using assms(2,3) by (force simp: conn_ids_def conn_items_def list_items_def conn_item_def)
next
  case (ConnBitmap cb)
  have rows: "\<exists>c. bitmap_connected_peers cb i = Inr c"
    if "update_conn_map_loop ver now cb xs ns = Inr r" "(i, x) \<in> set xs" for i x xs ns and r :: "bool \<times> 'a SyncedRouteInfo"
    using that
  proof (induction xs arbitrary: ns)
    case (Cons y xs)
    obtain j idv' where y: "y = (j, idv')"
      by (cases y)
    obtain nd s where ns: "ns = (nd, s)"
      by (cases ns)
    obtain c where c: "bitmap_connected_peers cb j = Inr c"
      and l: "update_conn_map_loop ver now cb xs (store_conn idv' c (nd, fill_empty_peer_info ver now c s)) = Inr r"
      using Cons.prems(1) by (auto simp: y ns rbind_eq_Inr_iff)
    show ?case
      using c Cons.IH [OF l] Cons.prems(2) by (auto simp: y)
  qed simp
  obtain ns and r :: "bool \<times> 'a SyncedRouteInfo" where "update_conn_map_loop ver now cb (enumerate 0 (bm_peer_ids cb)) ns = Inr r"
    using assms(1) ConnBitmap by (auto simp: update_conn_info_def update_conn_map_def Let_def rbind_eq_Inr_iff)
  note row = rows [OF this]
  obtain i where i: "(i, idv) \<in> set (enumerate 0 (bm_peer_ids cb))"
    using assms(2) ConnBitmap in_set_conv_nth [of idv "bm_peer_ids cb"] in_set_enumerate_eq [of "(_, idv)" 0 "bm_peer_ids cb"]
    by (auto simp: conn_ids_def)
  then obtain c where "bitmap_connected_peers cb i = Inr c"
    using row by blast
  then show ?thesis
    using i assms(3) ConnBitmap by (force simp: conn_items_def bitmap_items_def conn_item_def)
qed

lemma handled_backed:
  fixes s s' :: "'r PeerRouteServiceImpl"
  assumes "do_sync_route_info re now rid req raws s = Some (Inr (Inr resp, s'))"
  shows "backed dst req (synced_route_info s')"
proof -
  obtain ls where run: "tables_run (synced_route_info s) ls (synced_route_info s')"
    and infos: "set (info_items (case req_peer_infos req of Some is \<Rightarrow> is | None \<Rightarrow> [])) \<subseteq> set (offered_infos ls)"
    and conns: "set (case req_conn_info req of Some ci \<Rightarrow> conn_items ci | None \<Rightarrow> []) \<subseteq> set (offered_conns ls)"
    and foreign: "set (foreign_items (case req_foreign_network_infos req of Some fs \<Rightarrow> fs | None \<Rightarrow> [])) \<subseteq> set (offered_foreign ls)"
    and ok: "\<forall>ci. req_conn_info req = Some ci \<longrightarrow> (\<exists>ver (t :: 'r SyncedRouteInfo) t'. update_conn_info ver now ci t = Inr t')"
    using do_sync_run [OF assms] by (elim exE conjE)
  note got = run_versions_delivered [OF run]
  have "v \<le> get_peer_info_version_with_default p (synced_route_info s')" if m: "(p, v) \<in> info_pairs dst (req_peer_infos req)" for p v
  proof -
    obtain xs i where i: "req_peer_infos req = Some xs" "i \<in> set xs" "p = peer_id i" "v = version i"
      using m by (auto simp: info_pairs_def)
    then have "v = 0 \<or> (p, info_value i, v) \<in> set (offered_infos ls)"
      using infos by (force simp: info_items_def)
    then show ?thesis
      using got(1) by auto
  qed
  moreover have "v \<le> conn_version (synced_route_info s') p" if m: "(p, v) \<in> conn_pairs dst (req_conn_info req)" for p v
  proof -
    obtain ci idv where c: "req_conn_info req = Some ci" "idv \<in> conn_ids ci" "p = idv_peer_id idv" "v = idv_version idv"
      using m by (auto simp: conn_pairs_def)
    obtain ver and t t' :: "'r SyncedRouteInfo" where "update_conn_info ver now ci t = Inr t'"
      using ok c(1) by blast
    from conn_items_cover [OF this c(2)] have "v = 0 \<or> (\<exists>c. (p, c, v) \<in> set (offered_conns ls))"
      using conns c by auto
    then show ?thesis
      using got(2) by auto
  qed
  moreover have "v \<le> foreign_version (synced_route_info s') k" if m: "(k, v) \<in> foreign_pairs dst (req_foreign_network_infos req)" for k v
  proof -
    obtain xs e where e: "req_foreign_network_infos req = Some xs" "(Some k, Some e) \<in> set xs" "v = fe_version e"
      using m by (auto simp: foreign_pairs_def)
    then have "v = 0 \<or> (k, foreign_value e, v) \<in> set (foreign_items xs)"
      by (auto simp: foreign_items_def List.map_filter_def intro!: image_eqI [of _ _ "(Some k, Some e)"])
    then have "v = 0 \<or> (k, foreign_value e, v) \<in> set (offered_foreign ls)"
      using foreign e(1) by auto
    then show ?thesis
      using got(3) by auto
  qed
  ultimately show ?thesis
    by (auto simp: backed_def)
qed

section \<open>A round delivers\<close>

text \<open>
  The sender's tables: each announced info under its own key, keys once each, and no cached
  connection list newer than the table it was cached from.
\<close>

definition tables_keyed :: "'r PeerRouteServiceImpl \<Rightarrow> bool" where
  "tables_keyed s \<longleftrightarrow>
     distinct (map fst (peer_infos (synced_route_info s))) \<and> distinct (map fst (foreign_network (synced_route_info s))) \<and>
     list_all (\<lambda>(p, i). version i = 0 \<or> peer_id i = p) (peer_infos (synced_route_info s)) \<and>
     list_all (\<lambda>idv. idv_version idv \<le> conn_version (synced_route_info s) (idv_peer_id idv)) (cached_ids s)"

text \<open>All that \<open>s\<close> would tell \<open>dst\<close> is in the tables \<open>t\<close>, in that version or a later one.\<close>

definition delivered_to :: "PeerId \<Rightarrow> 'r PeerRouteServiceImpl \<Rightarrow> 'r SyncedRouteInfo \<Rightarrow> bool" where
  "delivered_to dst s t \<longleftrightarrow>
     list_all (\<lambda>(p, i). \<not> peer_reachable (route_table s) p \<or> peer_id i = dst \<or>
       version i \<le> get_peer_info_version_with_default (peer_id i) t) (peer_infos (synced_route_info s)) \<and>
     list_all (\<lambda>idv. map_of (conn_map (synced_route_info s)) (idv_peer_id idv) = None \<or> idv_peer_id idv = dst \<or>
       idv_version idv \<le> conn_version t (idv_peer_id idv)) (cached_ids s) \<and>
     list_all (\<lambda>(k, e). fk_peer_id k = dst \<or> fe_version e \<le> foreign_version t k) (foreign_network (synced_route_info s))"

lemma believes_not_needed:
  assumes "believes ss t" and "dst_peer_id ss = dst"
  shows "\<not> needs_info ss p v \<Longrightarrow> p = dst \<or> v \<le> get_peer_info_version_with_default p t"
    and "\<not> needs_conn ss idv \<Longrightarrow> idv_peer_id idv = dst \<or> idv_version idv \<le> conn_version t (idv_peer_id idv)"
    and "\<not> needs_foreign ss k v \<Longrightarrow> fk_peer_id k = dst \<or> v \<le> foreign_version t k"
  using assms by (auto simp: believes_def needs_info_def needs_conn_def needs_foreign_def intro: order_trans)

lemma sent_pairs:
  "i \<in> set xs \<Longrightarrow> peer_id i \<noteq> dst \<Longrightarrow> (peer_id i, version i) \<in> info_pairs dst (none_if_empty xs)"
  "(Some k, Some e) \<in> set fs \<Longrightarrow> fk_peer_id k \<noteq> dst \<Longrightarrow> (k, fe_version e) \<in> foreign_pairs dst (none_if_empty fs)"
  by (auto simp: info_pairs_def foreign_pairs_def none_if_empty_def)

lemma conn_part_ids:
  assumes "conn_part f dst s ss ci"
  shows "ci = Some c \<Longrightarrow> conn_ids c \<subseteq> set (cached_ids s)"
    and "idv \<in> set (lacking_conns s ss) \<Longrightarrow> \<exists>c. ci = Some c \<and> idv \<in> conn_ids c"
proof -
  have bitmap: "conn_ids (ConnBitmap (cached_local_conn_map s)) = set (cached_ids s)"
    by (simp add: conn_ids_def cached_ids_def)
  have sub: "set (lacking_conns s ss) \<subseteq> {idv \<in> set (cached_ids s). needs_conn ss idv}"
    by (auto simp: lacking_conns_def)
  show "conn_ids c \<subseteq> set (cached_ids s)" if "ci = Some c"
    using assms that sub by (auto simp: conn_part_def bitmap conn_ids_list subset_iff split: if_splits)
  show "\<exists>c. ci = Some c \<and> idv \<in> conn_ids c" if "idv \<in> set (lacking_conns s ss)"
    using assms that sub by (auto simp: conn_part_def bitmap conn_ids_list subset_iff split: if_splits)
qed

lemma request_delivers:
  assumes dst: "dst_peer_id ss = dst" and bel: "believes ss t" and bk: "backed dst req t"
    and part: "conn_part f dst s ss (req_conn_info req)"
    and infos: "req_peer_infos req = none_if_empty (lacking_infos s ss)"
    and foreign: "req_foreign_network_infos req = none_if_empty (lacking_foreign s ss)"
  shows "delivered_to dst s t"
proof -
  note not_needed = believes_not_needed [OF bel dst]
  have bi: "v \<le> get_peer_info_version_with_default p t" if "(p, v) \<in> info_pairs dst (req_peer_infos req)" for p v
    using bk that by (auto simp: backed_def)
  have bc: "v \<le> conn_version t p" if "(p, v) \<in> conn_pairs dst (req_conn_info req)" for p v
    using bk that by (auto simp: backed_def)
  have bf: "v \<le> foreign_version t k" if "(k, v) \<in> foreign_pairs dst (req_foreign_network_infos req)" for k v
    using bk that by (auto simp: backed_def)
  have "peer_id i = dst \<or> version i \<le> get_peer_info_version_with_default (peer_id i) t"
    if i: "(p, i) \<in> set (peer_infos (synced_route_info s))" "peer_reachable (route_table s) p" for p i
  proof (cases "needs_info ss (peer_id i) (version i)")
    case True
    then have "i \<in> set (lacking_infos s ss)"
      using i by (auto simp: in_lacking_infos)
    then show ?thesis
      using bi [unfolded infos, OF sent_pairs(1)] by blast
  qed (rule not_needed(1))
  moreover have "idv_peer_id idv = dst \<or> idv_version idv \<le> conn_version t (idv_peer_id idv)"
    if idv: "idv \<in> set (cached_ids s)" "map_of (conn_map (synced_route_info s)) (idv_peer_id idv) \<noteq> None" for idv
  proof (cases "needs_conn ss idv")
    case True
    then have "idv \<in> set (lacking_conns s ss)"
      using idv by (simp add: lacking_conns_def)
    then have "\<exists>c. req_conn_info req = Some c \<and> idv \<in> conn_ids c"
      by (rule conn_part_ids(2) [OF part])
    then show ?thesis
      using bc [of "idv_peer_id idv" "idv_version idv"] by (auto simp: conn_pairs_def)
  qed (rule not_needed(2))
  moreover have "fk_peer_id k = dst \<or> fe_version e \<le> foreign_version t k"
    if e: "(k, e) \<in> set (foreign_network (synced_route_info s))" for k e
  proof (cases "needs_foreign ss k (fe_version e)")
    case True
    then have "(Some k, Some e) \<in> set (lacking_foreign s ss)"
      using e by (auto simp: in_lacking_foreign)
    then show ?thesis
      using bf [unfolded foreign, OF sent_pairs(2)] by blast
  qed (rule not_needed(3))
  ultimately show ?thesis
    unfolding delivered_to_def list_all_iff by fast
qed

text \<open>What is sent comes from the sender's own tables.\<close>

lemma request_backed:
  assumes keyed: "tables_keyed s" and part: "conn_part f dst' s ss (req_conn_info req)"
    and infos: "req_peer_infos req = none_if_empty (lacking_infos s ss)"
    and foreign: "req_foreign_network_infos req = none_if_empty (lacking_foreign s ss)"
  shows "backed dst req (synced_route_info s)"
proof -
  have "v \<le> get_peer_info_version_with_default p (synced_route_info s)" if m: "(p, v) \<in> info_pairs dst (req_peer_infos req)" for p v
  proof -
    obtain i where i: "i \<in> set (lacking_infos s ss)" "p = peer_id i" "v = version i"
      using m by (auto simp: info_pairs_def infos none_if_empty_def split: if_splits)
    then obtain q where q: "(q, i) \<in> set (peer_infos (synced_route_info s))" and nz: "version i \<noteq> 0"
      by (auto simp: in_lacking_infos needs_info_def)
    with keyed have "q = p" "map_of (peer_infos (synced_route_info s)) q = Some i"
      using i by (auto simp: tables_keyed_def list_all_iff)
    then show ?thesis
      using i by (simp add: get_peer_info_version_with_default_def)
  qed
  moreover have "v \<le> conn_version (synced_route_info s) p" if m: "(p, v) \<in> conn_pairs dst (req_conn_info req)" for p v
  proof -
    obtain c idv where c: "req_conn_info req = Some c" "idv \<in> conn_ids c" "p = idv_peer_id idv" "v = idv_version idv"
      using m by (auto simp: conn_pairs_def)
    then have "idv \<in> set (cached_ids s)"
      using conn_part_ids(1) [OF part] by blast
    then show ?thesis
      using keyed c by (auto simp: tables_keyed_def list_all_iff)
  qed
  moreover have "v \<le> foreign_version (synced_route_info s) k" if m: "(k, v) \<in> foreign_pairs dst (req_foreign_network_infos req)" for k v
  proof -
    obtain e where "(Some k, Some e) \<in> set (lacking_foreign s ss)" "v = fe_version e"
      using m by (auto simp: foreign_pairs_def foreign none_if_empty_def split: if_splits)
    then show ?thesis
      using keyed by (auto simp: in_lacking_foreign tables_keyed_def foreign_version_def)
  qed
  ultimately show ?thesis
    unfolding backed_def by fast
qed

lemma sync_route_info_ok:
  assumes "sync_route_info re now rid req raws s = Some (Inr (resp, s'))" and "resp_error resp = None"
  shows "\<exists>raws'. do_sync_route_info re now rid req raws' s = Some (Inr (Inr resp, s'))"
proof -
  obtain raws' r where r: "do_sync_route_info re now rid req raws' s = Some (Inr (r, s'))"
      "resp = (case r of Inr resp \<Rightarrow> resp | Inl e \<Rightarrow> \<lparr>resp_is_initiator = False, resp_session_id = 0, resp_error = Some e\<rparr>)"
    using assms(1) by (auto simp: sync_route_info_def sbind_eq_Inr)
  then show ?thesis
    using assms(2) by (cases r) auto
qed

text \<open>
  C11: A round of synchronisation delivers. Node \<open>a\<close> starts a round with its neighbour \<open>b\<close>, \<open>b\<close> handles
  the request without an error and \<open>a\<close> takes the answer. If each believed only versions the other
  had, this is so afterwards too, and every reachable peer info, every cached connection list and
  every foreign network of \<open>a\<close> that is not about \<open>b\<close> itself is then in \<open>b\<close>'s tables, in that version or a later one,
  in whichever form the connections went.
\<close>

theorem sync_round_delivers:
  fixes sa sb sb1 :: "'r PeerRouteServiceImpl"
  assumes "get_session b sa = Some ssa" and "dst_peer_id ssa = b" and "svc_my_peer_id sa = a" and "tables_keyed sa"
    and "believes ssa (synced_route_info sb)" and "believes (session_for rid a sb) (synced_route_info sa)"
    and "sync_route_start re now b init sa = (Some (req, raws), sa1)"
    and "sync_route_info re' now' rid req raws sb = Some (Inr (resp, sb1))" and "resp_error resp = None"
  shows "\<exists>sa2 ssa2 ssb1. sync_route_finish re now'' b req (Some resp) sa1 = Inr sa2 \<and>
    get_session b sa2 = Some ssa2 \<and> get_session a sb1 = Some ssb1 \<and> synced_route_info sa2 = synced_route_info sa \<and>
    believes ssa2 (synced_route_info sb1) \<and> believes ssb1 (synced_route_info sa2) \<and> delivered_to b sa (synced_route_info sb1)"
proof -
  obtain ss0 ss2 ss3 where part: "conn_part (re_force_conn_list re) b sa ssa (req_conn_info req)"
    and a: "req_my_peer_id req = svc_my_peer_id sa"
    and req: "req_peer_infos req = none_if_empty (lacking_infos sa ssa)" "req_foreign_network_infos req = none_if_empty (lacking_foreign sa ssa)"
    and sa1: "sa1 = put_session b ss0 sa" and finish: "sync_route_finish re now'' b req (Some resp) sa1 = Inr (put_session b ss3 sa1)"
    and raised: "session_raised b req ss2 ss3"
    and ss2: "saved (dst_saved_foreign_network_versions ss2) = saved (dst_saved_foreign_network_versions ssa)"
      "saved (dst_saved_peer_info_versions ss2) =
        (if resp_session_id resp = dst_session_id ssa then saved (dst_saved_peer_info_versions ssa) else (\<lambda>_. 0))"
      "saved (dst_saved_conn_info_version ss2) =
        (if resp_session_id resp = dst_session_id ssa then saved (dst_saved_conn_info_version ssa) else (\<lambda>_. 0))"
    by (rule round_answered [OF assms(1,2,7,9), of now''])
  obtain raws' where do_sync: "do_sync_route_info re' now' rid req raws' sb = Some (Inr (Inr resp, sb1))"
    using sync_route_info_ok [OF assms(8,9)] by blast
  obtain ls ssb where run: "tables_run (synced_route_info sb) ls (synced_route_info sb1)"
    and ssb: "apply_sent now' a req (update_dst_session_id (req_my_session_id req)
        ((session_for rid a sb)\<lparr>task_is_running := True, rpc_rx_count := rpc_rx_count (session_for rid a sb) + 1\<rparr>)) = Inr ssb"
    and ssb1: "get_session a sb1 = Some (ssb\<lparr>dst_is_initiator := req_is_initiator req\<rparr>)"
    using do_sync_run [OF do_sync, unfolded a assms(3)] by (elim exE conjE)
  have bb: "backed b req (synced_route_info sb1)" and ba: "backed a req (synced_route_info sa)"
    using handled_backed [OF do_sync] request_backed [OF assms(4) part req] by blast+
  have bel: "believes ssa (synced_route_info sb1)"
    using believes_run [OF assms(5) run] .
  then have "believes ss2 (synced_route_info sb1)"
    using ss2 by (simp add: believes_def)
  then have "believes ss3 (synced_route_info sb1)"
    using believes_raised [OF _ raised bb] by blast
  moreover have "believes ssb (synced_route_info sa)"
    by (rule believes_raised [OF _ apply_sent_raises [OF ssb] ba], rule believes_session_id)
      (use assms(6) in \<open>simp add: believes_def\<close>)
  then have "believes (ssb\<lparr>dst_is_initiator := req_is_initiator req\<rparr>) (synced_route_info sa)"
    by (simp add: believes_def)
  moreover have "delivered_to b sa (synced_route_info sb1)"
    by (rule request_delivers [OF assms(2) bel bb part req])
  ultimately show ?thesis
    using ssb1 finish by (intro exI [of _ "put_session b ss3 sa1"] exI [of _ ss3] exI) (simp add: sa1)
qed

text \<open>Node 1 owns a foreign network, which a node 2 that has just started does not know of.\<close>

definition sample_key :: ForeignNetworkRouteInfoKey where
  "sample_key = \<lparr>fk_peer_id = 1, fk_network_name = ''other''\<rparr>"

definition sample_entry :: ForeignNetworkRouteInfoEntry where
  "sample_entry = \<lparr>foreign_peer_ids = [8], fe_last_update = None, fe_version = 3, network_secret_digest = [],
     my_peer_id_for_this_network = 11\<rparr>"

definition sample_owner :: "SyncRouteSession \<Rightarrow> u32 PeerRouteServiceImpl" where
  "sample_owner ss = (PeerRouteServiceImpl_new 1 0 0)
     \<lparr>sessions := [(2, ss)],
      synced_route_info := SyncedRouteInfo_empty\<lparr>foreign_network := [(sample_key, sample_entry)]\<rparr>\<rparr>"

lemmas sample_owner_eval = sync_route_start_def sample_owner_def sample_re_def get_session_def build_sync_request_def
  build_route_info_def build_conn_info_def build_conn_peer_list_def build_foreign_network_info_def
  PeerRouteServiceImpl_new_def SyncedRouteInfo_empty_def check_saved_foreign_network_version_update_to_date_def
  check_saved_def SyncRouteSession_new_def sample_key_def sample_entry_def none_if_empty_def put_session_def

lemma sample_owner_sends:
  "sync_route_start sample_re 0 2 False (sample_owner (SyncRouteSession_new 5 2)) =
     (Some (\<lparr>req_my_peer_id = 1, req_my_session_id = 5, req_is_initiator = False, req_peer_infos = None,
             req_conn_info = None, req_foreign_network_infos = Some [(Some sample_key, Some sample_entry)]\<rparr>, None),
      put_session 2 (SyncRouteSession_new 5 2) (sample_owner (SyncRouteSession_new 5 2)))"
  by (simp add: sample_owner_eval)

lemma sample_owner_handled:
  "\<exists>s'. sync_route_info sample_re 1 6 \<lparr>req_my_peer_id = 1, req_my_session_id = 5, req_is_initiator = False, req_peer_infos = None,
      req_conn_info = None, req_foreign_network_infos = Some [(Some sample_key, Some sample_entry)]\<rparr> None
      (PeerRouteServiceImpl_new 2 0 0) = Some (Inr (\<lparr>resp_is_initiator = False, resp_session_id = 6, resp_error = None\<rparr>, s'))"
  by (simp add: sync_route_info_def do_sync_route_info_def get_or_start_session_def get_or_create_session_def get_session_def
      PeerRouteServiceImpl_new_def SyncRouteSession_new_def accept_infos_def accept_conn_def accept_foreign_def Let_def
      update_dst_saved_foreign_network_version_def unwrap_def sample_key_def sample_entry_def update_dst_session_id_def sbind_def)

theorem sync_round_delivers_witness:
  "\<exists>req raws s1 resp s' s2. sync_route_start sample_re 0 2 False (sample_owner (SyncRouteSession_new 5 2)) = (Some (req, raws), s1) \<and>
     sync_route_info sample_re 1 6 req raws (PeerRouteServiceImpl_new 2 0 0) = Some (Inr (resp, s')) \<and>
     sync_route_finish sample_re 2 2 req (Some resp) s1 = Inr s2 \<and> 3 \<le> foreign_version (synced_route_info s') sample_key"
proof -
  have ss: "get_session 2 (sample_owner (SyncRouteSession_new 5 2)) = Some (SyncRouteSession_new 5 2)"
      "dst_peer_id (SyncRouteSession_new 5 2) = 2" "svc_my_peer_id (sample_owner (SyncRouteSession_new 5 2)) = 1"
      "tables_keyed (sample_owner (SyncRouteSession_new 5 2))"
      "believes (SyncRouteSession_new 5 2) (synced_route_info (PeerRouteServiceImpl_new 2 0 0 :: u32 PeerRouteServiceImpl))"
      "believes (session_for 6 1 (PeerRouteServiceImpl_new 2 0 0 :: u32 PeerRouteServiceImpl))
         (synced_route_info (sample_owner (SyncRouteSession_new 5 2)))"
    by (simp_all add: sample_owner_eval tables_keyed_def cached_ids_def believes_def session_for_def)
  obtain s' where h: "sync_route_info sample_re 1 6 \<lparr>req_my_peer_id = 1, req_my_session_id = 5, req_is_initiator = False,
      req_peer_infos = None, req_conn_info = None, req_foreign_network_infos = Some [(Some sample_key, Some sample_entry)]\<rparr> None
      (PeerRouteServiceImpl_new 2 0 0) = Some (Inr (\<lparr>resp_is_initiator = False, resp_session_id = 6, resp_error = None\<rparr>, s'))"
    using sample_owner_handled by blast
  have "delivered_to 2 (sample_owner (SyncRouteSession_new 5 2)) (synced_route_info s') \<Longrightarrow>
      3 \<le> foreign_version (synced_route_info s') sample_key"
    by (simp add: delivered_to_def sample_owner_def sample_key_def sample_entry_def)
  then show ?thesis
    using sync_round_delivers [OF ss sample_owner_sends h, of 2] sample_owner_sends h by fastforce
qed

section \<open>A neighbour that has restarted\<close>

definition sent_infos :: "SyncRouteInfoRequest option \<Rightarrow> RoutePeerInfo set" where
  "sent_infos r = (case r of Some req \<Rightarrow> (case req_peer_infos req of Some xs \<Rightarrow> set xs | None \<Rightarrow> {}) | None \<Rightarrow> {})"

definition sent_foreign :: "SyncRouteInfoRequest option \<Rightarrow> (ForeignNetworkRouteInfoKey option \<times> ForeignNetworkRouteInfoEntry option) set" where
  "sent_foreign r = (case r of Some req \<Rightarrow> (case req_foreign_network_infos req of Some xs \<Rightarrow> set xs | None \<Rightarrow> {}) | None \<Rightarrow> {})"

lemma start_sends:
  assumes "get_session dst s = Some ss"
  shows "sent_infos (map_option fst (fst (sync_route_start re now dst init s))) = set (lacking_infos s ss)"
    and "sent_foreign (map_option fst (fst (sync_route_start re now dst init s))) = set (lacking_foreign s ss)"
  using sync_route_start_eq [OF assms, of re now init]
  by (auto simp: sent_infos_def sent_foreign_def none_if_empty_def split: if_splits)

lemma forgotten_infos_sent:
  assumes keyed: "tables_keyed s" and dst: "dst_peer_id ss' = dst"
    and raised: "raised (\<lambda>_. 0) (saved (dst_saved_peer_info_versions ss')) (info_pairs dst (none_if_empty (lacking_infos s ss)))"
    and i: "(p, i) \<in> set (peer_infos (synced_route_info s))" "peer_reachable (route_table s) p" "peer_id i \<noteq> dst" "version i \<noteq> 0"
  shows "i \<in> set (lacking_infos s ss) \<union> set (lacking_infos s ss')"
proof (rule ccontr)
  assume none: "i \<notin> set (lacking_infos s ss) \<union> set (lacking_infos s ss')"
  let ?v = "saved (dst_saved_peer_info_versions ss') (peer_id i)"
  have "version i \<le> ?v"
    using none i dst by (auto simp: in_lacking_infos needs_info_def)
  moreover have "?v = 0 \<or> (peer_id i, ?v) \<in> info_pairs dst (none_if_empty (lacking_infos s ss))"
    using raised by (auto simp: raised_def)
  ultimately obtain j where j: "j \<in> set (lacking_infos s ss)" "peer_id j = peer_id i"
    using i(4) by (auto simp: info_pairs_def none_if_empty_def word_le_0_iff split: if_splits)
  then obtain q where q: "(q, j) \<in> set (peer_infos (synced_route_info s))" "version j \<noteq> 0"
    by (auto simp: in_lacking_infos needs_info_def)
  have "q = peer_id j" "p = peer_id i"
    using keyed i(1,4) q by (auto simp: tables_keyed_def list_all_iff)
  then have "(p, j) \<in> set (peer_infos (synced_route_info s))"
    using q(1) j(2) by simp
  moreover have "distinct (map fst (peer_infos (synced_route_info s)))"
    using keyed by (simp add: tables_keyed_def)
  ultimately have "i = j"
    using eq_key_imp_eq_value i(1) by metis
  then show False
    using none j(1) by simp
qed

text \<open>
  A neighbour that has restarted is not told again of foreign networks. Its answer carries a new
  session id, on which the saved versions of peer infos are forgotten: every reachable peer info is
  in the request or in the next one. The saved versions of foreign networks are kept, so a foreign
  network the old neighbour had been told of is in neither, though the new one does not have it.
\<close>

theorem restarted_peer_misses_foreign:
  assumes "get_session dst s = Some ss" and "dst_peer_id ss = dst" and "tables_keyed s"
    and "sync_route_start re now dst init s = (Some (req, raws), s1)" and "resp_error resp = None"
    and "resp_session_id resp \<noteq> dst_session_id ss"
    and "fe_version e \<le> saved (dst_saved_foreign_network_versions ss) k"
  shows "\<exists>s2. sync_route_finish re now' dst req (Some resp) s1 = Inr s2 \<and>
    (\<forall>(p, i)\<in>set (peer_infos (synced_route_info s)). peer_reachable (route_table s) p \<and> peer_id i \<noteq> dst \<and> version i \<noteq> 0 \<longrightarrow>
       i \<in> sent_infos (Some req) \<union> sent_infos (map_option fst (fst (sync_route_start re now'' dst init' s2)))) \<and>
    (Some k, Some e) \<notin> sent_foreign (Some req) \<union> sent_foreign (map_option fst (fst (sync_route_start re now'' dst init' s2)))"
proof -
  obtain ss0 ss2 ss3 where req: "req_peer_infos req = none_if_empty (lacking_infos s ss)"
      "req_foreign_network_infos req = none_if_empty (lacking_foreign s ss)"
    and s1: "s1 = put_session dst ss0 s" and finish: "sync_route_finish re now' dst req (Some resp) s1 = Inr (put_session dst ss3 s1)"
    and raised: "session_raised dst req ss2 ss3" and dst3: "dst_peer_id ss3 = dst"
    and ss2: "saved (dst_saved_foreign_network_versions ss2) = saved (dst_saved_foreign_network_versions ss)"
      "saved (dst_saved_peer_info_versions ss2) =
        (if resp_session_id resp = dst_session_id ss then saved (dst_saved_peer_info_versions ss) else (\<lambda>_. 0))"
    by (rule round_answered [OF assms(1,2,4,5), of now'])
  have this_round: "sent_infos (Some req) = set (lacking_infos s ss)" "sent_foreign (Some req) = set (lacking_foreign s ss)"
    using start_sends [OF assms(1), of re now init] assms(4) by simp_all
  have next_round: "sent_infos (map_option fst (fst (sync_route_start re now'' dst init' (put_session dst ss3 s1)))) = set (lacking_infos s ss3)"
      "sent_foreign (map_option fst (fst (sync_route_start re now'' dst init' (put_session dst ss3 s1)))) = set (lacking_foreign s ss3)"
    using start_sends [of dst "put_session dst ss3 s1" ss3 re now'' init'] by (simp_all add: s1)
  have "raised (\<lambda>_. 0) (saved (dst_saved_peer_info_versions ss3)) (info_pairs dst (none_if_empty (lacking_infos s ss)))"
    using raised ss2(2) assms(6) by (simp add: session_raised_def req(1))
  note infos = forgotten_infos_sent [OF assms(3) dst3 this]
  have "saved (dst_saved_foreign_network_versions ss2) k \<le> saved (dst_saved_foreign_network_versions ss3) k"
    using raised by (simp add: session_raised_def raised_def)
  then have "\<not> needs_foreign ss k (fe_version e)" "\<not> needs_foreign ss3 k (fe_version e)"
    using assms(7) ss2(1) by (auto simp: needs_foreign_def)
  then have foreign: "(Some k, Some e) \<notin> set (lacking_foreign s ss) \<union> set (lacking_foreign s ss3)"
    by (auto simp: in_lacking_foreign)
  show ?thesis
    by (rule exI [of _ "put_session dst ss3 s1"], unfold this_round next_round) (use finish infos foreign in blast)
qed

text \<open>Node 2 had been told of the foreign network in version 3; its answer comes from a new run of it.\<close>

definition sample_told :: SyncRouteSession where
  "sample_told = (SyncRouteSession_new 5 2)\<lparr>need_sync_initiator_info := True,
     dst_saved_foreign_network_versions := [(sample_key, \<lparr>vt_version = 3, touch_time = 0\<rparr>)]\<rparr>"

theorem restarted_peer_misses_foreign_witness:
  "\<exists>req raws s1 s2. sync_route_start sample_re 0 2 False (sample_owner sample_told) = (Some (req, raws), s1) \<and>
     sync_route_finish sample_re 1 2 req (Some \<lparr>resp_is_initiator = False, resp_session_id = 9, resp_error = None\<rparr>) s1 = Inr s2 \<and>
     (Some sample_key, Some sample_entry) \<notin> sent_foreign (Some req) \<union>
       sent_foreign (map_option fst (fst (sync_route_start sample_re 2 2 False s2)))"
proof -
  have ss: "get_session 2 (sample_owner sample_told) = Some sample_told" "dst_peer_id sample_told = 2" "tables_keyed (sample_owner sample_told)"
    by (simp_all add: sample_owner_eval sample_told_def tables_keyed_def cached_ids_def)
  have sid: "resp_session_id \<lparr>resp_is_initiator = False, resp_session_id = 9, resp_error = None\<rparr> \<noteq> dst_session_id sample_told"
    and old: "fe_version sample_entry \<le> saved (dst_saved_foreign_network_versions sample_told) sample_key"
    by (simp_all add: sample_told_def sample_entry_def saved_def SyncRouteSession_new_def)
  have "fst (sync_route_start sample_re 0 2 False (sample_owner sample_told)) \<noteq> None"
    by (simp add: sample_owner_eval sample_told_def)
  then obtain req raws s1 where start: "sync_route_start sample_re 0 2 False (sample_owner sample_told) = (Some (req, raws), s1)"
    by (cases "sync_route_start sample_re 0 2 False (sample_owner sample_told)") auto
  show ?thesis
    using restarted_peer_misses_foreign [OF ss start _ sid old, of 1 2 False] start by auto
qed

end
