(* ===== verification/Ospf_Initiator.thy ===== *)
theory Ospf_Initiator
  imports Ospf_Delivery
begin

text \<open>
  Who initiates: \<open>maintain_sessions\<close> keeps one session this node initiates, among all that happens to
  the sessions. The steps are the operations of \<open>Ospf_Service\<close> on sessions; everything else the
  service does leaves the sessions alone and is one step that may change all else.
\<close>

section \<open>Sessions under the operations\<close>

lemma get_remove_session [simp]: "get_session q (remove_session p s) = (if q = p then None else get_session q s)"
  by (simp add: get_session_def remove_session_def delete_conv')

lemma remove_session_frame [simp]: "route_table (remove_session p s) = route_table s"
  by (simp add: remove_session_def)

text \<open>Sessions of \<open>s'\<close> that were sessions of \<open>s\<close>, of the same neighbour with the same roles on this side.\<close>

definition session_kept :: "SyncRouteSession \<Rightarrow> SyncRouteSession \<Rightarrow> bool" where
  "session_kept ss ss' \<longleftrightarrow> dst_peer_id ss' = dst_peer_id ss \<and> we_are_initiator ss' = we_are_initiator ss"

lemma session_kept_refl [simp]: "session_kept ss ss"
  by (simp add: session_kept_def)

lemma session_kept_touched: "touched ss ss' \<Longrightarrow> session_kept ss (ss'\<lparr>need_sync_initiator_info := b\<rparr>) \<and> session_kept ss ss'"
  by (simp add: session_kept_def touched_def)

lemma apply_sent_kept:
  assumes "apply_sent now dst req ss = Inr ss'"
  shows "session_kept ss ss'"
  using apply_sent_raises [OF assms] flags_fields(1,5) [of ss' ss] by (simp add: session_raised_def session_kept_def)

lemma session_sync_finish_kept: "session_sync_finish ctx now dst req ret ss = Inr ss' \<Longrightarrow> session_kept ss ss'"
  by (auto simp: session_sync_finish_def session_kept_def update_dst_session_id_def dest!: apply_sent_kept split: option.splits if_splits)

lemma accept_kept:
  "accept_infos re now from infos raws (s, ss) = Inr (r, s', ss') \<Longrightarrow> session_kept ss ss' \<and> sessions s' = sessions s"
  "accept_conn re now from conn (s, ss) = Inr (u, s', ss') \<Longrightarrow> session_kept ss ss' \<and> sessions s' = sessions s"
  "accept_foreign now from foreign (s, ss) = Inr (s', ss') \<Longrightarrow> session_kept ss ss' \<and> sessions s' = sessions s"
proof -
  show "session_kept ss ss' \<and> sessions s' = sessions s" if acc: "accept_infos re now from infos raws (s, ss) = Inr (r, s', ss')"
  proof (cases infos)
    case (Some xs)
    obtain rs r' t where "unwrap raws = Inr rs" "update_peer_infos (re_raw_peer_id re) now (svc_my_peer_id s) (svc_my_peer_route_id s)
        from xs rs (synced_route_info s) = Inr (r', t)"
      using acc Some by (auto simp: accept_infos_def rbind_eq_Inr_iff)
    then show ?thesis
      using acc Some flags_fields(1,5) [OF update_infos_frame(1) [of now xs "from" ss]]
      by (cases r') (auto simp: accept_infos_def session_kept_def)
  qed (use acc in \<open>simp add: accept_infos_def\<close>)
  show "session_kept ss ss' \<and> sessions s' = sessions s" if "accept_conn re now from conn (s, ss) = Inr (u, s', ss')"
    using that flags_fields(1,5) [OF update_conns_frame(1)]
    by (auto simp: accept_conn_def rbind_eq_Inr_iff session_kept_def split: option.splits)
  show "session_kept ss ss' \<and> sessions s' = sessions s" if "accept_foreign now from foreign (s, ss) = Inr (s', ss')"
    using that by (auto simp: accept_foreign_def update_dst_saved_foreign_network_version_def rbind_eq_Inr_iff Let_def session_kept_def
        split: option.splits)
qed

lemma session_kept_trans: "session_kept a b \<Longrightarrow> session_kept b c \<Longrightarrow> session_kept a c"
  by (simp add: session_kept_def)

lemma get_session_cong: "sessions s' = sessions s \<Longrightarrow> get_session p s' = get_session p s"
  by (simp add: get_session_def)

lemma start_session_others:
  "\<exists>s'. get_or_start_session rid p s = ((session_for rid p s)\<lparr>task_is_running := True\<rparr>, s') \<and> route_table s' = route_table s \<and>
     (\<forall>q. get_session q s' = (if q = p then Some ((session_for rid p s)\<lparr>task_is_running := True\<rparr>) else get_session q s))"
  by (cases "get_session p s") (simp_all add: get_or_start_session_def get_or_create_session_def session_for_def Let_def)

text \<open>Handling a request leaves the other sessions alone and keeps, or opens, the session with the sender.\<close>

lemma do_sync_sessions:
  assumes "do_sync_route_info re now rid req raws s = Some (Inr (r, s'))"
  shows "\<exists>ss'. session_kept (session_for rid (req_my_peer_id req) s) ss' \<and>
    (\<forall>q. get_session q s' = (if q = req_my_peer_id req then Some ss' else get_session q s))"
proof -
  let ?from = "req_my_peer_id req"
  let ?ss = "session_for rid ?from s"
  define ss where "ss = update_dst_session_id (req_my_session_id req) (?ss\<lparr>task_is_running := True, rpc_rx_count := rpc_rx_count ?ss + 1\<rparr>)"
  obtain s0 where s0: "get_or_start_session rid ?from s = (?ss\<lparr>task_is_running := True\<rparr>, s0)"
    and q0: "\<And>q. q \<noteq> ?from \<Longrightarrow> get_session q s0 = get_session q s"
    using start_session_others [of rid ?from s] by (auto split: if_splits)
  have kept0: "session_kept ?ss ss"
    by (simp add: ss_def session_kept_def update_dst_session_id_def)
  obtain r1 s1 ss1 where 1: "accept_infos re now ?from (req_peer_infos req) raws (s0, ss) = Inr (r1, s1, ss1)"
    using assms by (auto simp: do_sync_route_info_def s0 ss_def Let_def sbind_eq_Inr)
  note kept1 = session_kept_trans [OF kept0 conjunct1 [OF accept_kept(1) [OF 1]]] and same1 = conjunct2 [OF accept_kept(1) [OF 1]]
  show ?thesis
  proof (cases r1)
    case (Inl e)
    then have "s' = put_session ?from ss1 s1"
      using assms 1 by (auto simp: do_sync_route_info_def s0 ss_def Let_def)
    then show ?thesis
      using kept1 get_session_cong [OF same1] q0 by (intro exI [of _ ss1]) auto
  next
    case (Inr u)
    then obtain u' s2 ss2 s3 s4 ss4 where 2: "accept_conn re now ?from (req_conn_info req) (s1, ss1) = Inr (u', s2, ss2)"
      and 3: "(if u \<or> u' then update_route_table_and_cached_local_conn_bitmap re now s2 else Some (Inr s2)) = Some (Inr s3)"
      and 4: "accept_foreign now ?from (req_foreign_network_infos req) (s3, ss2) = Inr (s4, ss4)"
      and s': "s' = put_session ?from (ss4\<lparr>dst_is_initiator := req_is_initiator req\<rparr>)
          (if u \<or> u' \<or> req_foreign_network_infos req \<noteq> None then update_foreign_network_owner_map s4 else s4)"
      using assms 1 unfolding Inr by (auto simp: do_sync_route_info_def s0 ss_def Let_def sbind_eq_Inr)
    have "sessions s3 = sessions s2"
      using 3 rebuild_frame(2) by (auto split: if_splits)
    then have same: "sessions (if u \<or> u' \<or> req_foreign_network_infos req \<noteq> None then update_foreign_network_owner_map s4 else s4) = sessions s0"
      using accept_kept(2) [OF 2] accept_kept(3) [OF 4] same1 by simp
    have "session_kept ?ss ss4"
      using session_kept_trans [OF kept1] session_kept_trans accept_kept(2) [OF 2] accept_kept(3) [OF 4] by blast
    then have "session_kept ?ss (ss4\<lparr>dst_is_initiator := req_is_initiator req\<rparr>)"
      by (simp add: session_kept_def)
    then show ?thesis
      using get_session_cong [OF same] q0 unfolding s' get_put_session by (intro exI) auto
  qed
qed

section \<open>Reachable states\<close>

text \<open>
  The service together with the peer that \<open>maintain_sessions\<close> has chosen: turns of the maintenance, both
  ends of rounds, the cleaning of saved versions, the end of a session's task, and anything that leaves the sessions alone.
\<close>

definition end_task :: "PeerId \<Rightarrow> 'r PeerRouteServiceImpl \<Rightarrow> 'r PeerRouteServiceImpl" where
  "end_task p s = (case get_session p s of Some ss \<Rightarrow> put_session p (ss\<lparr>task_is_running := False\<rparr>) s | None \<Rightarrow> s)"

inductive service_reach :: "PeerId option \<Rightarrow> 'r PeerRouteServiceImpl \<Rightarrow> bool" where
  service_new: "service_reach None (PeerRouteServiceImpl_new my rid now)"
| service_turn: "service_reach cur s \<Longrightarrow> maintain_turn rid peers (cur, s) = (cur', s') \<Longrightarrow> service_reach cur' s'"
| service_start: "service_reach cur s \<Longrightarrow> sync_route_start re now dst init s = (r, s') \<Longrightarrow> service_reach cur s'"
| service_finish: "service_reach cur s \<Longrightarrow> sync_route_finish re now dst req ret s = Inr s' \<Longrightarrow> service_reach cur s'"
| service_handle: "service_reach cur s \<Longrightarrow> sync_route_info re now rid req raws s = Some (Inr (resp, s')) \<Longrightarrow> service_reach cur s'"
| service_clean: "service_reach cur s \<Longrightarrow> service_reach cur (clean_dst_saved_map now dst s)"
| service_end: "service_reach cur s \<Longrightarrow> service_reach cur (end_task p s)"
| service_other: "service_reach cur s \<Longrightarrow> sessions s' = sessions s \<Longrightarrow> service_reach cur s'"

inductive_cases service_reachE: "service_reach cur s"

definition initiator_inv :: "PeerId option \<Rightarrow> 'r PeerRouteServiceImpl \<Rightarrow> bool" where
  "initiator_inv cur s \<longleftrightarrow>
     (\<forall>p ss. get_session p s = Some ss \<longrightarrow> dst_peer_id ss = p \<and> (we_are_initiator ss \<longrightarrow> cur = Some p))"

lemma initiator_invI:
  "(\<And>p ss. get_session p s = Some ss \<Longrightarrow> dst_peer_id ss = p \<and> (we_are_initiator ss \<longrightarrow> cur = Some p)) \<Longrightarrow> initiator_inv cur s"
  by (simp add: initiator_inv_def)

lemma initiator_invD:
  "initiator_inv cur s \<Longrightarrow> get_session p s = Some ss \<Longrightarrow> dst_peer_id ss = p"
  "initiator_inv cur s \<Longrightarrow> get_session p s = Some ss \<Longrightarrow> we_are_initiator ss \<Longrightarrow> cur = Some p"
  by (simp_all add: initiator_inv_def)

lemma initiator_inv_kept:
  assumes "initiator_inv cur s"
    and "\<And>p ss'. get_session p s' = Some ss' \<Longrightarrow> (\<exists>ss. get_session p s = Some ss \<and> session_kept ss ss') \<or>
      dst_peer_id ss' = p \<and> \<not> we_are_initiator ss'"
  shows "initiator_inv cur s'"
proof (rule initiator_invI)
  fix p ss'
  assume "get_session p s' = Some ss'"
  from assms(2) [OF this] show "dst_peer_id ss' = p \<and> (we_are_initiator ss' \<longrightarrow> cur = Some p)"
    using initiator_invD [OF assms(1)] by (auto simp: session_kept_def)
qed

lemma initiator_inv_put:
  assumes "initiator_inv cur s" and "get_session p s = Some ss" and "session_kept ss ss'"
  shows "initiator_inv cur (put_session p ss' s)"
  by (rule initiator_inv_kept [OF assms(1)]) (use assms(2,3) in \<open>auto split: if_splits\<close>)

lemma initiator_inv_remove: "initiator_inv cur s \<Longrightarrow> initiator_inv cur (remove_session p s)"
  by (auto simp: initiator_inv_def)

subsection \<open>A turn of the maintenance\<close>

lemma stop_gone_eq:
  "stop_gone peers p (cur, s) = (if p \<in> set peers then (cur, s) else (if Some p = cur then None else cur, remove_session p s))"
  by (simp add: stop_gone_def)

lemma stop_gone_fold:
  "fold (stop_gone peers) ps (cur, s) = (cur', s') \<Longrightarrow> (initiator_inv cur s \<longrightarrow> initiator_inv cur' s') \<and> route_table s' = route_table s \<and>
     (\<forall>q\<in>set peers. get_session q s' = get_session q s \<and> (cur = Some q \<longrightarrow> cur' = Some q)) \<and> (cur' = cur \<or> cur' = None)"
proof (induction ps arbitrary: cur s)
  case (Cons p ps)
  show ?case
  proof (cases "p \<in> set peers")
    case True
    then show ?thesis
      using Cons by (simp add: stop_gone_eq)
  next
    case False
    let ?cur = "if Some p = cur then None else cur"
    have "initiator_inv ?cur (remove_session p s)" if "initiator_inv cur s"
      using initiator_invD [OF that] by (auto intro!: initiator_invI split: if_splits)
    moreover have "fold (stop_gone peers) ps (?cur, remove_session p s) = (cur', s')"
      using Cons.prems False by (simp add: stop_gone_eq)
    note Cons.IH [OF this]
    ultimately show ?thesis
      using False by auto
  qed
qed simp

lemma switch_initiator_inv:
  assumes "initiator_inv cur s" and "switch_initiator rid dst (cur, s) = (cur', s')"
  shows "initiator_inv cur' s'"
proof (cases "cur = Some dst")
  case False
  define s1 where "s1 = (case cur of Some c \<Rightarrow> flag_session False c s | None \<Rightarrow> s)"
  have s1: "\<not> we_are_initiator ss \<and> dst_peer_id ss = p" if "get_session p s1 = Some ss" for p ss
    using that initiator_invD [OF assms(1)] False
    by (cases cur) (auto simp: s1_def flag_session_def update_initiator_flag_def split: option.splits if_splits)
  obtain s2 where s2: "get_or_start_session rid dst s1 = ((session_for rid dst s1)\<lparr>task_is_running := True\<rparr>, s2)"
      "\<forall>q. get_session q s2 = (if q = dst then Some ((session_for rid dst s1)\<lparr>task_is_running := True\<rparr>) else get_session q s1)"
    using start_session_others by blast
  have "dst_peer_id (session_for rid dst s1) = dst"
    using s1 by (auto simp: session_for_def SyncRouteSession_new_def split: option.split)
  moreover have "get_session p s2 = Some ss \<Longrightarrow> p \<noteq> dst \<Longrightarrow> \<not> we_are_initiator ss \<and> dst_peer_id ss = p" for p ss
    using s1 [of p ss] s2(2) by simp
  moreover have "cur' = Some dst" "s' = put_session dst (update_initiator_flag True ((session_for rid dst s1)\<lparr>task_is_running := True\<rparr>)) s2"
    using assms(2) False s2(1) by (auto simp: switch_initiator_def s1_def [symmetric])
  ultimately show ?thesis
    by (auto simp: update_initiator_flag_def intro!: initiator_invI split: if_splits)
qed (use assms in \<open>simp add: switch_initiator_def\<close>)

lemma stop_idle_fold: "initiator_inv cur s \<Longrightarrow> initiator_inv cur (fold stop_idle ps s)"
  by (induction ps arbitrary: s) (simp_all add: stop_idle_def initiator_inv_remove split: option.split)

lemma maintain_turn_inv:
  assumes "initiator_inv cur s" and "maintain_turn rid peers (cur, s) = (cur', s')"
  shows "initiator_inv cur' s'"
proof -
  obtain cur1 s1 where 1: "fold (stop_gone (sort peers)) (list_session_peers s) (cur, s) = (cur1, s1)"
    by (cases "fold (stop_gone (sort peers)) (list_session_peers s) (cur, s)")
  obtain cur2 s2 where 2: "switch_initiator rid (choose_initiator_dst (route_table s1) (initiator_candidates (sort peers) s1)) (cur1, s1) = (cur2, s2)"
    by (cases "switch_initiator rid (choose_initiator_dst (route_table s1) (initiator_candidates (sort peers) s1)) (cur1, s1)")
  have "initiator_inv cur1 s1" "initiator_inv cur2 s2"
    using stop_gone_fold [OF 1] assms(1) switch_initiator_inv [OF _ 2] by blast+
  then show ?thesis
    using assms(2) 1 2 stop_idle_fold by (auto simp: maintain_turn_def Let_def split: if_splits)
qed

lemma service_reach_inv: "service_reach cur s \<Longrightarrow> initiator_inv cur s"
proof (induction rule: service_reach.induct)
  case (service_new my rid now)
  then show ?case
    by (simp add: initiator_inv_def get_session_def PeerRouteServiceImpl_new_def)
next
  case (service_turn cur s rid peers cur' s')
  then show ?case
    using maintain_turn_inv by blast
next
  case (service_start cur s re now dst init r s')
  show ?case
  proof (cases "get_session dst s")
    case None
    then show ?thesis
      using service_start by (simp add: sync_route_start_def)
  next
    case (Some ss)
    obtain ss' where "touched ss ss'" "s' = put_session dst ss' s \<or> s' = put_session dst (ss'\<lparr>need_sync_initiator_info := False\<rparr>) s"
      using sync_route_start_eq [OF Some, of re now init] service_start.hyps(2) by (auto split: if_splits)
    then show ?thesis
      using initiator_inv_put [OF service_start.IH Some] session_kept_touched by blast
  qed
next
  case (service_finish cur s re now dst req ret s')
  show ?case
  proof (cases "get_session dst s")
    case None
    then show ?thesis
      using service_finish by (simp add: sync_route_finish_def)
  next
    case (Some ss)
    then obtain ss' where "session_sync_finish (re_ctx re) now dst req ret ss = Inr ss'" "s' = put_session dst ss' s"
      using service_finish.hyps(2) by (auto simp: sync_route_finish_def rbind_eq_Inr_iff)
    then show ?thesis
      using initiator_inv_put [OF service_finish.IH Some] session_sync_finish_kept by blast
  qed
next
  case (service_handle cur s re now rid req raws resp s')
  obtain raws' r where "do_sync_route_info re now rid req raws' s = Some (Inr (r, s'))"
    using service_handle.hyps(2) by (auto simp: sync_route_info_def sbind_eq_Inr)
  then obtain ss' where ss': "session_kept (session_for rid (req_my_peer_id req) s) ss'"
      "\<forall>q. get_session q s' = (if q = req_my_peer_id req then Some ss' else get_session q s)"
    using do_sync_sessions by blast
  then show ?case
    by (intro initiator_inv_kept [OF service_handle.IH])
      (auto simp: session_for_def session_kept_def SyncRouteSession_new_def split: if_splits option.splits)
next
  case (service_clean cur s now dst)
  have "session_kept ss (session_clean_dst_saved_map now ss)" for ss
    by (simp add: session_kept_def session_clean_dst_saved_map_def)
  then show ?case
    using initiator_inv_put [OF service_clean.IH] service_clean.IH by (auto simp: clean_dst_saved_map_def split: option.split)
next
  case (service_end cur s p)
  have "session_kept ss (ss\<lparr>task_is_running := False\<rparr>)" for ss
    by (simp add: session_kept_def)
  then show ?case
    using initiator_inv_put [OF service_end.IH] service_end.IH by (auto simp: end_task_def split: option.split)
next
  case (service_other cur s s')
  then show ?case
    using get_session_cong [OF service_other.hyps(2)] by (simp add: initiator_inv_def)
qed

text \<open>
  C13: A node initiates at most one session. Whatever turns of the maintenance, rounds at either end,
  cleanings and ends of tasks came before, a session is kept under the id of the neighbour it is
  with, and the only one that carries this node's initiator flag is that with the neighbour the
  maintenance has chosen.
\<close>

theorem single_initiator:
  assumes "service_reach cur s" and "get_session p s = Some ss"
  shows "dst_peer_id ss = p \<and> (we_are_initiator ss \<longrightarrow> cur = Some p \<and>
    (\<forall>q ss'. get_session q s = Some ss' \<and> we_are_initiator ss' \<longrightarrow> q = p))"
proof -
  note inv = initiator_invD [OF service_reach_inv [OF assms(1)]]
  have "q = p" if "we_are_initiator ss" "get_session q s = Some ss'" "we_are_initiator ss'" for q ss'
    using inv(2) [OF assms(2) that(1)] inv(2) [OF that(2,3)] by simp
  then show ?thesis
    using inv [OF assms(2)] by blast
qed

section \<open>The chosen neighbour\<close>

lemma choose_in: "cands \<noteq> [] \<Longrightarrow> choose_initiator_dst rt cands \<in> set cands"
  by (auto simp: choose_initiator_dst_def find_Some_iff split: option.split)

lemma candidates_cong:
  assumes "\<And>q. q \<in> set peers \<Longrightarrow> get_session q s' = get_session q s"
  shows "initiator_candidates peers s' = initiator_candidates peers s"
  unfolding initiator_candidates_def by (rule filter_cong) (simp_all add: assms)

text \<open>A turn in terms of the state before it.\<close>

lemma maintain_turn_eq:
  assumes "initiator_candidates (sort peers) s \<noteq> []"
  obtains cur1 s1 where "maintain_turn rid peers (cur, s) = (let (cur, s2) =
      switch_initiator rid (choose_initiator_dst (route_table s) (initiator_candidates (sort peers) s)) (cur1, s1)
      in (cur, fold stop_idle (list_session_peers s) s2))"
    and "\<forall>q\<in>set peers. get_session q s1 = get_session q s \<and> (cur = Some q \<longrightarrow> cur1 = Some q)" and "cur1 = cur \<or> cur1 = None"
proof -
  obtain cur1 s1 where 1: "fold (stop_gone (sort peers)) (list_session_peers s) (cur, s) = (cur1, s1)"
    by (cases "fold (stop_gone (sort peers)) (list_session_peers s) (cur, s)")
  note facts = stop_gone_fold [OF 1]
  have "initiator_candidates (sort peers) s1 = initiator_candidates (sort peers) s"
    by (rule candidates_cong) (use facts in simp)
  then show ?thesis
    using that [of cur1 s1] 1 facts assms by (simp add: maintain_turn_def)
qed

lemma get_stop_idle: "get_session c (stop_idle p s) = (if p = c then (case get_session c s of
    Some ss \<Rightarrow> if (dst_is_initiator ss \<or> we_are_initiator ss \<or> need_sync_initiator_info ss) \<and> task_is_running ss then Some ss else None
  | None \<Rightarrow> None) else get_session c s)"
  by (auto simp: stop_idle_def split: option.split)

lemma stop_idle_keeps:
  "get_session c s = Some ss \<Longrightarrow> we_are_initiator ss \<Longrightarrow> task_is_running ss \<Longrightarrow> get_session c (fold stop_idle ps s) = Some ss"
  by (induction ps arbitrary: s) (simp_all add: get_stop_idle)

lemma stop_idle_none: "get_session c s = None \<Longrightarrow> get_session c (fold stop_idle ps s) = None"
  by (induction ps arbitrary: s) (simp_all add: get_stop_idle)

lemma stop_idle_dead:
  "get_session c s = Some ss \<Longrightarrow> \<not> task_is_running ss \<Longrightarrow> c \<in> set ps \<Longrightarrow> get_session c (fold stop_idle ps s) = None"
proof (induction ps arbitrary: s)
  case (Cons p ps)
  then show ?case
    by (cases "p = c") (simp_all add: get_stop_idle stop_idle_none)
qed simp

text \<open>
  C14: A neighbour newly chosen is told at once. After a turn in which the choice falls on another
  neighbour there is a session with it, its task runs, the turn's own sweep has not removed it, and the
  next round sends a request that says this node initiates, even if there is nothing else to send.
\<close>

theorem new_initiator_announced:
  assumes "maintain_turn rid peers (cur, s) = (Some c, s')" and "cur \<noteq> Some c" and "initiator_candidates (sort peers) s \<noteq> []"
  shows "c \<in> set peers \<and> (\<exists>ss. get_session c s' = Some ss \<and> task_is_running ss \<and>
    (\<exists>req raws s''. sync_route_start re now c init s' = (Some (req, raws), s'') \<and> req_is_initiator req \<and> req_my_peer_id req = svc_my_peer_id s'))"
proof -
  obtain cur1 s1 where turn: "maintain_turn rid peers (cur, s) = (let (cur, s2) =
      switch_initiator rid (choose_initiator_dst (route_table s) (initiator_candidates (sort peers) s)) (cur1, s1)
      in (cur, fold stop_idle (list_session_peers s) s2))" and cur1: "cur1 = cur \<or> cur1 = None"
    by (rule maintain_turn_eq [OF assms(3)])
  define s1' where "s1' = (case cur1 of Some c \<Rightarrow> flag_session False c s1 | None \<Rightarrow> s1)"
  obtain s2 where s2: "get_or_start_session rid c s1' = ((session_for rid c s1')\<lparr>task_is_running := True\<rparr>, s2)"
    using start_session_others by blast
  let ?ss = "update_initiator_flag True ((session_for rid c s1')\<lparr>task_is_running := True\<rparr>)"
  have c: "c = choose_initiator_dst (route_table s) (initiator_candidates (sort peers) s)"
    using assms(1,2) cur1 unfolding turn by (auto simp: switch_initiator_def Let_def split: prod.splits if_splits)
  then have "c \<in> set peers"
    using choose_in [OF assms(3), of "route_table s"] by (simp add: initiator_candidates_def)
  have "s' = fold stop_idle (list_session_peers s) (put_session c ?ss s2)"
    using assms(1,2) cur1 s2 unfolding turn c [symmetric] by (auto simp: switch_initiator_def s1'_def [symmetric] split: if_splits)
  then have ss: "get_session c s' = Some ?ss"
    using stop_idle_keeps [of c "put_session c ?ss s2" ?ss] by (simp add: update_initiator_flag_def)
  have "task_is_running ?ss" "we_are_initiator ?ss" "need_sync_initiator_info ?ss"
    by (simp_all add: update_initiator_flag_def)
  then show ?thesis
    using \<open>c \<in> set peers\<close> ss sync_route_start_eq [OF ss, of re now init] by auto
qed

text \<open>
  A lost initiator session is not opened again. If the session with the chosen neighbour is gone or its
  task has ended, a turn in which the choice falls on that neighbour again removes what is left of
  the session, and, as the choice has not changed, opens none: from then on every such turn leaves
  the node without it.
\<close>

theorem dead_initiator_not_restarted:
  assumes "c \<in> set peers" and "choose_initiator_dst (route_table s) (initiator_candidates (sort peers) s) = c"
    and "case get_session c s of Some ss \<Rightarrow> \<not> task_is_running ss \<and> \<not> dst_is_initiator ss | None \<Rightarrow> True"
  shows "\<exists>s'. maintain_turn rid peers (Some c, s) = (Some c, s') \<and> get_session c s' = None"
proof -
  have "c \<in> set (initiator_candidates (sort peers) s)"
    using assms(1,3) by (auto simp: initiator_candidates_def split: option.splits)
  then have "initiator_candidates (sort peers) s \<noteq> []"
    by auto
  then obtain cur1 s1 where turn: "maintain_turn rid peers (Some c, s) = (let (cur, s2) =
      switch_initiator rid (choose_initiator_dst (route_table s) (initiator_candidates (sort peers) s)) (cur1, s1)
      in (cur, fold stop_idle (list_session_peers s) s2))"
    and same: "\<forall>q\<in>set peers. get_session q s1 = get_session q s \<and> (Some c = Some q \<longrightarrow> cur1 = Some q)"
    by (rule maintain_turn_eq)
  have "cur1 = Some c" "get_session c s1 = get_session c s"
    using same assms(1) by auto
  moreover have "c \<in> set (list_session_peers s)" if "get_session c s \<noteq> None"
    using that by (simp add: get_session_def list_session_peers_def map_of_eq_None_iff)
  ultimately have "get_session c (fold stop_idle (list_session_peers s) s1) = None"
    using assms(3) stop_idle_none [of c s1] stop_idle_dead [of c s1] by (cases "get_session c s") auto
  then show ?thesis
    using turn assms(2) \<open>cur1 = Some c\<close> by (simp add: switch_initiator_def)
qed

text \<open>A node with one neighbour.\<close>

definition sample_node :: "u32 PeerRouteServiceImpl" where
  "sample_node = PeerRouteServiceImpl_new 1 0 0"

lemmas sample_node_eval = maintain_turn_def sample_node_def PeerRouteServiceImpl_new_def list_session_peers_def
  initiator_candidates_def get_session_def choose_initiator_dst_def open_nat_def RouteTable_new_def get_nat_type_def

lemma sample_turn: "\<exists>s' ss. maintain_turn 5 [2] (None, sample_node) = (Some 2, s') \<and> get_session 2 s' = Some ss \<and> we_are_initiator ss"
  by (simp add: sample_node_eval switch_initiator_def get_or_start_session_def get_or_create_session_def Let_def put_session_def
      update_initiator_flag_def)

theorem single_initiator_witness:
  "\<exists>s' ss. maintain_turn 5 [2] (None, sample_node) = (Some 2, s') \<and> get_session 2 s' = Some ss \<and> dst_peer_id ss = 2 \<and> we_are_initiator ss"
proof -
  obtain s' ss where t: "maintain_turn 5 [2] (None, sample_node) = (Some 2, s')" "get_session 2 s' = Some ss" "we_are_initiator ss"
    using sample_turn by blast
  have "service_reach (Some 2) s'"
    using service_turn [OF service_new] t(1) unfolding sample_node_def by blast
  then show ?thesis
    using single_initiator [of "Some 2" s' 2 ss] t by auto
qed

theorem new_initiator_announced_witness:
  "\<exists>s' req raws s''. maintain_turn 5 [2] (None, sample_node) = (Some 2, s') \<and>
     sync_route_start sample_re 0 2 False s' = (Some (req, raws), s'') \<and> req_is_initiator req"
proof -
  obtain s' where t: "maintain_turn 5 [2] (None, sample_node) = (Some 2, s')"
    using sample_turn by blast
  have "initiator_candidates (sort [2]) sample_node \<noteq> []"
    by (simp add: sample_node_eval)
  from new_initiator_announced [OF t _ this, of sample_re 0 False] show ?thesis
    using t by auto
qed

theorem dead_initiator_not_restarted_witness:
  "\<exists>s'. maintain_turn 5 [2] (Some 2, sample_node\<lparr>sessions := [(2, (SyncRouteSession_new 5 2)\<lparr>we_are_initiator := True\<rparr>)]\<rparr>) = (Some 2, s') \<and>
     get_session 2 s' = None"
  by (rule dead_initiator_not_restarted) (simp_all add: sample_node_eval SyncRouteSession_new_def)

end
