(* ===== verification/Peer_Center.thy ===== *)
theory Peer_Center
  imports Ospf_Next_Hop
begin

text \<open>
  The peer center, \<open>src/easytier/src/peer_center/\<close>: the peer with the least id collects from every peer
  the latencies to its direct neighbours, all peers fetch the collection from it when its digest
  has changed, and the routing takes its link costs from the fetched copy. The center's table is
  an association list in the order the concurrent map iterates; the standard library's hasher is a
  parameter, applied to the sorted list of pairs. Latencies are the protocol's \<open>int32\<close> as bit patterns.
\<close>

section \<open>Messages\<close>

type_synonym Digest = u64

record DirectConnectedPeerInfo =
  latency_ms :: u32

type_synonym PeerInfoForGlobalMap = "(PeerId \<times> DirectConnectedPeerInfo) list"
type_synonym GlobalPeerMap = "(PeerId \<times> PeerInfoForGlobalMap) list"

record GetGlobalPeerMapResponse =
  rsp_global_peer_map :: GlobalPeerMap
  rsp_digest :: "Digest option"

definition GetGlobalPeerMapResponse_default :: GetGlobalPeerMapResponse where
  "GetGlobalPeerMapResponse_default = \<lparr>rsp_global_peer_map = [], rsp_digest = None\<rparr>"

text \<open>
  The report of a peer about its neighbours: for each the statistics of its connections, of which
  only the latency in microseconds is read. The least is cut to 32 bits and turned to milliseconds.
\<close>

definition direct_info :: "u64 \<Rightarrow> DirectConnectedPeerInfo" where
  "direct_info min_lat =
     (let ms = (ucast min_lat :: u32) div 1000 in \<lparr>latency_ms = (if sint ms \<le> 1 then 1 else ms)\<rparr>)"

fun unwrap_all :: "'a option list \<Rightarrow> 'a list may_panic" where
  "unwrap_all [] = Inr []"
| "unwrap_all (x # xs) = rbind (unwrap x) (\<lambda>y. rbind (unwrap_all xs) (\<lambda>ys. Inr (y # ys)))"

fun peer_map_loop :: "(PeerId \<times> u64 option list) list \<Rightarrow> PeerInfoForGlobalMap \<Rightarrow> PeerInfoForGlobalMap may_panic" where
  "peer_map_loop [] m = Inr m"
| "peer_map_loop ((p, conns) # peers) m =
     rbind (unwrap_all conns) (\<lambda>lats.
       if lats = [] then peer_map_loop peers m
       else peer_map_loop peers (AList.update p (direct_info (Min (set lats))) m))"

definition PeerInfoForGlobalMap_from :: "(PeerId \<times> u64 option list) list \<Rightarrow> PeerInfoForGlobalMap may_panic" where
  "PeerInfoForGlobalMap_from peers = peer_map_loop peers []"

section \<open>The center\<close>

datatype SrcDstPeerPair = SrcDst (pp_src: PeerId) (pp_dst: PeerId)

instantiation SrcDstPeerPair :: linorder
begin

definition less_eq_SrcDstPeerPair :: "SrcDstPeerPair \<Rightarrow> SrcDstPeerPair \<Rightarrow> bool" where
  "less_eq_SrcDstPeerPair a b \<longleftrightarrow> pp_src a < pp_src b \<or> pp_src a = pp_src b \<and> pp_dst a \<le> pp_dst b"

definition less_SrcDstPeerPair :: "SrcDstPeerPair \<Rightarrow> SrcDstPeerPair \<Rightarrow> bool" where
  "less_SrcDstPeerPair a b \<longleftrightarrow> pp_src a < pp_src b \<or> pp_src a = pp_src b \<and> pp_dst a < pp_dst b"

instance
  by standard (auto simp: less_eq_SrcDstPeerPair_def less_SrcDstPeerPair_def SrcDstPeerPair.expand)

end

record PeerCenterInfoEntry =
  ce_info :: DirectConnectedPeerInfo
  ce_update_time :: time

record PeerCenterServerGlobalData =
  global_peer_map :: "(SrcDstPeerPair \<times> PeerCenterInfoEntry) list"
  peer_report_time :: "(PeerId \<times> time) list"
  gd_digest :: Digest

definition PeerCenterServerGlobalData_default :: PeerCenterServerGlobalData where
  "PeerCenterServerGlobalData_default = \<lparr>global_peer_map = [], peer_report_time = [], gd_digest = 0\<rparr>"

definition outdated :: "time \<Rightarrow> time \<Rightarrow> bool" where
  "outdated now t \<longleftrightarrow> \<not> now - t < secs 180"

definition clean_outdated_peer :: "time \<Rightarrow> PeerCenterServerGlobalData \<Rightarrow> PeerCenterServerGlobalData" where
  "clean_outdated_peer now data =
     data\<lparr>peer_report_time := filter (\<lambda>(p, t). \<not> outdated now t) (peer_report_time data),
          global_peer_map := filter (\<lambda>(pair, e). \<not> outdated now (ce_update_time e)) (global_peer_map data)\<rparr>"

definition calc_global_digest :: "(SrcDstPeerPair list \<Rightarrow> u64) \<Rightarrow> PeerCenterServerGlobalData \<Rightarrow> Digest" where
  "calc_global_digest hash data = hash (sort (map fst (global_peer_map data)))"

definition report_pairs ::
  "time \<Rightarrow> PeerId \<Rightarrow> PeerInfoForGlobalMap \<Rightarrow> (SrcDstPeerPair \<times> PeerCenterInfoEntry) list \<Rightarrow> (SrcDstPeerPair \<times> PeerCenterInfoEntry) list" where
  "report_pairs now src peers m =
     fold (\<lambda>(dst, info). AList.update (SrcDst src dst) \<lparr>ce_info = info, ce_update_time = now\<rparr>) peers m"

definition report_peers ::
  "(SrcDstPeerPair list \<Rightarrow> u64) \<Rightarrow> time \<Rightarrow> PeerId \<Rightarrow> PeerInfoForGlobalMap option \<Rightarrow> PeerCenterServerGlobalData \<Rightarrow>
     PeerCenterServerGlobalData" where
  "report_peers hash now my_peer_id infos data =
     (let peers = (case infos of Some m \<Rightarrow> m | None \<Rightarrow> []);
          data = data\<lparr>peer_report_time := AList.update my_peer_id now (peer_report_time data)\<rparr>;
          data = data\<lparr>global_peer_map := report_pairs now my_peer_id peers (global_peer_map data)\<rparr>
      in data\<lparr>gd_digest := calc_global_digest hash data\<rparr>)"

definition group_pairs :: "(SrcDstPeerPair \<times> PeerCenterInfoEntry) list \<Rightarrow> GlobalPeerMap" where
  "group_pairs m =
     fold (\<lambda>(pair, e) g.
         AList.update (pp_src pair)
           (AList.update (pp_dst pair) (ce_info e) (case map_of g (pp_src pair) of Some d \<Rightarrow> d | None \<Rightarrow> [])) g) m []"

definition get_global_peer_map :: "Digest \<Rightarrow> PeerCenterServerGlobalData \<Rightarrow> GetGlobalPeerMapResponse" where
  "get_global_peer_map digest data =
     (if digest = gd_digest data \<and> digest \<noteq> 0 then GetGlobalPeerMapResponse_default
      else \<lparr>rsp_global_peer_map = group_pairs (global_peer_map data), rsp_digest = Some (gd_digest data)\<rparr>)"

section \<open>The peers\<close>

text \<open>The center as a peer sees it: the least id of itself and the routes that are no public servers.\<close>

definition select_center_peer :: "PeerId \<Rightarrow> (PeerId \<times> PeerFeatureFlag option) list \<Rightarrow> PeerId option" where
  "select_center_peer my_peer_id routes =
     (if routes = [] then None
      else Some (fold (\<lambda>(p, flag) least. if (case flag of Some f \<Rightarrow> \<not> is_public_server f | None \<Rightarrow> True) \<and> p < least then p else least)
             routes my_peer_id))"

record PeerCenterInstance =
  pc_global_peer_map :: GlobalPeerMap
  pc_digest :: Digest
  pc_update_time :: time

definition PeerCenterInstance_new :: "time \<Rightarrow> PeerCenterInstance" where
  "PeerCenterInstance_new now = \<lparr>pc_global_peer_map = [], pc_digest = 0, pc_update_time = now\<rparr>"

text \<open>A turn of the job that fetches the collection: the digest it sends, and what it does with the answer.\<close>

definition fetch_start :: "time \<Rightarrow> PeerCenterInstance \<Rightarrow> PeerCenterInstance" where
  "fetch_start now c = (if (now - pc_update_time c) div secs 1 > 120 then c\<lparr>pc_digest := 0\<rparr> else c)"

definition fetch_finish :: "time \<Rightarrow> GetGlobalPeerMapResponse option \<Rightarrow> PeerCenterInstance \<Rightarrow> PeerCenterInstance" where
  "fetch_finish now ret c =
     (case ret of
        None \<Rightarrow> c
      | Some resp \<Rightarrow>
          if resp = GetGlobalPeerMapResponse_default then c
          else \<lparr>pc_global_peer_map = rsp_global_peer_map resp,
                pc_digest = (case rsp_digest resp of Some d \<Rightarrow> d | None \<Rightarrow> 0), pc_update_time = now\<rparr>)"

text \<open>A turn of the job that reports: whether it is due, and what is remembered of it.\<close>

record report_ctx =
  last_report_peers :: "PeerId set"
  last_center_peer :: PeerId
  last_report_time :: time

definition report_due :: "time \<Rightarrow> PeerId \<Rightarrow> PeerInfoForGlobalMap \<Rightarrow> report_ctx \<Rightarrow> bool" where
  "report_due now center peers ctx \<longleftrightarrow>
     \<not> (center = last_center_peer ctx \<and> (now - last_report_time ctx) div secs 1 < 60 \<and> last_report_peers ctx = set (map fst peers))"

definition report_done :: "time \<Rightarrow> PeerId \<Rightarrow> PeerInfoForGlobalMap \<Rightarrow> bool \<Rightarrow> report_ctx \<Rightarrow> report_ctx" where
  "report_done now center peers ok ctx =
     (if ok then \<lparr>last_report_peers = set (map fst peers), last_center_peer = center, last_report_time = now\<rparr> else ctx)"

section \<open>Link costs\<close>

record RouteCostCalculatorImpl =
  global_peer_map_clone :: GlobalPeerMap
  last_update_time :: time

definition get_cost_calculator :: "PeerCenterInstance \<Rightarrow> RouteCostCalculatorImpl may_panic" where
  "get_cost_calculator c =
     rbind (rassert (secs 1 \<le> pc_update_time c) ArithmeticOverflow) (\<lambda>_.
       Inr \<lparr>global_peer_map_clone = [], last_update_time = pc_update_time c - secs 1\<rparr>)"

definition directed_cost :: "RouteCostCalculatorImpl \<Rightarrow> PeerId \<Rightarrow> PeerId \<Rightarrow> u32 option" where
  "directed_cost rc src dst =
     map_option latency_ms (Option.bind (map_of (global_peer_map_clone rc) src) (\<lambda>peers. map_of peers dst))"

definition calculate_cost :: "RouteCostCalculatorImpl \<Rightarrow> PeerId \<Rightarrow> PeerId \<Rightarrow> u32" where
  "calculate_cost rc src dst =
     (case directed_cost rc src dst of
        Some c \<Rightarrow> c
      | None \<Rightarrow> (case directed_cost rc dst src of Some c \<Rightarrow> c | None \<Rightarrow> 500))"

definition begin_update :: "PeerCenterInstance \<Rightarrow> RouteCostCalculatorImpl \<Rightarrow> RouteCostCalculatorImpl" where
  "begin_update c rc = rc\<lparr>global_peer_map_clone := pc_global_peer_map c\<rparr>"

definition end_update :: "PeerCenterInstance \<Rightarrow> RouteCostCalculatorImpl \<Rightarrow> RouteCostCalculatorImpl" where
  "end_update c rc = rc\<lparr>last_update_time := pc_update_time c\<rparr>"

definition need_update :: "PeerCenterInstance \<Rightarrow> RouteCostCalculatorImpl \<Rightarrow> bool" where
  "need_update c rc \<longleftrightarrow> last_update_time rc < pc_update_time c"

section \<open>The collection as a function\<close>

definition lookup :: "GlobalPeerMap \<Rightarrow> PeerId \<Rightarrow> PeerId \<Rightarrow> DirectConnectedPeerInfo option" where
  "lookup g src dst = Option.bind (map_of g src) (\<lambda>peers. map_of peers dst)"

lemma lookup_update:
  "lookup (AList.update s (AList.update d i (case map_of g s of Some m \<Rightarrow> m | None \<Rightarrow> [])) g) s' d' =
     (if s' = s \<and> d' = d then Some i else lookup g s' d')"
  by (auto simp: lookup_def update_conv' split: option.split)

lemma lookup_group:
  assumes "distinct (map fst m)"
  shows "lookup (group_pairs m) s d = map_option ce_info (map_of m (SrcDst s d))"
proof -
  let ?step = "\<lambda>(pair, e) g. AList.update (pp_src pair)
    (AList.update (pp_dst pair) (ce_info e) (case map_of g (pp_src pair) of Some d \<Rightarrow> d | None \<Rightarrow> [])) g"
  have "lookup (fold ?step m g) s d = (case map_of m (SrcDst s d) of Some e \<Rightarrow> Some (ce_info e) | None \<Rightarrow> lookup g s d)" for g
    using assms
  proof (induction m arbitrary: g)
    case (Cons x m)
    obtain a b e where x: "x = (SrcDst a b, e)"
      by (metis SrcDstPeerPair.exhaust surj_pair)
    have "SrcDst a b \<notin> fst ` set m"
      using Cons.prems by (simp add: x)
    then have "map_of m (SrcDst a b) = None"
      by (simp add: map_of_eq_None_iff)
    then show ?case
      using Cons by (auto simp: x lookup_update split: option.split)
  qed simp
  from this [of "[]"] show ?thesis
    by (simp add: group_pairs_def lookup_def split: option.split)
qed

lemma directed_cost_lookup: "directed_cost rc s d = map_option latency_ms (lookup (global_peer_map_clone rc) s d)"
  by (simp add: directed_cost_def lookup_def)

lemma distinct_report: "distinct (map fst m) \<Longrightarrow> distinct (map fst (report_pairs now src peers m))"
  unfolding report_pairs_def by (induction peers arbitrary: m) (auto simp: distinct_update)

lemma map_of_report:
  "map_of (report_pairs now src peers m) pair =
     (if pp_src pair = src \<and> pp_dst pair \<in> fst ` set peers
      then Some \<lparr>ce_info = the (map_of (rev peers) (pp_dst pair)), ce_update_time = now\<rparr> else map_of m pair)"
proof (induction peers rule: rev_induct)
  case (snoc x peers)
  then show ?case
    by (cases x; cases pair) (force simp: report_pairs_def update_conv')
qed (simp add: report_pairs_def)

section \<open>Runs of the system\<close>

text \<open>
  The center, one peer that fetches from it and the cost calculator of that peer's routing; all peers report
  what they measured, at any times and in any order with cleanings, fetches, failed fetches and updates of the costs.
\<close>

inductive center_run ::
  "(SrcDstPeerPair list \<Rightarrow> u64) \<Rightarrow> PeerCenterServerGlobalData \<Rightarrow> PeerCenterInstance \<Rightarrow> RouteCostCalculatorImpl \<Rightarrow> bool" for hash where
  run_new: "get_cost_calculator (PeerCenterInstance_new now) = Inr rc \<Longrightarrow>
    center_run hash PeerCenterServerGlobalData_default (PeerCenterInstance_new now) rc"
| run_report: "center_run hash data c rc \<Longrightarrow> PeerInfoForGlobalMap_from peers = Inr infos \<Longrightarrow>
    center_run hash (report_peers hash now p (Some infos) data) c rc"
| run_clean: "center_run hash data c rc \<Longrightarrow> center_run hash (clean_outdated_peer now data) c rc"
| run_fetch: "center_run hash data c rc \<Longrightarrow> ret \<in> {None, Some (get_global_peer_map (pc_digest (fetch_start t c)) data)} \<Longrightarrow>
    center_run hash data (fetch_finish now ret (fetch_start t c)) rc"
| run_begin: "center_run hash data c rc \<Longrightarrow> center_run hash data c (begin_update c rc)"
| run_end: "center_run hash data c rc \<Longrightarrow> center_run hash data c (end_update c rc)"

definition latency_ok :: "DirectConnectedPeerInfo \<Rightarrow> bool" where
  "latency_ok i \<longleftrightarrow> 1 \<le> unat (latency_ms i) \<and> unat (latency_ms i) \<le> 4294967"

lemma sint_small:
  fixes c :: u32
  assumes "unat c < 2 ^ 31"
  shows "sint c = int (unat c)"
proof -
  have "int (unat c) < int (2 ^ 31)"
    using assms by (simp only: of_nat_less_iff)
  then have "uint c < 2 ^ 31"
    by (simp add: uint_nat [of c] del: of_nat_unat)
  then have "signed_take_bit 31 (uint c) = uint c"
    by (intro signed_take_bit_int_eq_self) (simp_all add: order_trans [OF _ uint_ge_0])
  then show ?thesis
    by (simp add: sint_uint)
qed

lemma direct_info_ok: "latency_ok (direct_info lat)"
proof -
  let ?ms = "(ucast lat :: u32) div 1000"
  have le: "unat ?ms \<le> 4294967"
    using unsigned_less [of "ucast lat :: u32", where 'a = nat] unat_div [of "ucast lat :: u32" 1000] by simp
  then have sint: "sint ?ms = int (unat ?ms)"
    by (intro sint_small) simp
  show ?thesis
  proof (cases "sint ?ms \<le> 1")
    case False
    then have "1 \<le> unat ?ms"
      unfolding sint by linarith
    then show ?thesis
      using le False by (simp add: direct_info_def latency_ok_def Let_def)
  qed (simp add: direct_info_def latency_ok_def)
qed

lemma set_update_subset: "set (AList.update k v al) \<subseteq> insert (k, v) (set al)"
  by (induction al) auto

lemma report_of_peers_ok:
  assumes "PeerInfoForGlobalMap_from peers = Inr infos"
  shows "\<forall>(d, i)\<in>set infos. latency_ok i" and "distinct (map fst infos)"
proof -
  have "(\<forall>(d, i)\<in>set infos. latency_ok i) \<and> distinct (map fst infos)"
    if "peer_map_loop peers m = Inr infos" "\<forall>(d, i)\<in>set m. latency_ok i" "distinct (map fst m)" for m
    using that
  proof (induction peers arbitrary: m)
    case (Cons x peers)
    obtain p conns where x: "x = (p, conns)"
      by (cases x)
    obtain lats where lats: "unwrap_all conns = Inr lats"
      using Cons.prems(1) by (auto simp: x rbind_eq_Inr_iff)
    have "\<forall>(d, i)\<in>set (AList.update p (direct_info (Min (set lats))) m). latency_ok i"
      using set_update_subset [of p "direct_info (Min (set lats))" m] Cons.prems(2) direct_info_ok by fast
    then show ?case
      using Cons.IH [of m] Cons.IH [of "AList.update p (direct_info (Min (set lats))) m"] Cons.prems lats
      by (auto simp: x distinct_update split: if_splits)
  qed simp
  from this [of "[]"] show "\<forall>(d, i)\<in>set infos. latency_ok i" and "distinct (map fst infos)"
    using assms by (simp_all add: PeerInfoForGlobalMap_from_def)
qed

definition center_ok :: "PeerCenterServerGlobalData \<Rightarrow> bool" where
  "center_ok data \<longleftrightarrow> distinct (map fst (global_peer_map data)) \<and>
     (\<forall>pair e. map_of (global_peer_map data) pair = Some e \<longrightarrow> latency_ok (ce_info e))"

definition map_ok :: "GlobalPeerMap \<Rightarrow> bool" where
  "map_ok g \<longleftrightarrow> (\<forall>s d i. lookup g s d = Some i \<longrightarrow> latency_ok i)"

lemma center_ok_report:
  assumes "center_ok data" and "PeerInfoForGlobalMap_from peers = Inr infos"
  shows "center_ok (report_peers hash now p (Some infos) data)"
proof -
  have "latency_ok (the (map_of (rev infos) d))" if d: "d \<in> fst ` set infos" for d
  proof -
    obtain i where i: "map_of (rev infos) d = Some i"
      using d by (metis image_set map_of_eq_None_iff not_None_eq set_rev)
    then have "(d, i) \<in> set infos"
      using map_of_SomeD by fastforce
    then show ?thesis
      using report_of_peers_ok(1) [OF assms(2)] i by auto
  qed
  then show ?thesis
    using assms(1) by (auto simp: center_ok_def report_peers_def Let_def map_of_report distinct_report split: if_splits)
qed

lemma map_of_filter_Some: "distinct (map fst m) \<Longrightarrow> map_of (filter P m) k = Some v \<Longrightarrow> map_of m k = Some v"
  using map_of_SomeD [of "filter P m" k v] by (auto intro: map_of_is_SomeI)

lemma center_run_ok: "center_run hash data c rc \<Longrightarrow> center_ok data \<and> map_ok (pc_global_peer_map c) \<and> map_ok (global_peer_map_clone rc)"
proof (induction rule: center_run.induct)
  case (run_new now rc)
  then show ?case
    by (auto simp: center_ok_def PeerCenterServerGlobalData_default_def map_ok_def lookup_def PeerCenterInstance_new_def
        get_cost_calculator_def rbind_eq_Inr_iff)
next
  case (run_report data c rc peers infos now p)
  then show ?case
    using center_ok_report by blast
next
  case (run_clean data c rc now)
  then have "center_ok (clean_outdated_peer now data)"
    using map_of_filter_Some [of "global_peer_map data"]
    by (auto simp: center_ok_def clean_outdated_peer_def distinct_map_filter)
  then show ?case
    using run_clean by simp
next
  case (run_fetch data c rc ret t now)
  have "map_ok (group_pairs (global_peer_map data))"
    using run_fetch.IH by (auto simp: map_ok_def lookup_group center_ok_def)
  moreover have "pc_global_peer_map (fetch_start t c) = pc_global_peer_map c"
    by (simp add: fetch_start_def)
  ultimately show ?case
    using run_fetch by (auto simp: fetch_finish_def get_global_peer_map_def)
qed (simp_all add: begin_update_def end_update_def)

text \<open>
  C15: Routing by the costs of the peer center works. However reports, cleanings, fetches and updates of the costs
  interleave, the cost of a link is between one millisecond and 4294967 milliseconds, 500 where
  nothing is known; so a rebuild of the route table with these costs returns without a panic or an
  overflow, and every next hop is the first hop of a cheapest path.
\<close>

theorem center_costs_route:
  assumes "center_run hash data c rc" and "least_pick pick" and "distinct (map fst (peer_infos s))" and "known s my"
    and "older rt (synced_version s)"
  shows "(\<forall>u v. 1 \<le> unat (calculate_cost rc u v) \<and> unat (calculate_cost rc u v) \<le> 4294967) \<and>
    (\<exists>rt'. build_from_synced_info chk env pick hop_counts my s LeastCost (calculate_cost rc) rt = Some (Inr rt') \<and>
      (\<forall>dst. case get_next_hop rt' dst of
          None \<Rightarrow> \<not> (\<exists>f c k. walk (links s (calculate_cost rc)) my f c k dst)
        | Some h \<Rightarrow> hop_found (links s (calculate_cost rc)) my h dst))"
proof -
  have "directed_cost rc u v = Some x \<Longrightarrow> 1 \<le> unat x \<and> unat x \<le> 4294967" for u v x
    using center_run_ok [OF assms(1)] by (auto simp: directed_cost_lookup map_ok_def latency_ok_def)
  then have costs: "1 \<le> unat (calculate_cost rc u v) \<and> unat (calculate_cost rc u v) \<le> 4294967" for u v
    by (auto simp: calculate_cost_def split: option.split)
  then have "nonneg_costs (calculate_cost rc)"
    unfolding nonneg_costs_def by (intro allI le_less_trans [OF conjunct2 [OF costs]]) simp
  from build_least_cost_ok [OF assms(2-4) this assms(5)] show ?thesis
    using costs by blast
qed

section \<open>From a report to the costs\<close>

text \<open>
  C16: A reported latency becomes a link cost. After a report, a peer that fetches with a digest other
  than that of the center's pairs gets exactly the center's table, and the costs updated from it
  give the reported latency for every pair of the report.
\<close>

theorem center_report_reaches_costs:
  assumes "center_run hash data c rc" and "PeerInfoForGlobalMap_from peers = Inr infos"
    and "center = report_peers hash now p (Some infos) data"
    and "pc_digest (fetch_start t c) = 0 \<or> pc_digest (fetch_start t c) \<noteq> hash (sort (map fst (global_peer_map center)))"
    and "c' = fetch_finish now' (Some (get_global_peer_map (pc_digest (fetch_start t c)) center)) (fetch_start t c)"
  shows "(\<forall>s d. lookup (pc_global_peer_map c') s d = map_option ce_info (map_of (global_peer_map center) (SrcDst s d))) \<and>
    pc_digest c' = gd_digest center \<and>
    (\<forall>(d, i)\<in>set infos. calculate_cost (begin_update c' rc) p d = latency_ms i)"
proof -
  have center: "global_peer_map center = report_pairs now p infos (global_peer_map data)"
      "gd_digest center = hash (sort (map fst (global_peer_map center)))"
    by (simp_all add: assms(3) report_peers_def calc_global_digest_def Let_def)
  have "distinct (map fst (global_peer_map data))"
    using center_run_ok [OF assms(1)] by (simp add: center_ok_def)
  then have dist: "distinct (map fst (global_peer_map center))"
    unfolding center(1) by (rule distinct_report)
  have c': "pc_global_peer_map c' = group_pairs (global_peer_map center)" "pc_digest c' = gd_digest center"
    using assms(4) by (auto simp: assms(5) center(2) get_global_peer_map_def fetch_finish_def GetGlobalPeerMapResponse_default_def)
  have "lookup (pc_global_peer_map c') p d = Some i" if i: "(d, i) \<in> set infos" for d i
  proof -
    have d: "distinct (map fst infos)"
      by (rule report_of_peers_ok(2) [OF assms(2)])
    then have "map_of (rev infos) d = Some i"
      using i by (intro map_of_is_SomeI) (simp_all add: rev_map [symmetric])
    moreover have "d \<in> fst ` set infos"
      using i by force
    ultimately show ?thesis
      by (simp add: c'(1) lookup_group [OF dist]) (simp add: center(1) map_of_report)
  qed
  then have "\<forall>(d, i)\<in>set infos. calculate_cost (begin_update c' rc) p d = latency_ms i"
    by (auto simp: calculate_cost_def directed_cost_lookup begin_update_def)
  then show ?thesis
    using c' lookup_group [OF dist] by simp
qed

lemma update_known_key: "k \<in> fst ` set al \<Longrightarrow> map fst (AList.update k v al) = map fst al"
  by (induction al) auto

lemma report_known_pairs:
  "SrcDst src ` fst ` set peers \<subseteq> fst ` set m \<Longrightarrow> map fst (report_pairs now src peers m) = map fst m"
proof (induction peers arbitrary: m)
  case (Cons x peers)
  obtain d i where x: "x = (d, i)"
    by (cases x)
  have "map fst (AList.update (SrcDst src d) \<lparr>ce_info = i, ce_update_time = now\<rparr> m) = map fst m"
    using Cons.prems by (intro update_known_key) (auto simp: x)
  moreover from arg_cong [OF this, of set] have "SrcDst src ` fst ` set peers \<subseteq> fst ` set (AList.update (SrcDst src d) \<lparr>ce_info = i, ce_update_time = now\<rparr> m)"
    using Cons.prems by simp
  ultimately show ?case
    using Cons.IH by (simp add: report_pairs_def x)
qed (simp add: report_pairs_def)

text \<open>
  The digest does not cover all that is collected. A peer whose digest is the center's is not
  told of new latencies reported for pairs the center knows, nor of pairs the center has dropped as outdated:
  the center answers that nothing has changed.
\<close>

theorem center_digest_stale:
  assumes "gd_digest data = calc_global_digest hash data" and "gd_digest data \<noteq> 0" and "pc_digest c = gd_digest data"
    and "SrcDst p ` fst ` set infos \<subseteq> fst ` set (global_peer_map data)"
  shows "fetch_finish now' (Some (get_global_peer_map (pc_digest c) (report_peers hash now p (Some infos) data))) c = c \<and>
    fetch_finish now' (Some (get_global_peer_map (pc_digest c) (clean_outdated_peer now data))) c = c"
proof
  have "gd_digest (report_peers hash now p (Some infos) data) = gd_digest data"
    using assms(1) report_known_pairs [OF assms(4), of now] by (simp add: report_peers_def calc_global_digest_def Let_def)
  then show "fetch_finish now' (Some (get_global_peer_map (pc_digest c) (report_peers hash now p (Some infos) data))) c = c"
    using assms(2,3) by (simp add: get_global_peer_map_def fetch_finish_def)
  show "fetch_finish now' (Some (get_global_peer_map (pc_digest c) (clean_outdated_peer now data))) c = c"
    using assms(2,3) by (simp add: get_global_peer_map_def fetch_finish_def clean_outdated_peer_def)
qed

section \<open>Examples\<close>

text \<open>Peer 3 measured 20 ms to peer 4; a hasher that counts the pairs.\<close>

definition sample_hash :: "SrcDstPeerPair list \<Rightarrow> u64" where
  "sample_hash xs = of_nat (length xs)"

lemma sample_report: "PeerInfoForGlobalMap_from [(4, [Some 30000, Some 20000])] = Inr [(4, \<lparr>latency_ms = 20\<rparr>)]"
  by (simp add: PeerInfoForGlobalMap_from_def unwrap_def direct_info_def)

definition sample_calc :: RouteCostCalculatorImpl where
  "sample_calc = \<lparr>global_peer_map_clone = [], last_update_time = 0\<rparr>"

lemma sample_center_run: "center_run sample_hash PeerCenterServerGlobalData_default (PeerCenterInstance_new (secs 1)) sample_calc"
  by (rule run_new) (simp add: get_cost_calculator_def PeerCenterInstance_new_def sample_calc_def)

theorem center_report_reaches_costs_witness:
  "calculate_cost (begin_update (fetch_finish 9 (Some (get_global_peer_map 0
      (report_peers sample_hash 5 3 (Some [(4, \<lparr>latency_ms = 20\<rparr>)]) PeerCenterServerGlobalData_default)))
      (PeerCenterInstance_new (secs 1))) sample_calc) 3 4 = 20"
proof -
  have "fetch_start 0 (PeerCenterInstance_new (secs 1)) = PeerCenterInstance_new (secs 1)"
      "pc_digest (PeerCenterInstance_new (secs 1)) = 0"
    by (simp_all add: fetch_start_def PeerCenterInstance_new_def)
  then show ?thesis
    using center_report_reaches_costs [OF sample_center_run sample_report refl _ refl, of 0 5 3 9] by simp
qed

theorem center_digest_stale_witness:
  "fetch_finish 9 (Some (get_global_peer_map 1 (report_peers sample_hash 5 3 (Some [(4, \<lparr>latency_ms = 70\<rparr>)])
      (report_peers sample_hash 4 3 (Some [(4, \<lparr>latency_ms = 20\<rparr>)]) PeerCenterServerGlobalData_default))))
      \<lparr>pc_global_peer_map = [(3, [(4, \<lparr>latency_ms = 20\<rparr>)])], pc_digest = 1, pc_update_time = 4\<rparr> =
    \<lparr>pc_global_peer_map = [(3, [(4, \<lparr>latency_ms = 20\<rparr>)])], pc_digest = 1, pc_update_time = 4\<rparr>"
  using center_digest_stale [of "report_peers sample_hash 4 3 (Some [(4, \<lparr>latency_ms = 20\<rparr>)]) PeerCenterServerGlobalData_default"
      sample_hash "\<lparr>pc_global_peer_map = [(3, [(4, \<lparr>latency_ms = 20\<rparr>)])], pc_digest = 1, pc_update_time = 4\<rparr>" 3 "[(4, \<lparr>latency_ms = 70\<rparr>)]" 9 5]
  by (simp add: report_peers_def report_pairs_def calc_global_digest_def sample_hash_def PeerCenterServerGlobalData_default_def)

theorem center_costs_route_witness:
  "\<exists>rt' h. build_from_synced_info True no_cidrs least_index searched_counts 1 sample_synced LeastCost (calculate_cost sample_calc) RouteTable_new =
      Some (Inr rt') \<and> get_next_hop rt' 2 = Some h"
proof -
  let ?cc = "calculate_cost sample_calc"
  have cc: "?cc = (\<lambda>_ _. 500)"
    by (simp add: fun_eq_iff calculate_cost_def directed_cost_def sample_calc_def)
  obtain rt' where r: "build_from_synced_info True no_cidrs least_index searched_counts 1 sample_synced LeastCost ?cc RouteTable_new = Some (Inr rt')"
    and all: "\<forall>dst. case get_next_hop rt' dst of None \<Rightarrow> \<not> (\<exists>f c k. walk (links sample_synced ?cc) 1 f c k dst)
      | Some h \<Rightarrow> hop_found (links sample_synced ?cc) 1 h dst"
    using center_costs_route [OF sample_center_run least_pick_least_index sample_synced_ok(1,2,4), of True no_cidrs searched_counts]
    by (elim exE conjE)
  have "(2, 500) \<in> set (links sample_synced ?cc 1)"
    by (simp add: cc links_def sample_synced_def SyncedRouteInfo_empty_def known_def announced_def
        RoutePeerInfo_default_def connected_def get_connected_peers_def link_cost_def get_avoid_relay_data_def)
  from walk_first [where edges = "links sample_synced ?cc", OF this] show ?thesis
    using r spec [OF all, of 2] by (cases "get_next_hop rt' 2") auto
qed

section \<open>The choice of the center\<close>

lemma Min_insert_min: "finite S \<Longrightarrow> Min (insert (min q m) S) = Min (insert m (insert q S))"
  by (cases "S = {}") (simp_all add: min.assoc min.left_commute min.commute)

text \<open>Peers that see the same routes choose the same center, unless one of them is a public server.\<close>

lemma select_center_least:
  assumes "routes \<noteq> []"
  shows "select_center_peer my routes = Some (Min (insert my
    {p. \<exists>flag. (p, flag) \<in> set routes \<and> (case flag of Some f \<Rightarrow> \<not> is_public_server f | None \<Rightarrow> True)}))"
proof -
  let ?ok = "\<lambda>flag. case flag of Some f \<Rightarrow> \<not> is_public_server f | None \<Rightarrow> True"
  let ?step = "\<lambda>(p, flag) least. if ?ok flag \<and> p < least then p else least"
  have "fold ?step routes m = Min (insert m {p. \<exists>flag. (p, flag) \<in> set routes \<and> ?ok flag})" for m
  proof (induction routes arbitrary: m)
    case (Cons x routes)
    obtain q flag where x: "x = (q, flag)"
      by (cases x)
    let ?S = "{p. \<exists>flag. (p, flag) \<in> set routes \<and> ?ok flag}"
    have fin: "finite ?S"
      by (rule finite_subset [of _ "fst ` set routes"]) force+
    have "{p. \<exists>flag. (p, flag) \<in> set (x # routes) \<and> ?ok flag} = (if ?ok flag then insert q ?S else ?S)"
      by (auto simp: x)
    moreover note Min_insert_min [OF fin, of q m]
    moreover have "?step x m = (if ?ok flag then min q m else m)"
      by (auto simp: x min_def)
    ultimately show ?case
      using Cons.IH [of "min q m"] Cons.IH [of m] by simp
  qed simp
  then show ?thesis
    using assms by (simp add: select_center_peer_def)
qed

end
