(* ===== verification/Conn_Ping.thy ===== *)
theory Conn_Ping
  imports Packet_Def
begin

text \<open>
  The statistics and the liveness check of a connection: \<open>src/easytier/src/tunnel/stats.rs\<close>, the
  sliding window of latencies and the traffic counters, and \<open>src/easytier/src/peers/peer_conn_ping.rs\<close>,
  when pings are sent, what an answer is, and when a connection is given up. The controller's ticks are
  seconds and counted without a bound; the counters of traffic are words. The random bit by which a
  controller steps back and the floating-point percentage are parameters. Each operation on a window
  is taken as one step.
\<close>

section \<open>A window of latencies\<close>

record WindowLatency =
  latency_us_window :: "u32 list"
  latency_us_window_index :: u32
  latency_us_window_size :: u32
  win_sum :: u32
  win_count :: u32

definition WindowLatency_new :: "u32 \<Rightarrow> WindowLatency" where
  "WindowLatency_new window_size =
     \<lparr>latency_us_window = replicate (unat window_size) 0, latency_us_window_index = 0, latency_us_window_size = window_size,
      win_sum = 0, win_count = 0\<rparr>"

text \<open>A window of size zero panics on the remainder.\<close>

definition record_latency :: "u32 \<Rightarrow> WindowLatency \<Rightarrow> WindowLatency may_panic" where
  "record_latency latency_us w =
     (let index = latency_us_window_index w;
          w = w\<lparr>latency_us_window_index := index + 1\<rparr>;
          w = (if win_count w < latency_us_window_size w then w\<lparr>win_count := win_count w + 1\<rparr> else w) in
      rbind (rassert (latency_us_window_size w \<noteq> 0) DivisionByZero) (\<lambda>_.
        let i = unat (index mod latency_us_window_size w) in
        rbind (rassert (i < length (latency_us_window w)) IndexOutOfRange) (\<lambda>_.
          let old_lat = latency_us_window w ! i;
              w = w\<lparr>latency_us_window := (latency_us_window w)[i := latency_us]\<rparr> in
          Inr (if old_lat < latency_us then w\<lparr>win_sum := win_sum w + (latency_us - old_lat)\<rparr>
               else w\<lparr>win_sum := win_sum w - (old_lat - latency_us)\<rparr>))))"

definition get_latency_us :: "WindowLatency \<Rightarrow> u32" where
  "get_latency_us w = (if win_count w = 0 then 0 else win_sum w div win_count w)"

fun record_all :: "u32 list \<Rightarrow> WindowLatency \<Rightarrow> WindowLatency may_panic" where
  "record_all [] w = Inr w"
| "record_all (l # ls) w = rbind (record_latency l w) (record_all ls)"

section \<open>Traffic counters\<close>

record Throughput =
  tx_bytes :: u64
  rx_bytes :: u64
  tx_packets :: u64
  rx_packets :: u64

definition Throughput_default :: Throughput where
  "Throughput_default = \<lparr>tx_bytes = 0, rx_bytes = 0, tx_packets = 0, rx_packets = 0\<rparr>"

definition record_tx_bytes :: "u64 \<Rightarrow> Throughput \<Rightarrow> Throughput" where
  "record_tx_bytes n t = t\<lparr>tx_bytes := tx_bytes t + n, tx_packets := tx_packets t + 1\<rparr>"

definition record_rx_bytes :: "u64 \<Rightarrow> Throughput \<Rightarrow> Throughput" where
  "record_rx_bytes n t = t\<lparr>rx_bytes := rx_bytes t + n, rx_packets := rx_packets t + 1\<rparr>"

section \<open>When to ping\<close>

record PingIntervalController =
  logic_time :: nat
  last_send_logic_time :: nat
  backoff_idx :: int
  max_backoff_idx :: int
  last_throughput :: Throughput

definition PingIntervalController_new :: "Throughput \<Rightarrow> PingIntervalController" where
  "PingIntervalController_new t =
     \<lparr>logic_time = 0, last_send_logic_time = 0, backoff_idx = 0, max_backoff_idx = 5, last_throughput = t\<rparr>"

definition tick :: "PingIntervalController \<Rightarrow> PingIntervalController" where
  "tick c = c\<lparr>logic_time := logic_time c + 1\<rparr>"

definition tx_increase :: "Throughput \<Rightarrow> PingIntervalController \<Rightarrow> bool" where
  "tx_increase t c \<longleftrightarrow> tx_packets t > tx_packets (last_throughput c)"

definition rx_increase :: "Throughput \<Rightarrow> PingIntervalController \<Rightarrow> bool" where
  "rx_increase t c \<longleftrightarrow> rx_packets t > rx_packets (last_throughput c)"

definition should_send_ping :: "u32 \<Rightarrow> Throughput \<Rightarrow> bool \<Rightarrow> PingIntervalController \<Rightarrow> bool \<times> PingIntervalController" where
  "should_send_ping loss_counter t random_bit c =
     (let c = (if loss_counter > 0 then c\<lparr>backoff_idx := 0\<rparr>
               else if tx_increase t c \<and> \<not> rx_increase t c then c\<lparr>backoff_idx := 0\<rparr> else c);
          c = c\<lparr>last_throughput := t\<rparr>
      in if logic_time c - last_send_logic_time c < 2 ^ nat (backoff_idx c) then (False, c)
         else let c = c\<lparr>backoff_idx := min (backoff_idx c + 1) (max_backoff_idx c)\<rparr>;
                  c = (if backoff_idx c > max_backoff_idx c - 2 \<and> random_bit then c\<lparr>backoff_idx := backoff_idx c - 1\<rparr> else c)
              in (True, c\<lparr>last_send_logic_time := logic_time c\<rparr>))"

text \<open>The decisions of a controller, tick by tick, with the losses and the traffic it sees.\<close>

fun ping_run :: "PingIntervalController \<Rightarrow> (u32 \<times> Throughput \<times> bool) list \<Rightarrow> bool list" where
  "ping_run c [] = []"
| "ping_run c ((loss, t, b) # rest) =
     (let (send, c) = should_send_ping loss t b (tick c) in send # ping_run c rest)"

section \<open>Pings and pongs\<close>

definition new_ping_packet :: "bool \<Rightarrow> (nat \<Rightarrow> u8) \<Rightarrow> u32 \<Rightarrow> u32 \<Rightarrow> u32 \<Rightarrow> ZCPacket may_panic" where
  "new_ping_packet chk garbage my_node_id peer_id seq =
     rbind (new_with_payload garbage (le32 seq)) (fill_peer_manager_hdr chk my_node_id peer_id (PacketType_u8 Ping))"

text \<open>Waiting for the pong of a ping: the payloads received before the time is up; one of less than four bytes panics.\<close>

fun wait_pong :: "u32 \<Rightarrow> bytes list \<Rightarrow> bool may_panic" where
  "wait_pong seq [] = Inr False"
| "wait_pong seq (p # ps) =
     rbind (rassert (4 \<le> length p) IndexOutOfRange) (\<lambda>_. if of_le32 (take 4 p) = seq then Inr True else wait_pong seq ps)"

section \<open>When to give up\<close>

record ping_stats =
  latency_stats :: WindowLatency
  loss_rate_stats_1 :: WindowLatency
  loss_counter :: u32
  last_rx_packets :: u64
  loss_rate_stats :: u32

definition ping_stats_new :: "WindowLatency \<Rightarrow> u64 \<Rightarrow> ping_stats" where
  "ping_stats_new lat rx =
     \<lparr>latency_stats = lat, loss_rate_stats_1 = WindowLatency_new 100, loss_counter = 0, last_rx_packets = rx, loss_rate_stats = 0\<rparr>"

text \<open>
  The result of one ping, a latency or none, with the counter of received packets as it is read twice;
  \<open>percent\<close> is the floating-point percentage of sum and count. The first result is whether to close.
\<close>

definition ping_result ::
  "(u32 \<Rightarrow> u32 \<Rightarrow> u32) \<Rightarrow> nat option \<Rightarrow> u64 \<Rightarrow> u64 \<Rightarrow> ping_stats \<Rightarrow> (bool \<times> ping_stats) may_panic" where
  "ping_result percent ret rx rx' st =
     rbind (case ret of
              Some lat \<Rightarrow>
                rbind (record_latency (of_nat lat) (latency_stats st)) (\<lambda>l.
                rbind (record_latency 0 (loss_rate_stats_1 st)) (\<lambda>w. Inr (st\<lparr>latency_stats := l, loss_rate_stats_1 := w\<rparr>)))
            | None \<Rightarrow>
                rbind (record_latency 1 (loss_rate_stats_1 st)) (\<lambda>w.
                  Inr (st\<lparr>loss_rate_stats_1 := w, loss_counter := loss_counter st + 1\<rparr>)))
       (\<lambda>st. let st = (if last_rx_packets st \<noteq> rx then st\<lparr>loss_counter := 0\<rparr> else st) in
             if loss_counter st \<ge> 5 then Inr (True, st)
             else Inr (False, st\<lparr>last_rx_packets := rx',
               loss_rate_stats := percent (win_sum (loss_rate_stats_1 st)) (win_count (loss_rate_stats_1 st))\<rparr>))"

fun ping_results ::
  "(u32 \<Rightarrow> u32 \<Rightarrow> u32) \<Rightarrow> (nat option \<times> u64 \<times> u64) list \<Rightarrow> ping_stats \<Rightarrow> (bool \<times> ping_stats) may_panic" where
  "ping_results percent [] st = Inr (False, st)"
| "ping_results percent ((ret, rx, rx') # rest) st =
     rbind (ping_result percent ret rx rx' st) (\<lambda>(close, st). if close then Inr (True, st) else ping_results percent rest st)"

section \<open>The window is a mean of the last latencies\<close>

text \<open>
  The ring before anything was recorded is as if zeros had been: after the latencies \<open>ls\<close>, slot
  \<open>k mod sz\<close> holds number \<open>k\<close> of the zeros followed by \<open>ls\<close>, for the last \<open>sz\<close> numbers \<open>k\<close>.
\<close>

definition padded :: "nat \<Rightarrow> u32 list \<Rightarrow> u32 list" where
  "padded sz ls = replicate sz 0 @ ls"

definition window_ok :: "u32 \<Rightarrow> u32 list \<Rightarrow> WindowLatency \<Rightarrow> bool" where
  "window_ok sz ls w \<longleftrightarrow> latency_us_window_size w = sz \<and> length (latency_us_window w) = unat sz \<and>
     latency_us_window_index w = of_nat (length ls) \<and> unat (win_count w) = min (length ls) (unat sz) \<and>
     win_sum w = sum_list (drop (length ls) (padded (unat sz) ls)) \<and>
     (\<forall>k. length ls \<le> k \<and> k < length ls + unat sz \<longrightarrow> latency_us_window w ! (k mod unat sz) = padded (unat sz) ls ! k)"

lemma window_ok_new: "window_ok sz [] (WindowLatency_new sz)"
  by (simp add: window_ok_def WindowLatency_new_def padded_def sum_list_replicate)

lemma mod_distinct: "n < k \<Longrightarrow> k < n + m \<Longrightarrow> k mod m \<noteq> n mod (m :: nat)"
  by (metis add_less_cancel_left le_add_diff_inverse less_imp_le mod_eq_dvd_iff_nat nat_dvd_not_less zero_less_diff)

lemma window_ok_record:
  assumes "window_ok sz ls w" and "sz \<noteq> 0" and "length ls < 2 ^ 32"
  shows "\<exists>w'. record_latency l w = Inr w' \<and> window_ok sz (ls @ [l]) w'"
proof -
  let ?n = "length ls" and ?s = "unat sz"
  let ?i = "?n mod ?s"
  let ?old = "latency_us_window w ! ?i"
  have s: "0 < ?s"
    using assms(2) by (simp add: unat_gt_0)
  have w: "latency_us_window_size w = sz" "length (latency_us_window w) = ?s" "latency_us_window_index w = of_nat ?n"
      "unat (win_count w) = min ?n ?s" "win_sum w = sum_list (drop ?n (padded ?s ls))"
    and slot: "\<And>k. ?n \<le> k \<Longrightarrow> k < ?n + ?s \<Longrightarrow> latency_us_window w ! (k mod ?s) = padded ?s ls ! k"
    using assms(1) by (auto simp: window_ok_def)
  have idx: "unat ((of_nat ?n :: u32) mod sz) = ?i"
    using assms(3) by (simp add: unat_mod unat_of_nat take_bit_nat_eq_self)
  let ?cnt = "if win_count w < sz then win_count w + 1 else win_count w"
  let ?sum = "if ?old < l then win_sum w + (l - ?old) else win_sum w - (?old - l)"
  let ?w' = "w\<lparr>latency_us_window_index := of_nat ?n + 1, win_count := ?cnt, latency_us_window := (latency_us_window w)[?i := l], win_sum := ?sum\<rparr>"
  have run: "record_latency l w = Inr ?w'"
    using s w(1-3) idx assms(2) by (simp add: record_latency_def Let_def)
  have old: "?old = padded ?s ls ! ?n"
    using slot [of ?n] s by simp
  have drop: "drop ?n (padded ?s ls) = padded ?s ls ! ?n # drop (Suc ?n) (padded ?s ls)"
    using s by (intro Cons_nth_drop_Suc [symmetric]) (simp add: padded_def)
  have pad: "padded ?s (ls @ [l]) = padded ?s ls @ [l]" "length (padded ?s ls) = ?s + ?n"
    by (simp_all add: padded_def)
  have sum: "?sum = sum_list (drop (Suc ?n) (padded ?s (ls @ [l])))"
    using w(5) s unfolding old drop pad by (simp add: pad(2))
  have cnt: "unat ?cnt = min (Suc ?n) ?s"
  proof (cases "win_count w < sz")
    case True
    then have "?n < ?s"
      using w(4) by (simp add: word_less_nat_alt min_def split: if_splits)
    then show ?thesis
      using True w(4) unsigned_less [of sz, where 'a = nat] by (simp add: unat_word_ariths)
  next
    case False
    then show ?thesis
      using w(4) by (simp add: word_less_nat_alt min_def split: if_splits)
  qed
  have "latency_us_window ?w' ! (k mod ?s) = padded ?s (ls @ [l]) ! k" if k: "Suc ?n \<le> k" "k < Suc ?n + ?s" for k
  proof (cases "k = ?n + ?s")
    case True
    then show ?thesis
      using s w(2) by (simp add: pad nth_append)
  next
    case False
    then have "k mod ?s \<noteq> ?i"
      using k by (intro mod_distinct) auto
    then show ?thesis
      using slot [of k] k False by (simp add: pad nth_append)
  qed
  then have "window_ok sz (ls @ [l]) ?w'"
    using w(1,2) sum cnt by (auto simp: window_ok_def)
  then show ?thesis
    using run by blast
qed

lemma record_all_append: "record_all (ls @ [l]) w = rbind (record_all ls w) (record_latency l)"
proof (induction ls arbitrary: w)
  case (Cons x ls)
  then show ?case
    by (cases "record_latency x w") simp_all
next
  case Nil
  show ?case
    by (cases "record_latency l w") simp_all
qed

lemma record_all_ok:
  assumes "sz \<noteq> 0"
  shows "length ls \<le> 2 ^ 32 \<Longrightarrow> \<exists>w. record_all ls (WindowLatency_new sz) = Inr w \<and> window_ok sz ls w"
proof (induction ls rule: rev_induct)
  case (snoc l ls)
  then show ?case
    using window_ok_record [OF _ assms, of ls] by (auto simp: record_all_append)
qed (simp add: window_ok_new)

lemma sum_list_replicate_0 [simp]: "sum_list (replicate n (0 :: u32)) = 0"
  by (simp add: sum_list_replicate)

lemma padded_sum: "sum_list (drop (length ls) (padded sz ls)) = sum_list (drop (length ls - sz) ls)"
  by (simp add: padded_def)

lemma unat_sum_list: "sum_list (map unat xs) < 2 ^ 32 \<Longrightarrow> unat (sum_list (xs :: u32 list)) = sum_list (map unat xs)"
  by (induction xs) (simp_all add: unat_word_ariths)

text \<open>
  C33: The window keeps the mean of the last latencies. Recording any latencies into a window of
  positive size never panics, for as long as the 32-bit index has not wrapped; the sum it updates
  by differences is that of the last \<open>size\<close> latencies modulo \<open>2 ^ 32\<close>, and where these add up to less,
  the reported latency is their mean, rounded down.
\<close>

theorem window_latency_mean:
  assumes "sz \<noteq> 0" and "length ls \<le> 2 ^ 32" and "recent = drop (length ls - unat sz) ls"
  shows "\<exists>w. record_all ls (WindowLatency_new sz) = Inr w \<and> win_sum w = sum_list recent \<and>
    (sum_list (map unat recent) < 2 ^ 32 \<longrightarrow> unat (get_latency_us w) = sum_list (map unat recent) div length recent)"
proof -
  obtain w where w: "record_all ls (WindowLatency_new sz) = Inr w" "window_ok sz ls w"
    using record_all_ok [OF assms(1,2)] by blast
  have sum: "win_sum w = sum_list recent" and cnt: "unat (win_count w) = length recent"
    using w(2) unfolding assms(3) by (auto simp: window_ok_def padded_sum)
  have "unat (get_latency_us w) = unat (sum_list recent) div length recent"
    using sum cnt by (auto simp: get_latency_us_def unat_div)
  then show ?thesis
    using w(1) sum unat_sum_list [of recent] by auto
qed

theorem window_latency_mean_witness:
  "\<exists>w. record_all [10, 20, 40, 60] (WindowLatency_new 2) = Inr w \<and> unat (get_latency_us w) = 50"
  using window_latency_mean [of 2 "[10, 20, 40, 60]" "[40, 60]"] by (auto simp del: record_all.simps simp: numeral_2_eq_2 [symmetric])

section \<open>Pings are sent\<close>

definition controller_ok :: "PingIntervalController \<Rightarrow> bool" where
  "controller_ok c \<longleftrightarrow> 0 \<le> backoff_idx c \<and> backoff_idx c \<le> 5 \<and> max_backoff_idx c = 5 \<and> last_send_logic_time c \<le> logic_time c"

definition quiet :: "PingIntervalController \<Rightarrow> nat" where
  "quiet c = logic_time c - last_send_logic_time c"

lemma controller_new_ok: "controller_ok (PingIntervalController_new t)" "quiet (PingIntervalController_new t) = 0"
  by (simp_all add: controller_ok_def quiet_def PingIntervalController_new_def)

text \<open>A tick: either a ping is sent, or less than 32 ticks have passed since the last; after a loss one is sent.\<close>

lemma should_send_step:
  assumes "controller_ok c" and "should_send_ping loss t b (tick c) = (send, c')"
  shows "controller_ok c' \<and> (if send then quiet c' = 0 else quiet c' = quiet c + 1 \<and> quiet c' < 32) \<and> (loss > 0 \<longrightarrow> send)"
proof -
  define d where "d = (if loss > 0 then (tick c)\<lparr>backoff_idx := 0\<rparr>
    else if tx_increase t (tick c) \<and> \<not> rx_increase t (tick c) then (tick c)\<lparr>backoff_idx := 0\<rparr> else tick c)"
  have d: "controller_ok d" "logic_time d = logic_time c + 1" "last_send_logic_time d = last_send_logic_time c" "loss > 0 \<Longrightarrow> backoff_idx d = 0"
    using assms(1) by (auto simp: d_def controller_ok_def tick_def)
  have run: "should_send_ping loss t b (tick c) =
      (if logic_time d - last_send_logic_time d < 2 ^ nat (backoff_idx d) then (False, d\<lparr>last_throughput := t\<rparr>)
       else let e = d\<lparr>last_throughput := t, backoff_idx := min (backoff_idx d + 1) (max_backoff_idx d)\<rparr>;
                e = (if backoff_idx e > max_backoff_idx e - 2 \<and> b then e\<lparr>backoff_idx := backoff_idx e - 1\<rparr> else e)
            in (True, e\<lparr>last_send_logic_time := logic_time e\<rparr>))"
    unfolding should_send_ping_def d_def [symmetric] Let_def by simp
  have "nat (backoff_idx d) \<le> 5"
    using d(1) by (auto simp: controller_ok_def)
  then have "(2 :: nat) ^ nat (backoff_idx d) \<le> 2 ^ 5"
    by (intro power_increasing) simp_all
  then have le: "(2 :: nat) ^ nat (backoff_idx d) \<le> 32"
    by simp
  have gap: "logic_time d - last_send_logic_time d = quiet c + 1"
    using d(1-3) assms(1) by (auto simp: quiet_def controller_ok_def)
  show ?thesis
  proof (cases "logic_time d - last_send_logic_time d < 2 ^ nat (backoff_idx d)")
    case True
    then have "\<not> loss > 0"
      using d(4) gap by auto
    then show ?thesis
      using assms(2) run True gap le d(1) by (auto simp: quiet_def controller_ok_def)
  next
    case False
    then show ?thesis
      using assms(2) run d(1) by (auto simp: quiet_def controller_ok_def Let_def split: if_splits)
  qed
qed

definition ping_step :: "u32 \<times> Throughput \<times> bool \<Rightarrow> PingIntervalController \<Rightarrow> bool \<times> PingIntervalController" where
  "ping_step x c = (case x of (loss, t, b) \<Rightarrow> should_send_ping loss t b (tick c))"

lemma ping_run_Cons: "ping_run c (x # xs) = fst (ping_step x c) # ping_run (snd (ping_step x c)) xs"
  by (cases x) (simp add: ping_step_def case_prod_beta Let_def)

lemma ping_step_ok:
  assumes "controller_ok c" and "quiet c < 32"
  shows "controller_ok (snd (ping_step x c))" "quiet (snd (ping_step x c)) < 32" "fst x > 0 \<Longrightarrow> fst (ping_step x c)"
    "\<not> fst (ping_step x c) \<Longrightarrow> quiet (snd (ping_step x c)) = quiet c + 1"
proof -
  have "should_send_ping (fst x) (fst (snd x)) (snd (snd x)) (tick c) = (fst (ping_step x c), snd (ping_step x c))"
    by (simp add: ping_step_def case_prod_beta)
  from should_send_step [OF assms(1) this] show "controller_ok (snd (ping_step x c))" "quiet (snd (ping_step x c)) < 32"
      "fst x > 0 \<Longrightarrow> fst (ping_step x c)" "\<not> fst (ping_step x c) \<Longrightarrow> quiet (snd (ping_step x c)) = quiet c + 1"
    by (auto split: if_splits)
qed

lemma ping_within:
  "controller_ok c \<Longrightarrow> quiet c < 32 \<Longrightarrow> 32 \<le> quiet c + m \<Longrightarrow> m \<le> length xs \<Longrightarrow> \<exists>j<m. ping_run c xs ! j"
proof (induction m arbitrary: c xs)
  case (Suc m)
  obtain x ys where xs: "xs = x # ys"
    using Suc.prems(4) by (cases xs) auto
  note ok = ping_step_ok [OF Suc.prems(1,2), of x]
  show ?case
  proof (cases "fst (ping_step x c)")
    case True
    then show ?thesis
      by (intro exI [of _ 0]) (simp add: xs ping_run_Cons)
  next
    case False
    have "\<exists>j<m. ping_run (snd (ping_step x c)) ys ! j"
      using Suc.prems(3,4) ok(4) [OF False] by (intro Suc.IH ok(1,2)) (simp_all add: xs)
    then obtain j where "j < m" "ping_run (snd (ping_step x c)) ys ! j"
      by blast
    then show ?thesis
      by (intro exI [of _ "Suc j"]) (simp add: xs ping_run_Cons)
  qed
qed simp

text \<open>In any 32 seconds a ping is sent, and in the second after a loss one is sent at once.\<close>

theorem ping_cadence:
  "controller_ok c \<Longrightarrow> quiet c < 32 \<Longrightarrow>
     (i + 32 \<le> length xs \<longrightarrow> (\<exists>j. i \<le> j \<and> j < i + 32 \<and> ping_run c xs ! j)) \<and>
     (i < length xs \<and> fst (xs ! i) > 0 \<longrightarrow> ping_run c xs ! i)"
proof (induction i arbitrary: c xs)
  case 0
  have "ping_run c xs ! 0" if "0 < length xs" "fst (xs ! 0) > 0"
    using that ping_step_ok(3) [OF 0] by (cases xs) (auto simp: ping_run_Cons)
  then show ?case
    using ping_within [OF 0, of 32 xs] by auto
next
  case (Suc i)
  show ?case
  proof (cases xs)
    case (Cons x ys)
    let ?c = "snd (ping_step x c)"
    have IH: "i + 32 \<le> length ys \<longrightarrow> (\<exists>j. i \<le> j \<and> j < i + 32 \<and> ping_run ?c ys ! j)"
      "i < length ys \<and> fst (ys ! i) > 0 \<longrightarrow> ping_run ?c ys ! i"
      using Suc.IH [OF ping_step_ok(1,2) [OF Suc.prems, of x], of ys] by blast+
    have "\<exists>j. Suc i \<le> j \<and> j < Suc i + 32 \<and> ping_run c xs ! j" if long: "Suc i + 32 \<le> length xs"
    proof -
      obtain j where "i \<le> j" "j < i + 32" "ping_run ?c ys ! j"
        using IH(1) long Cons by auto
      then show ?thesis
        by (intro exI [of _ "Suc j"]) (simp add: Cons ping_run_Cons)
    qed
    then show ?thesis
      using IH(2) by (simp add: Cons ping_run_Cons)
  qed simp
qed

section \<open>When a connection is given up\<close>

text \<open>
  Each result as two facts: whether the ping failed, and whether something was received since the
  count was last taken.
\<close>

fun outcomes :: "u64 \<Rightarrow> (nat option \<times> u64 \<times> u64) list \<Rightarrow> (bool \<times> bool) list" where
  "outcomes prev [] = []"
| "outcomes prev ((ret, rx, rx') # rest) = (ret = None, prev \<noteq> rx) # outcomes rx' rest"

definition failures :: "(bool \<times> bool) list \<Rightarrow> nat" where
  "failures os = length (filter fst os)"

definition silent :: "(bool \<times> bool) list \<Rightarrow> bool" where
  "silent os \<longleftrightarrow> list_all (\<lambda>(failed, heard). \<not> heard) os"

fun gives_up :: "nat \<Rightarrow> (bool \<times> bool) list \<Rightarrow> bool" where
  "gives_up n [] = False"
| "gives_up n ((failed, heard) # os) =
     (let n = (if heard then 0 else if failed then n + 1 else n) in n \<ge> 5 \<or> gives_up n os)"

lemma failures_simps [simp]: "failures [] = 0" "failures ((f, h) # os) = (if f then 1 else 0) + failures os"
  by (simp_all add: failures_def)

lemma silent_simps [simp]: "silent []" "silent ((f, h) # os) \<longleftrightarrow> \<not> h \<and> silent os"
  by (simp_all add: silent_def)

lemma gives_up_iff:
  "n < 5 \<Longrightarrow> gives_up n os \<longleftrightarrow> (\<exists>pre mid post. os = pre @ mid @ post \<and> silent mid \<and>
     (5 \<le> failures mid \<or> pre = [] \<and> 5 \<le> n + failures mid))"
proof (induction os arbitrary: n)
  case (Cons x os)
  obtain f h where x: "x = (f, h)"
    by (cases x)
  define m where "m = (if h then 0 else if f then n + 1 else n)"
  let ?found = "\<lambda>n os. \<exists>pre mid post. os = pre @ mid @ post \<and> silent mid \<and> (5 \<le> failures mid \<or> pre = [] \<and> 5 \<le> n + failures mid)"
  have step: "?found n (x # os) \<longleftrightarrow> 5 \<le> m \<or> ?found m os" if "n < 5"
  proof
    assume "?found n (x # os)"
    then obtain pre mid post where os: "x # os = pre @ mid @ post" "silent mid" "5 \<le> failures mid \<or> pre = [] \<and> 5 \<le> n + failures mid"
      by blast
    show "5 \<le> m \<or> ?found m os"
    proof (cases pre)
      case Nil
      then obtain mid' where mid: "mid = x # mid'" "os = mid' @ post"
        using os \<open>n < 5\<close> by (cases mid) auto
      then have "5 \<le> m + failures mid'" "silent mid'"
        using os Nil by (auto simp: x m_def)
      then show ?thesis
        using mid(2) by (intro disjI2 exI [of _ "[]"] exI [of _ mid'] exI [of _ post]) simp
    next
      case (Cons y pre')
      then show ?thesis
        using os by (intro disjI2 exI [of _ pre'] exI [of _ mid] exI [of _ post]) auto
    qed
  next
    assume "5 \<le> m \<or> ?found m os"
    then consider "5 \<le> m" | pre mid post where "os = pre @ mid @ post" "silent mid" "5 \<le> failures mid"
      | mid post where "os = mid @ post" "silent mid" "5 \<le> m + failures mid"
      by auto
    then show "?found n (x # os)"
    proof cases
      case 1
      then show ?thesis
        using \<open>n < 5\<close> by (intro exI [of _ "[]"] exI [of _ "[x]"] exI [of _ os]) (auto simp: x m_def split: if_splits)
    next
      case (2 pre mid post)
      then show ?thesis
        by (intro exI [of _ "x # pre"] exI [of _ mid] exI [of _ post]) simp
    next
      case (3 mid post)
      show ?thesis
      proof (cases h)
        case True
        then show ?thesis
          using 3 by (intro exI [of _ "[x]"] exI [of _ mid] exI [of _ post]) (simp add: m_def)
      next
        case False
        then show ?thesis
          using 3 by (intro exI [of _ "[]"] exI [of _ "x # mid"] exI [of _ post]) (auto simp: x m_def)
      qed
    qed
  qed
  show ?case
  proof (cases "5 \<le> m")
    case False
    then show ?thesis
      using Cons.IH [of m] step [OF Cons.prems] by (simp add: x m_def Let_def)
  qed (use step [OF Cons.prems] in \<open>simp add: x m_def Let_def\<close>)
qed simp

lemma record_latency_total:
  assumes "latency_us_window_size w \<noteq> 0" and "length (latency_us_window w) = unat (latency_us_window_size w)"
  shows "\<exists>w'. record_latency l w = Inr w' \<and> latency_us_window_size w' = latency_us_window_size w \<and>
    length (latency_us_window w') = length (latency_us_window w)"
proof -
  have "unat (i mod latency_us_window_size w) < unat (latency_us_window_size w)" for i
    using assms(1) by (simp add: unat_mod unat_gt_0)
  then show ?thesis
    using assms by (simp add: record_latency_def Let_def)
qed

definition windows_ok :: "ping_stats \<Rightarrow> bool" where
  "windows_ok st \<longleftrightarrow> latency_us_window_size (latency_stats st) \<noteq> 0 \<and>
     length (latency_us_window (latency_stats st)) = unat (latency_us_window_size (latency_stats st)) \<and>
     latency_us_window_size (loss_rate_stats_1 st) \<noteq> 0 \<and>
     length (latency_us_window (loss_rate_stats_1 st)) = unat (latency_us_window_size (loss_rate_stats_1 st))"

lemma ping_result_step:
  assumes "windows_ok st" and "unat (loss_counter st) < 5"
  shows "\<exists>st'. ping_result percent ret rx rx' st =
      Inr (5 \<le> (if last_rx_packets st \<noteq> rx then 0 else if ret = None then unat (loss_counter st) + 1 else unat (loss_counter st)), st') \<and>
    windows_ok st' \<and> unat (loss_counter st') = (if last_rx_packets st \<noteq> rx then 0 else if ret = None then unat (loss_counter st) + 1 else unat (loss_counter st)) \<and>
    (unat (loss_counter st') < 5 \<longrightarrow> last_rx_packets st' = rx')"
proof -
  have inc: "unat (loss_counter st + 1) = unat (loss_counter st) + 1"
    using assms(2) by (simp add: unat_word_ariths)
  obtain w where w: "\<And>l. record_latency l (loss_rate_stats_1 st) = Inr (w l)"
      "\<And>l. latency_us_window_size (w l) = latency_us_window_size (loss_rate_stats_1 st)"
      "\<And>l. length (latency_us_window (w l)) = length (latency_us_window (loss_rate_stats_1 st))"
    using record_latency_total [of "loss_rate_stats_1 st"] assms(1) unfolding windows_ok_def by metis
  obtain v where v: "\<And>l. record_latency l (latency_stats st) = Inr (v l)"
      "\<And>l. latency_us_window_size (v l) = latency_us_window_size (latency_stats st)"
      "\<And>l. length (latency_us_window (v l)) = length (latency_us_window (latency_stats st))"
    using record_latency_total [of "latency_stats st"] assms(1) unfolding windows_ok_def by metis
  show ?thesis
    using assms w v inc
    by (cases ret) (simp_all add: ping_result_def Let_def windows_ok_def word_le_nat_alt)
qed

lemma ping_results_eq:
  "windows_ok st \<Longrightarrow> unat (loss_counter st) < 5 \<Longrightarrow>
     \<exists>st'. ping_results percent rs st = Inr (gives_up (unat (loss_counter st)) (outcomes (last_rx_packets st) rs), st')"
proof (induction rs arbitrary: st)
  case (Cons r rs)
  obtain ret rx rx' where r: "r = (ret, rx, rx')"
    by (cases r)
  define m where "m = (if last_rx_packets st \<noteq> rx then 0 else if ret = None then unat (loss_counter st) + 1 else unat (loss_counter st))"
  obtain st1 where st1: "ping_result percent ret rx rx' st = Inr (5 \<le> m, st1)" "windows_ok st1" "unat (loss_counter st1) = m"
      "m < 5 \<Longrightarrow> last_rx_packets st1 = rx'"
    using ping_result_step [OF Cons.prems, of percent ret rx rx'] unfolding m_def by auto
  show ?case
    using Cons.IH [of st1] st1 by (cases "5 \<le> m") (auto simp: r m_def [symmetric] Let_def)
qed simp



end
