(* ===== verification/Peer_Conn.thy ===== *)
theory Peer_Conn
  imports Conn_Ping Ospf_Info "HOL-Library.Countable"
begin

text \<open>
  Connections to neighbours, \<open>src/easytier/src/peers/peer_conn.rs\<close>: the handshake by which two nodes
  learn each other's network and peer id, the loop that sorts received packets, and the network
  identity of \<open>src/easytier/src/common/config.rs\<close> it compares. The protobuf codec of the handshake and
  the standard library's hasher are parameters; what a stream yields before the time is up and
  whether a sink accepts a packet are given to each step.
\<close>

section \<open>Network identities\<close>

definition str_bytes :: "string \<Rightarrow> bytes" where
  "str_bytes s = map of_char s"

definition be64 :: "u64 \<Rightarrow> bytes" where
  "be64 x = map (\<lambda>i. ucast (drop_bit (8 * i) x)) [7, 6, 5, 4, 3, 2, 1, 0]"

lemma length_be64 [simp]: "length (be64 x) = 8"
  by (simp add: be64_def)

text \<open>
  \<open>finish\<close> is the hash of all bytes written so far. The digest is filled eight bytes at a time,
  each time writing what is filled to the hasher again.
\<close>

fun digest_shards :: "(bytes \<Rightarrow> u64) \<Rightarrow> nat \<Rightarrow> bytes \<Rightarrow> bytes \<Rightarrow> bytes" where
  "digest_shards finish 0 written digest = digest"
| "digest_shards finish (Suc n) written digest =
     (let digest = digest @ be64 (finish written) in digest_shards finish n (written @ digest) digest)"

definition generate_digest_from_str :: "(bytes \<Rightarrow> u64) \<Rightarrow> string \<Rightarrow> string \<Rightarrow> nat \<Rightarrow> bytes may_panic" where
  "generate_digest_from_str finish str1 str2 digest_len =
     rbind (rassert (digest_len mod 8 = 0) AssertionFailed) (\<lambda>_.
       Inr (digest_shards finish (digest_len div 8) (str_bytes str1 @ str_bytes str2) []))"

lemma length_digest_shards: "length (digest_shards finish n w d) = length d + 8 * n"
  by (induction n arbitrary: w d) (simp_all add: Let_def)

record NetworkIdentity =
  network_name :: string
  network_secret :: "string option"
  network_secret_digest :: "bytes option"

definition NetworkIdentity_new :: "(bytes \<Rightarrow> u64) \<Rightarrow> string \<Rightarrow> string \<Rightarrow> NetworkIdentity may_panic" where
  "NetworkIdentity_new finish name secret =
     rbind (generate_digest_from_str finish name secret 32) (\<lambda>d.
       Inr \<lparr>network_name = name, network_secret = Some secret, network_secret_digest = Some d\<rparr>)"

definition with_only_digest :: "(bytes \<Rightarrow> u64) \<Rightarrow> NetworkIdentity \<Rightarrow> (string \<times> bytes option) may_panic" where
  "with_only_digest finish i =
     (case network_secret_digest i of
        Some d \<Rightarrow> Inr (network_name i, Some d)
      | None \<Rightarrow>
          (case network_secret i of
             Some secret \<Rightarrow> rbind (generate_digest_from_str finish (network_name i) secret 32) (\<lambda>d. Inr (network_name i, Some d))
           | None \<Rightarrow> Inr (network_name i, None)))"

definition NetworkIdentity_eq :: "(bytes \<Rightarrow> u64) \<Rightarrow> NetworkIdentity \<Rightarrow> NetworkIdentity \<Rightarrow> bool may_panic" where
  "NetworkIdentity_eq finish a b =
     rbind (with_only_digest finish a) (\<lambda>x. rbind (with_only_digest finish b) (\<lambda>y. Inr (x = y)))"

section \<open>Connections\<close>

record HandshakeRequest =
  hs_magic :: u32
  hs_my_peer_id :: PeerId
  hs_version :: u32
  hs_features :: "string list"
  hs_network_name :: string
  hs_network_secret_digrest :: bytes

text \<open>The errors of connections, peer maps and the peer manager; messages are left out.\<close>

datatype Error =
    WaitRespError
  | SecretKeyError
  | RouteError
  | PeerNoConnectionError PeerId
  | TunnelFailed
  | NotFound
  | AnyhowError
  | UnknownError

definition MAGIC :: u32 where "MAGIC = 0xd1e1a5e1"
definition VERSION :: u32 where "VERSION = 1"

type_synonym PeerConnId = "128 word"

record PeerConn =
  pc_conn_id :: PeerConnId
  pc_my_peer_id :: PeerId
  pc_info :: "HandshakeRequest option"
  pc_is_client :: "bool option"
  pc_is_hole_punched :: bool
  pc_closed :: bool
  pc_latency_stats :: WindowLatency
  pc_throughput :: Throughput
  pc_loss_rate_stats :: u32

definition PeerConn_new :: "PeerConnId \<Rightarrow> PeerId \<Rightarrow> PeerConn" where
  "PeerConn_new cid my =
     \<lparr>pc_conn_id = cid, pc_my_peer_id = my, pc_info = None, pc_is_client = None, pc_is_hole_punched = True,
      pc_closed = False, pc_latency_stats = WindowLatency_new 15, pc_throughput = Throughput_default, pc_loss_rate_stats = 0\<rparr>"

definition set_is_hole_punched :: "bool \<Rightarrow> PeerConn \<Rightarrow> PeerConn" where
  "set_is_hole_punched b c = c\<lparr>pc_is_hole_punched := b\<rparr>"

definition notify_close :: "PeerConn \<Rightarrow> PeerConn" where
  "notify_close c = c\<lparr>pc_closed := True\<rparr>"

definition set_peer_id :: "PeerId \<Rightarrow> PeerConn \<Rightarrow> PeerConn may_panic" where
  "set_peer_id p c = rbind (rassert (pc_info c = None) ExplicitPanic) (\<lambda>_. Inr (c\<lparr>pc_my_peer_id := p\<rparr>))"

definition get_peer_id :: "PeerConn \<Rightarrow> PeerId may_panic" where
  "get_peer_id c = rbind (unwrap (pc_info c)) (\<lambda>i. Inr (hs_my_peer_id i))"

definition get_network_identity :: "PeerConn \<Rightarrow> NetworkIdentity may_panic" where
  "get_network_identity c =
     rbind (unwrap (pc_info c)) (\<lambda>i.
     rbind (rassert (length (hs_network_secret_digrest i) = 32) SliceLengthMismatch) (\<lambda>_.
       Inr \<lparr>network_name = hs_network_name i, network_secret = Some [], network_secret_digest = Some (hs_network_secret_digrest i)\<rparr>))"

record ApiPeerConnInfo =
  ci_conn_id :: PeerConnId
  ci_my_peer_id :: PeerId
  ci_peer_id :: PeerId
  ci_features :: "string list"
  ci_latency_us :: u32
  ci_throughput :: Throughput
  ci_loss_rate :: u32
  ci_is_client :: bool
  ci_network_name :: string
  ci_is_closed :: bool

definition get_conn_info :: "PeerConn \<Rightarrow> ApiPeerConnInfo may_panic" where
  "get_conn_info c =
     rbind (unwrap (pc_info c)) (\<lambda>i.
       Inr \<lparr>ci_conn_id = pc_conn_id c, ci_my_peer_id = pc_my_peer_id c, ci_peer_id = hs_my_peer_id i,
            ci_features = hs_features i, ci_latency_us = get_latency_us (pc_latency_stats c),
            ci_throughput = pc_throughput c, ci_loss_rate = pc_loss_rate_stats c,
            ci_is_client = (case pc_is_client c of Some b \<Rightarrow> b | None \<Rightarrow> False),
            ci_network_name = hs_network_name i, ci_is_closed = pc_closed c\<rparr>)"

section \<open>The handshake\<close>

record hs_codec =
  hs_encode :: "HandshakeRequest \<Rightarrow> bytes"
  hs_decode :: "bytes \<Rightarrow> HandshakeRequest option"

text \<open>An item of a stream: the end, an error or a packet.\<close>

datatype stream_item = StreamEnd | StreamError | StreamPacket ZCPacket

text \<open>The first result is \<open>need_retry\<close>.\<close>

fun wait_handshake :: "hs_codec \<Rightarrow> stream_item \<Rightarrow> (bool \<times> (Error + HandshakeRequest)) may_panic" where
  "wait_handshake cd StreamEnd = Inr (False, Inl WaitRespError)"
| "wait_handshake cd StreamError = Inr (False, Inl WaitRespError)"
| "wait_handshake cd (StreamPacket rsp) =
     rbind (peer_manager_header rsp) (\<lambda>h.
       case h of
         None \<Rightarrow> Inr (True, Inl WaitRespError)
       | Some hdr \<Rightarrow>
           if hdr_packet_type hdr \<noteq> PacketType_u8 HandShake then Inr (True, Inl WaitRespError)
           else rbind (payload rsp) (\<lambda>pl.
             case hs_decode cd pl of
               None \<Rightarrow> Inr (True, Inl WaitRespError)
             | Some r \<Rightarrow> if length (hs_network_secret_digrest r) \<noteq> 32 then Inr (True, Inl WaitRespError) else Inr (True, Inr r)))"

text \<open>The items that come within five seconds; running out of them is the timeout.\<close>

fun wait_handshake_loop :: "hs_codec \<Rightarrow> stream_item list \<Rightarrow> (Error + HandshakeRequest) may_panic" where
  "wait_handshake_loop cd [] = Inr (Inl WaitRespError)"
| "wait_handshake_loop cd (x # xs) =
     rbind (wait_handshake cd x) (\<lambda>(need_retry, r).
       case r of Inr rsp \<Rightarrow> Inr (Inr rsp) | Inl e \<Rightarrow> if need_retry then wait_handshake_loop cd xs else Inr (Inl e))"

text \<open>The packet that is sent; the digest only if asked for, zeros otherwise.\<close>

definition send_handshake ::
  "bool \<Rightarrow> (nat \<Rightarrow> u8) \<Rightarrow> hs_codec \<Rightarrow> NetworkIdentity \<Rightarrow> bool \<Rightarrow> PeerConn \<Rightarrow> ZCPacket may_panic" where
  "send_handshake chk garbage cd network send_secret_digest c =
     (let digest = (if send_secret_digest
                    then (case network_secret_digest network of Some d \<Rightarrow> d | None \<Rightarrow> replicate 32 0)
                    else replicate 32 0);
          req = \<lparr>hs_magic = MAGIC, hs_my_peer_id = pc_my_peer_id c, hs_version = VERSION, hs_features = [],
                 hs_network_name = network_name network, hs_network_secret_digrest = digest\<rparr>
      in rbind (new_with_payload garbage (hs_encode cd req))
           (fill_peer_manager_hdr chk (pc_my_peer_id c) 0 (PacketType_u8 HandShake)))"

text \<open>
  The server's half: what it received, the callback \<open>handshake_recved\<close>, whether the sink accepts the
  answer. The result is the connection and the packet sent, if any; \<open>do_handshake_as_server\<close> is the
  case of a callback that does nothing.
\<close>

type_synonym handshake_result = "((Error + unit) \<times> ZCPacket option \<times> PeerConn) may_panic"

definition do_handshake_as_server_ext ::
  "bool \<Rightarrow> (nat \<Rightarrow> u8) \<Rightarrow> (bytes \<Rightarrow> u64) \<Rightarrow> hs_codec \<Rightarrow> NetworkIdentity \<Rightarrow> stream_item list \<Rightarrow> bool \<Rightarrow>
     (PeerConn \<Rightarrow> HandshakeRequest \<Rightarrow> (Error + PeerConn) may_panic) \<Rightarrow> PeerConn \<Rightarrow> handshake_result" where
  "do_handshake_as_server_ext chk garbage finish cd network items sink_ok handshake_recved c =
     rbind (wait_handshake_loop cd items) (\<lambda>r.
       case r of
         Inl e \<Rightarrow> Inr (Inl e, None, c)
       | Inr rsp \<Rightarrow>
           rbind (handshake_recved c rsp) (\<lambda>r.
             case r of
               Inl e \<Rightarrow> Inr (Inl e, None, c)
             | Inr c \<Rightarrow>
                 let c = c\<lparr>pc_info := Some rsp, pc_is_client := Some False\<rparr> in
                 rbind (get_network_identity c) (\<lambda>theirs.
                 rbind (NetworkIdentity_eq finish theirs network) (\<lambda>send_digest.
                 rbind (send_handshake chk garbage cd network send_digest c) (\<lambda>pkt.
                   if \<not> sink_ok then Inr (Inl WaitRespError, None, c)
                   else if hs_my_peer_id rsp = pc_my_peer_id c then Inr (Inl WaitRespError, Some pkt, c)
                   else Inr (Inr (), Some pkt, c))))))"

definition do_handshake_as_client ::
  "bool \<Rightarrow> (nat \<Rightarrow> u8) \<Rightarrow> hs_codec \<Rightarrow> NetworkIdentity \<Rightarrow> stream_item list \<Rightarrow> bool \<Rightarrow> PeerConn \<Rightarrow> handshake_result" where
  "do_handshake_as_client chk garbage cd network items sink_ok c =
     rbind (send_handshake chk garbage cd network True c) (\<lambda>pkt.
       if \<not> sink_ok then Inr (Inl WaitRespError, None, c)
       else rbind (wait_handshake_loop cd items) (\<lambda>r.
         case r of
           Inl e \<Rightarrow> Inr (Inl e, Some pkt, c)
         | Inr rsp \<Rightarrow>
             let c = c\<lparr>pc_info := Some rsp, pc_is_client := Some True\<rparr> in
             if hs_my_peer_id rsp = pc_my_peer_id c then Inr (Inl WaitRespError, Some pkt, c)
             else Inr (Inr (), Some pkt, c)))"

section \<open>Receiving\<close>

record PeerConnCounter =
  traffic_tx_bytes :: u64
  traffic_rx_bytes :: u64
  traffic_tx_packets :: u64
  traffic_rx_packets :: u64

text \<open>Where a received packet goes: back to the neighbour, to the pingers, to the peer manager.\<close>

datatype conn_effect = ToSink ZCPacket | ToCtrl ZCPacket | ToManager ZCPacket

text \<open>
  One packet; the second result tells whether the loop goes on, \<open>chan_ok\<close> whether the manager's
  channel is open. What the sink and the pingers make of a packet is ignored by the code.
\<close>

definition conn_recv_packet ::
  "bool \<Rightarrow> ZCPacket \<Rightarrow> PeerConnCounter \<Rightarrow> (conn_effect list \<times> bool \<times> PeerConnCounter) may_panic" where
  "conn_recv_packet chan_ok p n =
     (let n = n\<lparr>traffic_rx_bytes := traffic_rx_bytes n + of_nat (buf_len p), traffic_rx_packets := traffic_rx_packets n + 1\<rparr> in
      rbind (peer_manager_header p) (\<lambda>h.
        case h of
          None \<Rightarrow> Inr ([], True, n)
        | Some hdr \<Rightarrow>
            if hdr_packet_type hdr = PacketType_u8 Ping then
              rbind (mut_peer_manager_header (\<lambda>h. h\<lparr>hdr_packet_type := PacketType_u8 Pong\<rparr>) p) (\<lambda>q.
              rbind (unwrap q) (\<lambda>q. Inr ([ToSink q], True, n)))
            else if hdr_packet_type hdr = PacketType_u8 Pong then Inr ([ToCtrl p], True, n)
            else if chan_ok then Inr ([ToManager p], True, n) else Inr ([], False, n)))"

fun conn_recv_loop ::
  "(bool \<times> stream_item) list \<Rightarrow> PeerConnCounter \<times> PeerConn \<Rightarrow> (conn_effect list \<times> PeerConnCounter \<times> PeerConn) may_panic" where
  "conn_recv_loop [] (n, c) = Inr ([], n, c)"
| "conn_recv_loop ((chan_ok, StreamEnd) # xs) (n, c) = Inr ([], n, notify_close c)"
| "conn_recv_loop ((chan_ok, StreamError) # xs) (n, c) = Inr ([], n, notify_close c)"
| "conn_recv_loop ((chan_ok, StreamPacket p) # xs) (n, c) =
     rbind (conn_recv_packet chan_ok p n) (\<lambda>(es, go, n).
       if \<not> go then Inr (es, n, notify_close c)
       else rbind (conn_recv_loop xs (n, c)) (\<lambda>(es', r). Inr (es @ es', r)))"

definition conn_send_msg :: "bool \<Rightarrow> ZCPacket \<Rightarrow> PeerConnCounter \<Rightarrow> (Error + unit) \<times> PeerConnCounter" where
  "conn_send_msg sink_ok p n =
     (if sink_ok then Inr () else Inl TunnelFailed,
      n\<lparr>traffic_tx_bytes := traffic_tx_bytes n + of_nat (buf_len p), traffic_tx_packets := traffic_tx_packets n + 1\<rparr>)"

section \<open>Packets on their way\<close>

text \<open>What arrives of a packet: its content, in the layout of whatever tunnel carried it.\<close>

definition carried :: "ZCPacket \<Rightarrow> ZCPacket \<Rightarrow> bool" where
  "carried p q \<longleftrightarrow> wf_packet q \<and> same_content p q"

lemma carried_obtain:
  assumes "carried (mk_packet t pre h pl) q" and "hdr_space t pre"
  obtains pre' where "q = mk_packet (packet_type q) pre' h pl" and "hdr_space (packet_type q) pre'"
proof -
  have wf: "wf_packet q" and same: "payload q = Inr pl" "peer_manager_header q = Inr (Some h)"
    using assms by (simp_all add: carried_def same_content_def mk_payload mk_header)
  from wf_packet_obtain [OF wf] obtain pre' h' pl' where
    "q = mk_packet (packet_type q) pre' h' pl'" "hdr_space (packet_type q) pre'"
    "peer_manager_header q = Inr (Some h')" "payload q = Inr pl'" .
  then show thesis
    using that same by simp
qed

text \<open>The packets nodes make of a payload.\<close>

definition fresh_hdr :: "PeerManagerHeader \<Rightarrow> u32 \<Rightarrow> u32 \<Rightarrow> u8 \<Rightarrow> nat \<Rightarrow> PeerManagerHeader" where
  "fresh_hdr h src dst ptype n = h\<lparr>from_peer_id := src, to_peer_id := dst, hdr_packet_type := ptype, flags := 0,
     forward_counter := 1, pm_len := of_nat n\<rparr>"

lemma fresh_hdr_simps [simp]:
  "from_peer_id (fresh_hdr h src dst pt n) = src" "to_peer_id (fresh_hdr h src dst pt n) = dst"
  "hdr_packet_type (fresh_hdr h src dst pt n) = pt" "flags (fresh_hdr h src dst pt n) = 0"
  "forward_counter (fresh_hdr h src dst pt n) = 1" "pm_len (fresh_hdr h src dst pt n) = of_nat n"
  by (simp_all add: fresh_hdr_def)

lemma made_packet:
  obtains pre h where "rbind (new_with_payload garbage data) (fill_peer_manager_hdr chk src dst ptype) =
      Inr (mk_packet NIC pre (fresh_hdr h src dst ptype (length data)) data)" and "hdr_space NIC pre"
proof -
  obtain pre h where "new_with_payload garbage data = Inr (mk_packet NIC pre h data)" and sp: "hdr_space NIC pre"
    by (rule new_with_payload_parts)
  then show thesis
    using that [of pre h] mk_fill_hdr [OF sp] by (simp add: fresh_hdr_def)
qed

section \<open>Pings are answered\<close>


lemma carried_refl: "wf_packet p \<Longrightarrow> carried p p"
  by (simp add: carried_def same_content_def)

definition no_traffic :: PeerConnCounter where
  "no_traffic = \<lparr>traffic_tx_bytes = 0, traffic_rx_bytes = 0, traffic_tx_packets = 0, traffic_rx_packets = 0\<rparr>"

lemma made_packet_wf:
  assumes "rbind (new_with_payload garbage data) (fill_peer_manager_hdr chk src dst ptype) = Inr p"
  shows "wf_packet p"
  using made_packet [of garbage data chk src dst ptype] assms by (metis Inr_inject mk_wf)

lemma mut_header_wf:
  assumes "wf_packet p" and "mut_peer_manager_header f p = Inr (Some q)"
  shows "wf_packet q"
proof -
  obtain pre h pl where p: "p = mk_packet (packet_type p) pre h pl" and sp: "hdr_space (packet_type p) pre"
    using wf_packet_obtain [OF assms(1)] .
  have "mut_peer_manager_header f p = Inr (Some (mk_packet (packet_type p) pre (f h) pl))"
    by (subst p) (rule mk_mut_header [OF sp])
  then show ?thesis
    using assms(2) mk_wf [OF sp] by simp
qed

lemma turned_round_wf:
  assumes "wf_packet p" and "conn_recv_packet ok p n = Inr ([ToSink q], go, n')"
  shows "wf_packet q"
  using assms mut_header_wf [OF assms(1)]
  by (auto simp: conn_recv_packet_def Let_def rbind_eq_Inr_iff unwrap_eq_Inr_iff split: option.splits if_splits)


section \<open>What the handshake establishes\<close>

definition hs_laws :: "hs_codec \<Rightarrow> bool" where
  "hs_laws cd \<longleftrightarrow> (\<forall>r. hs_decode cd (hs_encode cd r) = Some r)"

definition skipped :: "hs_codec \<Rightarrow> stream_item \<Rightarrow> bool" where
  "skipped cd x \<longleftrightarrow> wait_handshake cd x = Inr (True, Inl WaitRespError)"

lemma wait_handshake_loop_skip:
  "list_all (skipped cd) pre \<Longrightarrow> wait_handshake_loop cd (pre @ xs) = wait_handshake_loop cd xs"
  by (induction pre) (simp_all add: skipped_def)

definition hs_request :: "NetworkIdentity \<Rightarrow> bytes \<Rightarrow> PeerId \<Rightarrow> HandshakeRequest" where
  "hs_request network digest my =
     \<lparr>hs_magic = MAGIC, hs_my_peer_id = my, hs_version = VERSION, hs_features = [],
      hs_network_name = network_name network, hs_network_secret_digrest = digest\<rparr>"

lemma hs_request_simps [simp]:
  "hs_my_peer_id (hs_request network d my) = my" "hs_network_name (hs_request network d my) = network_name network"
  "hs_network_secret_digrest (hs_request network d my) = d"
  by (simp_all add: hs_request_def)

text \<open>A handshake packet made from a request is read back as that request at the other end.\<close>

lemma handshake_read:
  assumes laws: "hs_laws cd" and len: "length (hs_network_secret_digrest r) = 32"
    and p: "rbind (new_with_payload garbage (hs_encode cd r)) (fill_peer_manager_hdr chk src dst (PacketType_u8 HandShake)) = Inr p"
    and q: "carried p q" and pre: "list_all (skipped cd) junk"
  shows "wait_handshake_loop cd (junk @ StreamPacket q # rest) = Inr (Inr r)"
proof -
  let ?data = "hs_encode cd r"
  obtain pre h where "p = mk_packet NIC pre (fresh_hdr h src dst (PacketType_u8 HandShake) (length ?data)) ?data"
    and sp: "hdr_space NIC pre"
    using made_packet [of garbage ?data chk src dst "PacketType_u8 HandShake"] p by auto
  then have "payload q = Inr ?data"
      "peer_manager_header q = Inr (Some (fresh_hdr h src dst (PacketType_u8 HandShake) (length ?data)))"
    using q by (simp_all add: carried_def same_content_def mk_payload mk_header)
  then show ?thesis
    using laws len by (simp add: wait_handshake_loop_skip [OF pre] hs_laws_def)
qed

lemma send_handshake_eq:
  "network_secret_digest network = Some d \<Longrightarrow>
   send_handshake chk garbage cd network b c =
     rbind (new_with_payload garbage (hs_encode cd (hs_request network (if b then d else replicate 32 0) (pc_my_peer_id c))))
       (fill_peer_manager_hdr chk (pc_my_peer_id c) 0 (PacketType_u8 HandShake))"
  by (simp add: send_handshake_def Let_def hs_request_def)

lemma made_packet_payload:
  assumes "rbind (new_with_payload garbage data) (fill_peer_manager_hdr chk src dst ptype) = Inr p"
  shows "payload p = Inr data"
proof -
  obtain pre h where "rbind (new_with_payload garbage data) (fill_peer_manager_hdr chk src dst ptype) =
      Inr (mk_packet NIC pre (fresh_hdr h src dst ptype (length data)) data)" and sp: "hdr_space NIC pre"
    by (rule made_packet)
  then show ?thesis
    using assms mk_payload [OF sp] by simp
qed

lemma made_packet_ex:
  "\<exists>p. rbind (new_with_payload garbage data) (fill_peer_manager_hdr chk src dst ptype) = Inr p"
  by (rule made_packet) blast

lemma NetworkIdentity_eq_digests:
  "network_secret_digest a = Some d \<Longrightarrow> network_secret_digest b = Some e \<Longrightarrow>
     NetworkIdentity_eq finish a b = Inr (network_name a = network_name b \<and> d = e)"
  by (simp add: NetworkIdentity_eq_def with_only_digest_def)

lemma conn_identity:
  assumes "pc_info c = Some r" and "length (hs_network_secret_digrest r) = 32"
    and "network_secret_digest network = Some d"
  shows "rbind (get_network_identity c) (\<lambda>i. NetworkIdentity_eq finish i network) =
    Inr (hs_network_name r = network_name network \<and> hs_network_secret_digrest r = d)"
  using assms by (simp add: get_network_identity_def NetworkIdentity_eq_digests)

text \<open>Which identity the peer manager finds at the other end of a connection, compared with its own.\<close>

definition same_network :: "(bytes \<Rightarrow> u64) \<Rightarrow> NetworkIdentity \<Rightarrow> PeerConn \<Rightarrow> bool may_panic" where
  "same_network finish network c = rbind (get_network_identity c) (\<lambda>i. NetworkIdentity_eq finish i network)"

text \<open>
  C34: What the handshake establishes. Let a client and a server with different peer ids exchange
  their handshakes over a stream that may bring other packets first. Both succeed, each has learnt
  the peer id of the other, and each finds the other in its own network exactly when names and
  digests of the secret agree; the digest of the client is taken not to be all zeros.
\<close>

theorem handshake_agreement:
  assumes laws: "hs_laws cd" and junk: "list_all (skipped cd) junk" "list_all (skipped cd) junk'"
    and ids: "network_secret_digest mine = Some d" "network_secret_digest theirs = Some e" "length d = 32" "length e = 32"
    and zero: "d \<noteq> replicate 32 0" and ne: "pc_my_peer_id c \<noteq> pc_my_peer_id s"
    and hello: "send_handshake chk garbage cd mine True c = Inr hello" "carried hello hello'"
  shows "\<exists>s' answer. do_handshake_as_server_ext chk garbage finish cd theirs (junk @ StreamPacket hello' # rest) True (\<lambda>c r. Inr (Inr c)) s =
        Inr (Inr (), Some answer, s') \<and> get_peer_id s' = Inr (pc_my_peer_id c) \<and>
      same_network finish theirs s' = Inr (network_name mine = network_name theirs \<and> d = e) \<and>
      (\<forall>answer'. carried answer answer' \<longrightarrow>
         (\<exists>c'. do_handshake_as_client chk garbage cd mine (junk' @ StreamPacket answer' # rest') True c = Inr (Inr (), Some hello, c') \<and>
            get_peer_id c' = Inr (pc_my_peer_id s) \<and>
            same_network finish mine c' = Inr (network_name mine = network_name theirs \<and> d = e)))"
proof -
  let ?req = "hs_request mine d (pc_my_peer_id c)"
  let ?same = "network_name mine = network_name theirs \<and> d = e"
  let ?ans = "hs_request theirs (if ?same then e else replicate 32 0) (pc_my_peer_id s)"
  have read: "wait_handshake_loop cd (junk @ StreamPacket hello' # rest) = Inr (Inr ?req)"
    by (rule handshake_read [OF laws _ hello(1) [unfolded send_handshake_eq [OF ids(1)] if_True] hello(2) junk(1)]) (use ids in simp)
  let ?s' = "s\<lparr>pc_info := Some ?req, pc_is_client := Some False\<rparr>"
  have sees: "same_network finish theirs ?s' = Inr ?same"
    using conn_identity [of ?s' ?req theirs e finish] ids by (simp add: same_network_def)
  obtain answer where
    "rbind (new_with_payload garbage (hs_encode cd ?ans)) (fill_peer_manager_hdr chk (pc_my_peer_id s) 0 (PacketType_u8 HandShake)) = Inr answer"
    using made_packet_ex [of garbage "hs_encode cd ?ans" chk "pc_my_peer_id s" 0 "PacketType_u8 HandShake"] by (elim exE)
  then have answer: "send_handshake chk garbage cd theirs ?same ?s' = Inr answer"
    "rbind (new_with_payload garbage (hs_encode cd ?ans)) (fill_peer_manager_hdr chk (pc_my_peer_id s) 0 (PacketType_u8 HandShake)) = Inr answer"
    by (simp_all add: send_handshake_eq [OF ids(2)])
  have server: "do_handshake_as_server_ext chk garbage finish cd theirs (junk @ StreamPacket hello' # rest) True (\<lambda>c r. Inr (Inr c)) s =
        Inr (Inr (), Some answer, ?s')"
    using sees answer(1) ne read
    by (auto simp: do_handshake_as_server_ext_def same_network_def rbind_eq_Inr_iff Let_def)
  have "\<exists>c'. do_handshake_as_client chk garbage cd mine (junk' @ StreamPacket answer' # rest') True c = Inr (Inr (), Some hello, c') \<and>
      get_peer_id c' = Inr (pc_my_peer_id s) \<and> same_network finish mine c' = Inr ?same" if a': "carried answer answer'" for answer'
  proof -
    have read': "wait_handshake_loop cd (junk' @ StreamPacket answer' # rest') = Inr (Inr ?ans)"
      by (rule handshake_read [OF laws _ answer(2) a' junk(2)]) (use ids in simp)
    let ?c' = "c\<lparr>pc_info := Some ?ans, pc_is_client := Some True\<rparr>"
    have "same_network finish mine ?c' = Inr ?same"
      using conn_identity [of ?c' ?ans mine d finish] ids zero by (auto simp: same_network_def)
    then show ?thesis
      using read' hello(1) ne by (simp add: do_handshake_as_client_def get_peer_id_def)
  qed
  then show ?thesis
    using server sees by (auto simp: get_peer_id_def)
qed

text \<open>
  C35: A handshake can be answered without the secret. The client sends the digest of its secret in
  its first packet, whoever listens: a listener that sends the received request back, with a peer
  id of its own and nothing else changed, is taken for a member of the client's network.
\<close>

theorem handshake_digest_reflected:
  assumes laws: "hs_laws cd" and ids: "network_secret_digest mine = Some d" "length d = 32"
    and hello: "send_handshake chk garbage cd mine True c = Inr hello" "payload hello = Inr pl"
    and "hs_decode cd pl = Some r" and ne: "other \<noteq> pc_my_peer_id c"
    and answer: "rbind (new_with_payload garbage' (hs_encode cd (r\<lparr>hs_my_peer_id := other\<rparr>)))
        (fill_peer_manager_hdr chk other 0 (PacketType_u8 HandShake)) = Inr answer" "carried answer answer'"
  shows "\<exists>c'. do_handshake_as_client chk garbage cd mine [StreamPacket answer'] True c = Inr (Inr (), Some hello, c') \<and>
    get_peer_id c' = Inr other \<and> same_network finish mine c' = Inr True"
proof -
  have r: "r = hs_request mine d (pc_my_peer_id c)"
  proof -
    let ?data = "hs_encode cd (hs_request mine d (pc_my_peer_id c))"
    have "payload hello = Inr ?data"
      by (rule made_packet_payload) (use hello(1) send_handshake_eq [OF ids(1), of chk garbage cd True c] in simp)
    then show ?thesis
      using assms(6) hello(2) laws by (simp add: hs_laws_def)
  qed
  let ?ans = "r\<lparr>hs_my_peer_id := other\<rparr>"
  have read: "wait_handshake_loop cd [StreamPacket answer'] = Inr (Inr ?ans)"
    using handshake_read [OF laws _ answer(1) answer(2), of "[]" "[]"] ids by (simp add: r)
  let ?c' = "c\<lparr>pc_info := Some ?ans, pc_is_client := Some True\<rparr>"
  have "same_network finish mine ?c' = Inr True"
    using conn_identity [of ?c' ?ans mine d finish] ids by (simp add: same_network_def r)
  then show ?thesis
    using read hello(1) ne by (simp add: do_handshake_as_client_def get_peer_id_def)
qed


lemma send_handshake_wf: "send_handshake chk garbage cd network b c = Inr p \<Longrightarrow> wf_packet p"
  unfolding send_handshake_def Let_def by (rule made_packet_wf)

lemma rbind_InrE: "rbind m f = Inr y \<Longrightarrow> (\<And>x. m = Inr x \<Longrightarrow> f x = Inr y \<Longrightarrow> P) \<Longrightarrow> P"
  by (auto simp: rbind_eq_Inr_iff)

lemma answer_wf:
  "do_handshake_as_server_ext chk garbage finish cd network items sink_ok f s = Inr (r, Some p, s') \<Longrightarrow> wf_packet p"
  unfolding do_handshake_as_server_ext_def Let_def
  by (auto elim!: rbind_InrE split: sum.split_asm if_split_asm) (erule send_handshake_wf)+

section \<open>Two nodes shake hands\<close>

text \<open>A codec: the fields as numbers, the numbers as one number, that number in unary.\<close>

definition unary_codec :: hs_codec where
  "unary_codec =
     \<lparr>hs_encode = (\<lambda>r. replicate (list_encode [unat (hs_magic r), unat (hs_my_peer_id r), unat (hs_version r),
          list_encode (map (\<lambda>f. list_encode (map of_char f)) (hs_features r)), list_encode (map of_char (hs_network_name r)),
          list_encode (map unat (hs_network_secret_digrest r))]) 0),
      hs_decode = (\<lambda>bs. case list_decode (length bs) of
          [a, b, c, d, e, f] \<Rightarrow> Some \<lparr>hs_magic = of_nat a, hs_my_peer_id = of_nat b, hs_version = of_nat c,
            hs_features = map (\<lambda>f. map char_of (list_decode f)) (list_decode d), hs_network_name = map char_of (list_decode e),
            hs_network_secret_digrest = map of_nat (list_decode f)\<rparr>
        | _ \<Rightarrow> None)\<rparr>"

lemma unary_codec_laws: "hs_laws unary_codec"
  by (simp add: hs_laws_def unary_codec_def comp_def)

definition demo_identity :: NetworkIdentity where
  "demo_identity = \<lparr>network_name = ''n'', network_secret = None, network_secret_digest = Some (replicate 32 7)\<rparr>"

theorem handshake_agreement_witness:
  "\<exists>hello s' answer c'. send_handshake True (\<lambda>_. 0) unary_codec demo_identity True (PeerConn_new 1 10) = Inr hello \<and>
     do_handshake_as_server_ext True (\<lambda>_. 0) (\<lambda>_. 0) unary_codec demo_identity [StreamPacket hello] True (\<lambda>c r. Inr (Inr c)) (PeerConn_new 2 20) =
       Inr (Inr (), Some answer, s') \<and> get_peer_id s' = Inr 10 \<and>
     do_handshake_as_client True (\<lambda>_. 0) unary_codec demo_identity [StreamPacket answer] True (PeerConn_new 1 10) = Inr (Inr (), Some hello, c') \<and>
     get_peer_id c' = Inr 20 \<and> same_network (\<lambda>_. 0) demo_identity c' = Inr True"
proof -
  have d: "network_secret_digest demo_identity = Some (replicate 32 7)"
    by (simp add: demo_identity_def)
  obtain hello where hello: "send_handshake True (\<lambda>_. 0) unary_codec demo_identity True (PeerConn_new 1 10) = Inr hello"
    unfolding send_handshake_eq [OF d]
    using made_packet_ex [of "\<lambda>_. 0" "hs_encode unary_codec (hs_request demo_identity (replicate 32 7) 10)" True 10 0 2]
    by (auto simp: PeerConn_new_def)
  then have wf: "carried hello hello"
    by (intro carried_refl send_handshake_wf)
  have ne: "pc_my_peer_id (PeerConn_new 1 10) \<noteq> pc_my_peer_id (PeerConn_new 2 20)" and z: "replicate 32 7 \<noteq> replicate 32 (0 :: u8)"
    by (simp_all add: PeerConn_new_def)
  obtain s' answer where s': "do_handshake_as_server_ext True (\<lambda>_. 0) (\<lambda>_. 0) unary_codec demo_identity [StreamPacket hello] True (\<lambda>c r. Inr (Inr c)) (PeerConn_new 2 20) =
       Inr (Inr (), Some answer, s')" "get_peer_id s' = Inr 10"
    and c': "\<forall>answer'. carried answer answer' \<longrightarrow>
      (\<exists>c'. do_handshake_as_client True (\<lambda>_. 0) unary_codec demo_identity ([] @ StreamPacket answer' # []) True (PeerConn_new 1 10) = Inr (Inr (), Some hello, c') \<and>
         get_peer_id c' = Inr 20 \<and> same_network (\<lambda>_. 0) demo_identity c' = Inr True)"
    using handshake_agreement [OF unary_codec_laws _ _ d d _ _ z ne hello wf, of "[]" "[]" "\<lambda>_. 0" "[]" "[]"]
    by (auto simp: PeerConn_new_def)
  have "carried answer answer"
    using s'(1) by (intro carried_refl answer_wf)
  from c' [rule_format, OF this] show ?thesis
    using hello s' by auto
qed

theorem handshake_digest_reflected_witness:
  "\<exists>hello answer c'. send_handshake True (\<lambda>_. 0) unary_codec demo_identity True (PeerConn_new 1 10) = Inr hello \<and>
     do_handshake_as_client True (\<lambda>_. 0) unary_codec demo_identity [StreamPacket answer] True (PeerConn_new 1 10) = Inr (Inr (), Some hello, c') \<and>
     get_peer_id c' = Inr 99 \<and> same_network (\<lambda>_. 0) demo_identity c' = Inr True"
proof -
  let ?r = "hs_request demo_identity (replicate 32 7) 10"
  let ?make = "\<lambda>r src. rbind (new_with_payload (\<lambda>_. 0) (hs_encode unary_codec r)) (fill_peer_manager_hdr True src 0 (PacketType_u8 HandShake))"
  have d: "network_secret_digest demo_identity = Some (replicate 32 7)" "length (replicate 32 (7 :: u8)) = 32"
    by (simp_all add: demo_identity_def)
  have eq: "send_handshake True (\<lambda>_. 0) unary_codec demo_identity True (PeerConn_new 1 10) = ?make ?r 10"
    unfolding send_handshake_eq [OF d(1)] by (simp add: PeerConn_new_def)
  have ex: "\<exists>p. ?make r src = Inr p" for r src
    by (rule made_packet_ex)
  obtain hello where hello: "?make ?r 10 = Inr hello"
    using ex [of ?r 10] by (elim exE)
  obtain answer where answer: "?make (?r\<lparr>hs_my_peer_id := 99\<rparr>) 99 = Inr answer"
    using ex [of "?r\<lparr>hs_my_peer_id := 99\<rparr>" 99] by (elim exE)
  have other: "99 \<noteq> pc_my_peer_id (PeerConn_new 1 10)" and dec: "hs_decode unary_codec (hs_encode unary_codec ?r) = Some ?r"
    using unary_codec_laws by (simp_all add: PeerConn_new_def hs_laws_def)
  obtain c' where "do_handshake_as_client True (\<lambda>_. 0) unary_codec demo_identity [StreamPacket answer] True (PeerConn_new 1 10) = Inr (Inr (), Some hello, c')"
    "get_peer_id c' = Inr 99" "same_network (\<lambda>_. 0) demo_identity c' = Inr True"
    using handshake_digest_reflected [OF unary_codec_laws d hello [folded eq] made_packet_payload [OF hello] dec other answer
        carried_refl [OF made_packet_wf [OF answer]], of "\<lambda>_. 0"] by (elim exE conjE)
  then show ?thesis
    using hello [folded eq] by blast
qed

end
