(* ===== verification/Peer_Map.thy ===== *)
theory Peer_Map
  imports Peer_Conn Ospf_Service Ospf_Address
begin

text \<open>
  Peers and the map of peers, \<open>src/easytier/src/peers/peer.rs\<close> and \<open>src/easytier/src/peers/peer_map.rs\<close>: a peer
  is a set of connections of which one is the default for sending; the map finds peers, asks the
  routes for gateways and drops peers without connections. The tasks a peer spawns are its turns:
  one takes a close event from the channel, one forgets the default. A route is the record of the
  answers it gives (\<open>src/easytier/src/peers/route_trait.rs\<close>); \<open>ospf_route\<close> builds it from the route
  service. Also the client side of foreign networks, a peer map of its own
  (\<open>src/easytier/src/peers/foreign_network_client.rs\<close>).
\<close>

section \<open>Peers\<close>

datatype GlobalCtxEvent =
    PeerAdded PeerId
  | PeerRemoved PeerId
  | PeerConnAdded ApiPeerConnInfo
  | PeerConnRemoved ApiPeerConnInfo

record Peer =
  peer_node_id :: PeerId
  conns :: "(PeerConnId \<times> PeerConn) list"
  default_conn_id :: PeerConnId
  close_events :: "PeerConnId list"

definition Peer_new :: "PeerId \<Rightarrow> Peer" where
  "Peer_new p = \<lparr>peer_node_id = p, conns = [], default_conn_id = 0, close_events = []\<rparr>"

definition peer_add_conn :: "PeerConn \<Rightarrow> Peer \<Rightarrow> (GlobalCtxEvent list \<times> Peer) may_panic" where
  "peer_add_conn c p =
     rbind (get_conn_info c) (\<lambda>i. Inr ([PeerConnAdded i], p\<lparr>conns := AList.update (pc_conn_id c) c (conns p)\<rparr>))"

text \<open>A connection that closes tells its peer; the listener takes it out of the map.\<close>

definition conn_closes :: "PeerConnId \<Rightarrow> Peer \<Rightarrow> Peer" where
  "conn_closes cid p =
     p\<lparr>conns := map (\<lambda>(k, c). (k, if k = cid then notify_close c else c)) (conns p), close_events := close_events p @ [cid]\<rparr>"

definition close_event_turn :: "Peer \<Rightarrow> (GlobalCtxEvent list \<times> Peer) may_panic" where
  "close_event_turn p =
     (case close_events p of
        [] \<Rightarrow> Inr ([], p)
      | cid # rest \<Rightarrow>
          let p = p\<lparr>close_events := rest\<rparr> in
          (case map_of (conns p) cid of
             None \<Rightarrow> Inr ([], p)
           | Some c \<Rightarrow> rbind (get_conn_info c) (\<lambda>i. Inr ([PeerConnRemoved i], p\<lparr>conns := AList.delete cid (conns p)\<rparr>))))"

definition default_conn_clear_turn :: "Peer \<Rightarrow> Peer" where
  "default_conn_clear_turn p = (if length (conns p) > 1 then p\<lparr>default_conn_id := 0\<rparr> else p)"

text \<open>The search for the least latency, from \<open>u64::MAX\<close> down; the reported latency is of 32 bits.\<close>

definition conn_latency :: "PeerConn \<Rightarrow> u64" where
  "conn_latency c = ucast (get_latency_us (pc_latency_stats c))"

fun least_latency :: "(PeerConnId \<times> PeerConn) list \<Rightarrow> u64 \<Rightarrow> PeerConnId \<Rightarrow> PeerConnId" where
  "least_latency [] min_latency def = def"
| "least_latency ((k, c) # cs) min_latency def =
     (if conn_latency c < min_latency then least_latency cs (conn_latency c) (pc_conn_id c)
      else least_latency cs min_latency def)"

definition select_conn :: "Peer \<Rightarrow> PeerConn option \<times> Peer" where
  "select_conn p =
     (case map_of (conns p) (default_conn_id p) of
        Some c \<Rightarrow> (Some c, p)
      | None \<Rightarrow>
          let p = p\<lparr>default_conn_id := least_latency (conns p) (- 1) (default_conn_id p)\<rparr>
          in (map_of (conns p) (default_conn_id p), p))"

text \<open>Sending: \<open>sink\<close> tells whether a connection's sink accepts a packet; the packet is put on that connection.\<close>

type_synonym sinks = "PeerConnId \<Rightarrow> ZCPacket \<Rightarrow> bool"

definition peer_send_msg :: "sinks \<Rightarrow> ZCPacket \<Rightarrow> Peer \<Rightarrow> (Error + PeerConnId) \<times> Peer" where
  "peer_send_msg sink msg p =
     (case select_conn p of
        (None, p) \<Rightarrow> (Inl (PeerNoConnectionError (peer_node_id p)), p)
      | (Some c, p) \<Rightarrow> (if sink (pc_conn_id c) msg then Inr (pc_conn_id c) else Inl TunnelFailed, p))"

definition peer_close_conn :: "PeerConnId \<Rightarrow> Peer \<Rightarrow> (Error + unit) \<times> Peer" where
  "peer_close_conn cid p =
     (if map_of (conns p) cid = None then (Inl NotFound, p)
      else (Inr (), p\<lparr>close_events := close_events p @ [cid]\<rparr>))"

fun list_conns :: "PeerConn list \<Rightarrow> Peer \<Rightarrow> (ApiPeerConnInfo list \<times> Peer) may_panic" where
  "list_conns [] p = Inr ([], p)"
| "list_conns (c # cs) p =
     rbind (get_conn_info c) (\<lambda>i.
       if \<not> ci_is_closed i then rbind (list_conns cs p) (\<lambda>(is, p). Inr (i # is, p))
       else list_conns cs (snd (peer_close_conn (ci_conn_id i) p)))"

definition peer_list_conns :: "Peer \<Rightarrow> (ApiPeerConnInfo list \<times> Peer) may_panic" where
  "peer_list_conns p = list_conns (map snd (conns p)) p"

definition has_directly_connected_conn :: "Peer \<Rightarrow> bool" where
  "has_directly_connected_conn p = list_ex (\<lambda>(k, c). \<not> pc_is_hole_punched c) (conns p)"

definition get_directly_connections :: "Peer \<Rightarrow> PeerConnId set" where
  "get_directly_connections p = set (map (\<lambda>(k, c). pc_conn_id c) (filter (\<lambda>(k, c). \<not> pc_is_hole_punched c) (conns p)))"

fun drop_conns :: "PeerConn list \<Rightarrow> GlobalCtxEvent list may_panic" where
  "drop_conns [] = Inr []"
| "drop_conns (c # cs) = rbind (get_conn_info c) (\<lambda>i. rbind (drop_conns cs) (\<lambda>es. Inr (PeerConnRemoved i # es)))"

section \<open>Routes\<close>

text \<open>What the peer map asks of a route.\<close>

record route_obj =
  route_next_hop :: "PeerId \<Rightarrow> NextHopPolicy \<Rightarrow> PeerId option"
  route_peer_by_ipv4 :: "u32 \<Rightarrow> PeerId option"
  route_peer_by_ipv6 :: "128 word \<Rightarrow> PeerId option"
  route_peer_info :: "PeerId \<Rightarrow> RoutePeerInfo option"
  route_origin_my_peer_id :: "string \<Rightarrow> PeerId \<Rightarrow> PeerId option"
  route_own_foreign_network :: "string \<times> bytes \<Rightarrow> PeerId list"
  route_list :: "(PeerId \<times> PeerId) list"

text \<open>The peers and next hops of \<open>list_routes\<close>; the fields for display are left out.\<close>

definition list_routes :: "'r PeerRouteServiceImpl \<Rightarrow> (PeerId \<times> PeerId) list" where
  "list_routes s =
     List.map_filter (\<lambda>(p, i). if p = svc_my_peer_id s then None
       else map_option (\<lambda>h. (peer_id i, next_hop_peer_id h)) (get_next_hop (route_table s) p)) (rt_peer_infos (route_table s))"

text \<open>The tables of the route service hold IPv6 addresses in the four parts of the messages.\<close>

definition Ipv6Addr_parts :: "128 word \<Rightarrow> u32 \<times> u32 \<times> u32 \<times> u32" where
  "Ipv6Addr_parts a = (ucast (drop_bit 96 a), ucast (drop_bit 64 a), ucast (drop_bit 32 a), ucast a)"

text \<open>The route the OSPF service is: longest-prefix matches and the check for the own network are given.\<close>

definition ospf_route ::
  "(((u32 \<times> nat) \<times> PeerIdAndVersion) list \<Rightarrow> u32 \<Rightarrow> PeerIdAndVersion option) \<Rightarrow>
   (((128 word \<times> nat) \<times> PeerIdAndVersion) list \<Rightarrow> 128 word \<Rightarrow> PeerIdAndVersion option) \<Rightarrow>
   (IpAddr \<Rightarrow> bool) \<Rightarrow> 'r PeerRouteServiceImpl \<Rightarrow> route_obj" where
  "ospf_route lpm lpm6 same_net s =
     \<lparr>route_next_hop = (\<lambda>dst policy. get_next_hop_with_policy dst policy s),
      route_peer_by_ipv4 = get_peer_id_by_ipv4 lpm lpm6 same_net (route_table s),
      route_peer_by_ipv6 = (\<lambda>a. get_peer_id_by_ipv6 lpm lpm6 same_net (route_table s) (Ipv6Addr_parts a)),
      route_peer_info = (\<lambda>p. get_peer_info p s),
      route_origin_my_peer_id = (\<lambda>name p. get_origin_my_peer_id name p s),
      route_own_foreign_network = (\<lambda>i. list_peers_own_foreign_network i s),
      route_list = list_routes s\<rparr>"

text \<open>The first route that has an answer gives it.\<close>

fun first_answer :: "('r \<Rightarrow> 'a option) \<Rightarrow> 'r list \<Rightarrow> 'a option" where
  "first_answer f [] = None"
| "first_answer f (r # rs) = (case f r of Some x \<Rightarrow> Some x | None \<Rightarrow> first_answer f rs)"

section \<open>The map of peers\<close>

record PeerMap =
  map_my_peer_id :: PeerId
  peer_map :: "(PeerId \<times> Peer) list"
  routes :: "route_obj list"
  alive_conns :: "((PeerId \<times> PeerConnId) \<times> ApiPeerConnInfo) list"

definition PeerMap_new :: "PeerId \<Rightarrow> PeerMap" where
  "PeerMap_new my = \<lparr>map_my_peer_id = my, peer_map = [], routes = [], alive_conns = []\<rparr>"

definition put_peer :: "PeerId \<Rightarrow> Peer \<Rightarrow> PeerMap \<Rightarrow> PeerMap" where
  "put_peer k p m = m\<lparr>peer_map := AList.update k p (peer_map m)\<rparr>"

definition add_new_peer :: "Peer \<Rightarrow> PeerMap \<Rightarrow> GlobalCtxEvent list \<times> PeerMap" where
  "add_new_peer p m = ([PeerAdded (peer_node_id p)], put_peer (peer_node_id p) p m)"

definition maintain_alive_conns :: "PeerConn \<Rightarrow> PeerMap \<Rightarrow> PeerMap may_panic" where
  "maintain_alive_conns c m =
     rbind (get_conn_info c) (\<lambda>i. Inr (m\<lparr>alive_conns := AList.update (ci_peer_id i, pc_conn_id c) i (alive_conns m)\<rparr>))"

text \<open>What the waiter of a connection does when it closes.\<close>

definition alive_conn_closes :: "PeerId \<times> PeerConnId \<Rightarrow> PeerMap \<Rightarrow> PeerMap may_panic" where
  "alive_conn_closes k m =
     rbind (unwrap (map_of (alive_conns m) k)) (\<lambda>_. Inr (m\<lparr>alive_conns := AList.delete k (alive_conns m)\<rparr>))"

text \<open>
  Adding a connection looks its peer up twice; the map is not locked in between. The function is
  the two halves one after the other.
\<close>

definition add_conn_no_entry :: "PeerConn \<Rightarrow> PeerMap \<Rightarrow> bool may_panic" where
  "add_conn_no_entry c m = rbind (get_peer_id c) (\<lambda>p. Inr (map_of (peer_map m) p = None))"

definition add_conn_commit :: "bool \<Rightarrow> PeerConn \<Rightarrow> PeerMap \<Rightarrow> (GlobalCtxEvent list \<times> PeerMap) may_panic" where
  "add_conn_commit no_entry c m =
     rbind (get_peer_id c) (\<lambda>p.
       if no_entry then
         rbind (peer_add_conn c (Peer_new p)) (\<lambda>(es, new_peer).
           let (es', m) = add_new_peer new_peer m in Inr (es @ es', m))
       else
         rbind (unwrap (map_of (peer_map m) p)) (\<lambda>peer.
         rbind (peer_add_conn c peer) (\<lambda>(es, peer). Inr (es, put_peer p peer m))))"

definition add_new_peer_conn :: "PeerConn \<Rightarrow> PeerMap \<Rightarrow> (GlobalCtxEvent list \<times> PeerMap) may_panic" where
  "add_new_peer_conn c m =
     rbind (maintain_alive_conns c m) (\<lambda>m.
     rbind (add_conn_no_entry c m) (\<lambda>no_entry. add_conn_commit no_entry c m))"

definition get_peer_by_id :: "PeerId \<Rightarrow> PeerMap \<Rightarrow> Peer option" where
  "get_peer_by_id p m = map_of (peer_map m) p"

definition get_directly_connections_by_peer_id :: "PeerId \<Rightarrow> PeerMap \<Rightarrow> PeerConnId set" where
  "get_directly_connections_by_peer_id p m =
     (case get_peer_by_id p m of Some peer \<Rightarrow> get_directly_connections peer | None \<Rightarrow> {})"

definition has_peer :: "PeerId \<Rightarrow> PeerMap \<Rightarrow> bool" where
  "has_peer p m \<longleftrightarrow> p = map_my_peer_id m \<or> map_of (peer_map m) p \<noteq> None"

text \<open>Where a packet went: into this node's own channel or onto a connection of a peer.\<close>

datatype sent = SentToSelf ZCPacket | SentTo PeerId PeerConnId ZCPacket

definition send_msg_directly :: "sinks \<Rightarrow> ZCPacket \<Rightarrow> PeerId \<Rightarrow> PeerMap \<Rightarrow> (Error + sent) \<times> PeerMap" where
  "send_msg_directly sink msg dst m =
     (if dst = map_my_peer_id m then (Inr (SentToSelf msg), m)
      else case get_peer_by_id dst m of
          None \<Rightarrow> (Inl RouteError, m)
        | Some peer \<Rightarrow>
            (case peer_send_msg sink msg peer of
               (Inl e, peer) \<Rightarrow> (Inl e, put_peer dst peer m)
             | (Inr cid, peer) \<Rightarrow> (Inr (SentTo dst cid msg), put_peer dst peer m)))"

definition get_gateway_peer_id :: "PeerId \<Rightarrow> NextHopPolicy \<Rightarrow> PeerMap \<Rightarrow> PeerId option" where
  "get_gateway_peer_id dst policy m =
     (if dst = map_my_peer_id m then Some dst
      else if has_peer dst m \<and> policy = LeastHop then Some dst
      else first_answer (\<lambda>r. route_next_hop r dst policy) (routes m))"

definition map_list_peers_own_foreign_network :: "string \<times> bytes \<Rightarrow> PeerMap \<Rightarrow> PeerId list" where
  "map_list_peers_own_foreign_network ident m = concat (map (\<lambda>r. route_own_foreign_network r ident) (routes m))"

definition map_send_msg :: "sinks \<Rightarrow> ZCPacket \<Rightarrow> PeerId \<Rightarrow> NextHopPolicy \<Rightarrow> PeerMap \<Rightarrow> (Error + sent) \<times> PeerMap" where
  "map_send_msg sink msg dst policy m =
     (case get_gateway_peer_id dst policy m of
        None \<Rightarrow> (Inl RouteError, m) | Some gateway \<Rightarrow> send_msg_directly sink msg gateway m)"

definition map_peer_id_by_ipv4 :: "u32 \<Rightarrow> PeerMap \<Rightarrow> PeerId option" where
  "map_peer_id_by_ipv4 a m = first_answer (\<lambda>r. route_peer_by_ipv4 r a) (routes m)"

definition map_peer_id_by_ipv6 :: "128 word \<Rightarrow> PeerMap \<Rightarrow> PeerId option" where
  "map_peer_id_by_ipv6 a m = first_answer (\<lambda>r. route_peer_by_ipv6 r a) (routes m)"

definition get_route_peer_info :: "PeerId \<Rightarrow> PeerMap \<Rightarrow> RoutePeerInfo option" where
  "get_route_peer_info p m = first_answer (\<lambda>r. route_peer_info r p) (routes m)"

definition map_origin_my_peer_id :: "string \<Rightarrow> PeerId \<Rightarrow> PeerMap \<Rightarrow> PeerId option" where
  "map_origin_my_peer_id name p m = first_answer (\<lambda>r. route_origin_my_peer_id r name p) (routes m)"

definition list_peers :: "PeerMap \<Rightarrow> PeerId list" where
  "list_peers m = map fst (peer_map m)"

definition map_list_peer_conns :: "PeerId \<Rightarrow> PeerMap \<Rightarrow> (ApiPeerConnInfo list option \<times> PeerMap) may_panic" where
  "map_list_peer_conns p m =
     (case get_peer_by_id p m of
        None \<Rightarrow> Inr (None, m)
      | Some peer \<Rightarrow> rbind (peer_list_conns peer) (\<lambda>(is, peer). Inr (Some is, put_peer p peer m)))"

fun peers_with_conn :: "PeerId list \<Rightarrow> PeerMap \<Rightarrow> (PeerId list \<times> PeerMap) may_panic" where
  "peers_with_conn [] m = Inr ([], m)"
| "peers_with_conn (p # ps) m =
     rbind (map_list_peer_conns p m) (\<lambda>(is, m).
     rbind (peers_with_conn ps m) (\<lambda>(qs, m).
       Inr (case is of None \<Rightarrow> qs | Some is \<Rightarrow> if is \<noteq> [] then p # qs else qs, m)))"

definition list_peers_with_conn :: "PeerMap \<Rightarrow> (PeerId list \<times> PeerMap) may_panic" where
  "list_peers_with_conn m = peers_with_conn (list_peers m) m"

definition get_peer_default_conn_id :: "PeerId \<Rightarrow> PeerMap \<Rightarrow> PeerConnId option" where
  "get_peer_default_conn_id p m = map_option default_conn_id (get_peer_by_id p m)"

definition map_close_peer_conn :: "PeerId \<Rightarrow> PeerConnId \<Rightarrow> PeerMap \<Rightarrow> (Error + unit) \<times> PeerMap" where
  "map_close_peer_conn p cid m =
     (case get_peer_by_id p m of
        None \<Rightarrow> (Inl NotFound, m) | Some peer \<Rightarrow> (let (r, peer) = peer_close_conn cid peer in (r, put_peer p peer m)))"

text \<open>A removed peer is dropped with the connections it still has.\<close>

definition close_peer :: "PeerId \<Rightarrow> PeerMap \<Rightarrow> (GlobalCtxEvent list \<times> PeerMap) may_panic" where
  "close_peer p m =
     rbind (case get_peer_by_id p m of None \<Rightarrow> Inr [] | Some peer \<Rightarrow> drop_conns (map snd (conns peer))) (\<lambda>es.
       Inr (PeerRemoved p # es, m\<lparr>peer_map := AList.delete p (peer_map m)\<rparr>))"

definition add_route :: "route_obj \<Rightarrow> PeerMap \<Rightarrow> PeerMap" where
  "add_route r m = m\<lparr>routes := r # routes m\<rparr>"

fun peers_to_remove :: "PeerId list \<Rightarrow> PeerMap \<Rightarrow> (PeerId list \<times> PeerMap) may_panic" where
  "peers_to_remove [] m = Inr ([], m)"
| "peers_to_remove (p # ps) m =
     rbind (map_list_peer_conns p m) (\<lambda>(is, m).
     rbind (peers_to_remove ps m) (\<lambda>(qs, m).
       Inr (if is = None \<or> is = Some [] then p # qs else qs, m)))"

fun close_peers :: "PeerId list \<Rightarrow> PeerMap \<Rightarrow> (GlobalCtxEvent list \<times> PeerMap) may_panic" where
  "close_peers [] m = Inr ([], m)"
| "close_peers (p # ps) m =
     rbind (close_peer p m) (\<lambda>(es, m). rbind (close_peers ps m) (\<lambda>(es', m). Inr (es @ es', m)))"

definition clean_peer_without_conn :: "PeerMap \<Rightarrow> (GlobalCtxEvent list \<times> PeerMap) may_panic" where
  "clean_peer_without_conn m = rbind (peers_to_remove (list_peers m) m) (\<lambda>(ps, m). close_peers ps m)"

definition map_list_routes :: "PeerMap \<Rightarrow> (PeerId \<times> PeerId) list" where
  "map_list_routes m = fold (\<lambda>r acc. fold (\<lambda>(p, h) acc. AList.update p h acc) (route_list r) acc) (routes m) []"

definition need_relay_by_foreign_network :: "PeerId \<Rightarrow> PeerMap \<Rightarrow> Error + bool" where
  "need_relay_by_foreign_network dst m =
     (case get_gateway_peer_id dst LeastHop m of None \<Rightarrow> Inl RouteError | Some g \<Rightarrow> Inr (\<not> has_peer g m))"

section \<open>The client side of foreign networks\<close>

definition client_get_next_hop :: "PeerId \<Rightarrow> PeerMap \<Rightarrow> PeerId option" where
  "client_get_next_hop p m = (if has_peer p m then Some p else None)"

definition client_has_next_hop :: "PeerId \<Rightarrow> PeerMap \<Rightarrow> bool" where
  "client_has_next_hop p m \<longleftrightarrow> client_get_next_hop p m \<noteq> None"

definition client_send_msg :: "sinks \<Rightarrow> ZCPacket \<Rightarrow> PeerId \<Rightarrow> PeerMap \<Rightarrow> (Error + sent) \<times> PeerMap" where
  "client_send_msg sink msg p m =
     (case client_get_next_hop p m of
        Some next_hop \<Rightarrow> send_msg_directly sink msg next_hop m | None \<Rightarrow> (Inl RouteError, m))"

section \<open>The connection chosen for sending\<close>

lemma conn_latency_small: "conn_latency c < - 1"
proof -
  let ?l = "get_latency_us (pc_latency_stats c)"
  have "unat ?l < 2 ^ 32"
    using unsigned_less [of ?l, where 'a = nat] by simp
  then have "unat (conn_latency c) < 2 ^ 32"
    by (simp add: conn_latency_def unsigned_ucast_eq take_bit_nat_eq_self)
  moreover have "unat (- 1 :: u64) = 2 ^ 64 - 1"
    by (simp add: unsigned_minus_1_eq_mask mask_eq_exp_minus_1)
  ultimately show ?thesis
    by (simp add: word_less_nat_alt)
qed

lemma least_latency_cases:
  "(least_latency cs b def = def \<and> (\<forall>x\<in>set cs. b \<le> conn_latency (snd x))) \<or>
   (\<exists>x\<in>set cs. least_latency cs b def = pc_conn_id (snd x) \<and> conn_latency (snd x) < b \<and> (\<forall>y\<in>set cs. conn_latency (snd x) \<le> conn_latency (snd y)))"
proof (induction cs b def rule: least_latency.induct)
  case (2 k c cs b def)
  show ?case
  proof (cases "conn_latency c < b")
    case True
    note ih = 2(1) [OF True]
    show ?thesis
      using ih
    proof
      assume "least_latency cs (conn_latency c) (pc_conn_id c) = pc_conn_id c \<and> (\<forall>x\<in>set cs. conn_latency c \<le> conn_latency (snd x))"
      then show ?thesis
        using True by (intro disjI2 bexI [of _ "(k, c)"]) auto
    next
      assume "\<exists>x\<in>set cs. least_latency cs (conn_latency c) (pc_conn_id c) = pc_conn_id (snd x) \<and> conn_latency (snd x) < conn_latency c \<and>
          (\<forall>y\<in>set cs. conn_latency (snd x) \<le> conn_latency (snd y))"
      then obtain x where x: "x \<in> set cs" "least_latency cs (conn_latency c) (pc_conn_id c) = pc_conn_id (snd x)"
        "conn_latency (snd x) < conn_latency c" "\<forall>y\<in>set cs. conn_latency (snd x) \<le> conn_latency (snd y)"
        by blast
      then show ?thesis
        using True by (intro disjI2 bexI [of _ x]) auto
    qed
  next
    case False
    note ih = 2(2) [OF False]
    show ?thesis
      using ih
    proof
      assume "\<exists>x\<in>set cs. least_latency cs b def = pc_conn_id (snd x) \<and> conn_latency (snd x) < b \<and>
          (\<forall>y\<in>set cs. conn_latency (snd x) \<le> conn_latency (snd y))"
      then obtain x where x: "x \<in> set cs" "least_latency cs b def = pc_conn_id (snd x)" "conn_latency (snd x) < b"
        "\<forall>y\<in>set cs. conn_latency (snd x) \<le> conn_latency (snd y)"
        by blast
      then have "conn_latency (snd x) \<le> conn_latency c"
        using False by (simp add: not_less)
      then show ?thesis
        using x False by (intro disjI2 bexI [of _ x]) auto
    qed (use False in \<open>auto simp: not_less\<close>)
  qed
qed simp

definition peer_ok :: "Peer \<Rightarrow> bool" where
  "peer_ok p \<longleftrightarrow> distinct (map fst (conns p)) \<and>
     list_all (\<lambda>(k, c). k = pc_conn_id c \<and> map_option hs_my_peer_id (pc_info c) = Some (peer_node_id p)) (conns p)"

lemma peer_okD:
  assumes "peer_ok p" and "(k, c) \<in> set (conns p)"
  shows "k = pc_conn_id c" "\<exists>i. pc_info c = Some i \<and> hs_my_peer_id i = peer_node_id p" "map_of (conns p) k = Some c"
  using assms by (auto simp: peer_ok_def list_all_iff)

lemma select_conn_spec:
  assumes "peer_ok p"
  shows "case select_conn p of
      (None, p') \<Rightarrow> conns p = [] \<and> conns p' = []
    | (Some c, p') \<Rightarrow> (pc_conn_id c, c) \<in> set (conns p) \<and> default_conn_id p' = pc_conn_id c \<and> conns p' = conns p \<and>
        (map_of (conns p) (default_conn_id p) = None \<longrightarrow> (\<forall>(k, d)\<in>set (conns p). conn_latency c \<le> conn_latency d))"
proof (cases "map_of (conns p) (default_conn_id p)")
  case (Some c)
  then show ?thesis
    using peer_okD [OF assms map_of_SomeD [OF Some]] map_of_SomeD [OF Some] by (simp add: select_conn_def)
next
  case None
  let ?new = "least_latency (conns p) (- 1) (default_conn_id p)"
  show ?thesis
  proof (cases "conns p")
    case Nil
    then show ?thesis
      by (simp add: select_conn_def)
  next
    case (Cons x xs)
    have "\<not> (\<forall>x\<in>set (conns p). - 1 \<le> conn_latency (snd x))"
      using conn_latency_small [of "snd x"] by (auto simp: Cons not_le)
    then obtain y where y: "y \<in> set (conns p)" "?new = pc_conn_id (snd y)" "\<forall>z\<in>set (conns p). conn_latency (snd y) \<le> conn_latency (snd z)"
      using least_latency_cases [of "conns p" "- 1" "default_conn_id p"] by blast
    let ?k = "fst y" and ?c = "snd y"
    have c: "(?k, ?c) \<in> set (conns p)" "?new = pc_conn_id ?c" "\<forall>(k', d)\<in>set (conns p). conn_latency ?c \<le> conn_latency d"
      using y by (simp_all add: case_prod_beta)
    then show ?thesis
      using peer_okD [OF assms c(1)] None by (simp add: select_conn_def Let_def)
  qed
qed



section \<open>Well-formed maps\<close>

definition peers_ok :: "PeerMap \<Rightarrow> bool" where
  "peers_ok m \<longleftrightarrow> distinct (map fst (peer_map m)) \<and> list_all (\<lambda>(k, p). k = peer_node_id p \<and> peer_ok p) (peer_map m)"

lemma peers_ok_peer: "peers_ok m \<Longrightarrow> map_of (peer_map m) k = Some p \<Longrightarrow> k = peer_node_id p \<and> peer_ok p"
  by (auto simp: peers_ok_def list_all_iff dest: map_of_SomeD)

lemma update_set_subset: "set (AList.update k v xs) \<subseteq> insert (k, v) (set xs)"
  by (induction xs) auto

lemma put_peer_ok: "peers_ok m \<Longrightarrow> peer_ok p \<Longrightarrow> k = peer_node_id p \<Longrightarrow> peers_ok (put_peer k p m)"
  using update_set_subset [of k p "peer_map m"]
  by (auto simp: peers_ok_def put_peer_def list_all_iff distinct_update)

lemma delete_peer_ok: "peers_ok m \<Longrightarrow> peers_ok (m\<lparr>peer_map := AList.delete k (peer_map m)\<rparr>)"
  by (auto simp: peers_ok_def list_all_iff AList.delete_eq distinct_map inj_on_def)

lemma get_conn_info_total: "pc_info c = Some i \<Longrightarrow> \<exists>ci. get_conn_info c = Inr ci \<and> ci_is_closed ci = pc_closed c \<and>
    ci_conn_id ci = pc_conn_id c \<and> ci_peer_id ci = hs_my_peer_id i"
  by (simp add: get_conn_info_def)

text \<open>Operations that leave the connections of every peer alone.\<close>

definition conns_view :: "PeerMap \<Rightarrow> (PeerId \<times> PeerId \<times> (PeerConnId \<times> PeerConn) list) list" where
  "conns_view m = map (\<lambda>(k, p). (k, peer_node_id p, conns p)) (peer_map m)"

definition same_conns :: "PeerMap \<Rightarrow> PeerMap \<Rightarrow> bool" where
  "same_conns m m' \<longleftrightarrow> conns_view m' = conns_view m \<and> alive_conns m' = alive_conns m \<and> routes m' = routes m \<and>
     map_my_peer_id m' = map_my_peer_id m"

lemma list_peers_view: "list_peers m = map fst (conns_view m)"
  by (simp add: list_peers_def conns_view_def case_prod_unfold comp_def)

lemma same_conns_refl [simp]: "same_conns m m"
  by (simp add: same_conns_def)

lemma same_conns_trans: "same_conns m m' \<Longrightarrow> same_conns m' m'' \<Longrightarrow> same_conns m m''"
  by (simp add: same_conns_def)

lemma map_of_view:
  "map_option (\<lambda>p. (peer_node_id p, conns p)) (map_of (peer_map m) k) = map_of (conns_view m) k"
  unfolding conns_view_def map_of_map by (simp add: comp_def)

lemma peer_ok_view: "peer_node_id q = peer_node_id p \<Longrightarrow> conns q = conns p \<Longrightarrow> peer_ok q = peer_ok p"
  by (simp add: peer_ok_def)

lemma update_view:
  "map_of xs k = Some p \<Longrightarrow> f q = f p \<Longrightarrow> map (\<lambda>(k, x). (k, f x)) (AList.update k q xs) = map (\<lambda>(k, x). (k, f x)) xs"
  by (induction xs) (auto split: if_splits)

lemma put_same_conns:
  assumes "map_of (peer_map m) k = Some p" and "peer_node_id q = peer_node_id p" "conns q = conns p"
  shows "same_conns m (put_peer k q m)"
  using update_view [of "peer_map m" k p "\<lambda>p. (peer_node_id p, conns p)" q] assms
  by (simp add: same_conns_def conns_view_def put_peer_def)

lemma peers_ok_view:
  "peers_ok m \<longleftrightarrow> distinct (map fst (conns_view m)) \<and>
     list_all (\<lambda>(k, i, cs). k = i \<and> peer_ok \<lparr>peer_node_id = i, conns = cs, default_conn_id = 0, close_events = []\<rparr>) (conns_view m)"
proof -
  have "peer_ok \<lparr>peer_node_id = peer_node_id p, conns = conns p, default_conn_id = 0, close_events = []\<rparr> = peer_ok p" for p
    by (rule peer_ok_view) simp_all
  then show ?thesis
    by (simp add: peers_ok_def conns_view_def list_all_iff case_prod_unfold comp_def)
qed

lemma same_conns_ok: "same_conns m m' \<Longrightarrow> peers_ok m' = peers_ok m"
  by (simp add: peers_ok_view same_conns_def)

section \<open>Listing and cleaning\<close>

definition open_conns :: "Peer \<Rightarrow> bool" where
  "open_conns p \<longleftrightarrow> list_ex (\<lambda>(k, c). \<not> pc_closed c) (conns p)"

lemma list_conns_total:
  "list_all (\<lambda>c. pc_info c \<noteq> None) cs \<Longrightarrow>
   \<exists>is p'. list_conns cs p = Inr (is, p') \<and> peer_node_id p' = peer_node_id p \<and> conns p' = conns p \<and>
     (is = [] \<longleftrightarrow> list_all pc_closed cs)"
proof (induction cs arbitrary: p)
  case (Cons c cs)
  then obtain i where "pc_info c = Some i"
    by auto
  then obtain ci where ci: "get_conn_info c = Inr ci" "ci_is_closed ci = pc_closed c"
    using get_conn_info_total by blast
  have keep: "peer_node_id (snd (peer_close_conn k p)) = peer_node_id p" "conns (snd (peer_close_conn k p)) = conns p" for k
    by (simp_all add: peer_close_conn_def)
  show ?case
    using Cons.IH [of p] Cons.IH [of "snd (peer_close_conn (ci_conn_id ci) p)"] Cons.prems ci by (auto simp: keep)
qed simp

lemma peer_list_conns_total:
  assumes "peer_ok p"
  shows "\<exists>is p'. peer_list_conns p = Inr (is, p') \<and> peer_node_id p' = peer_node_id p \<and> conns p' = conns p \<and>
    (is = [] \<longleftrightarrow> \<not> open_conns p)"
proof -
  have "list_all (\<lambda>c. pc_info c \<noteq> None) (map snd (conns p))"
    using assms by (auto simp: peer_ok_def list_all_iff)
  then show ?thesis
    using list_conns_total [of "map snd (conns p)" p]
    by (simp add: peer_list_conns_def open_conns_def list_all_iff list_ex_iff case_prod_unfold)
qed

definition has_open :: "PeerMap \<Rightarrow> PeerId \<Rightarrow> bool" where
  "has_open m k \<longleftrightarrow> (case map_of (peer_map m) k of None \<Rightarrow> False | Some p \<Rightarrow> open_conns p)"

lemma has_open_view:
  "has_open m k \<longleftrightarrow> (case map_of (conns_view m) k of None \<Rightarrow> False | Some (i, cs) \<Rightarrow> list_ex (\<lambda>(k, c). \<not> pc_closed c) cs)"
  using map_of_view [of m k] by (auto simp: has_open_def open_conns_def split: option.splits)

lemma same_conns_open: "same_conns m m' \<Longrightarrow> has_open m' k = has_open m k"
  by (simp add: has_open_view same_conns_def)

lemma map_list_peer_conns_total:
  assumes "peers_ok m"
  shows "\<exists>is m'. map_list_peer_conns k m = Inr (is, m') \<and> same_conns m m' \<and> ((is = None \<or> is = Some []) \<longleftrightarrow> \<not> has_open m k)"
proof (cases "map_of (peer_map m) k")
  case (Some p)
  obtain "is" p' where p': "peer_list_conns p = Inr (is, p')" "peer_node_id p' = peer_node_id p" "conns p' = conns p" "is = [] \<longleftrightarrow> \<not> open_conns p"
    using peer_list_conns_total peers_ok_peer [OF assms Some] by blast
  then show ?thesis
    using Some put_same_conns [OF Some p'(2,3)] by (simp add: map_list_peer_conns_def get_peer_by_id_def has_open_def)
qed (simp add: map_list_peer_conns_def get_peer_by_id_def has_open_def)

lemma peers_to_remove_total:
  "peers_ok m \<Longrightarrow> \<exists>m'. peers_to_remove ks m = Inr (filter (\<lambda>k. \<not> has_open m k) ks, m') \<and> same_conns m m'"
proof (induction ks arbitrary: m)
  case (Cons k ks)
  obtain "is" m1 where m1: "map_list_peer_conns k m = Inr (is, m1)" "same_conns m m1" "(is = None \<or> is = Some []) \<longleftrightarrow> \<not> has_open m k"
    using map_list_peer_conns_total [OF Cons.prems] by blast
  obtain m2 where m2: "peers_to_remove ks m1 = Inr (filter (\<lambda>k. \<not> has_open m1 k) ks, m2)" "same_conns m1 m2"
    using Cons.IH [of m1] Cons.prems same_conns_ok [OF m1(2)] by auto
  have "peers_to_remove (k # ks) m = Inr (if is = None \<or> is = Some [] then k # filter (\<lambda>k. \<not> has_open m k) ks else filter (\<lambda>k. \<not> has_open m k) ks, m2)"
    by (simp add: m1(1) m2(1) same_conns_open [OF m1(2)])
  then show ?case
    using same_conns_trans [OF m1(2) m2(2)] m1(3) by simp
qed simp

lemma peers_with_conn_total:
  "peers_ok m \<Longrightarrow> \<exists>m'. peers_with_conn ks m = Inr (filter (has_open m) ks, m') \<and> same_conns m m'"
proof (induction ks arbitrary: m)
  case (Cons k ks)
  obtain "is" m1 where m1: "map_list_peer_conns k m = Inr (is, m1)" "same_conns m m1" "(is = None \<or> is = Some []) \<longleftrightarrow> \<not> has_open m k"
    using map_list_peer_conns_total [OF Cons.prems] by blast
  obtain m2 where m2: "peers_with_conn ks m1 = Inr (filter (has_open m1) ks, m2)" "same_conns m1 m2"
    using Cons.IH [of m1] Cons.prems same_conns_ok [OF m1(2)] by auto
  have "has_open m1 = has_open m"
    using same_conns_open [OF m1(2)] by blast
  then have "peers_with_conn (k # ks) m = Inr (if is = None \<or> is = Some [] then filter (has_open m) ks else k # filter (has_open m) ks, m2)"
    by (auto simp: m1(1) m2(1) split: option.splits)
  then show ?case
    using same_conns_trans [OF m1(2) m2(2)] m1(3) by simp
qed simp

lemma drop_conns_total: "list_all (\<lambda>c. pc_info c \<noteq> None) cs \<Longrightarrow> \<exists>es. drop_conns cs = Inr es"
  by (induction cs) (auto simp: get_conn_info_def)

lemma close_peer_total:
  assumes "peers_ok m"
  shows "\<exists>es. close_peer k m = Inr (es, m\<lparr>peer_map := AList.delete k (peer_map m)\<rparr>)"
proof (cases "map_of (peer_map m) k")
  case (Some p)
  have "list_all (\<lambda>c. pc_info c \<noteq> None) (map snd (conns p))"
    using peers_ok_peer [OF assms Some] by (auto simp: peer_ok_def list_all_iff)
  then show ?thesis
    using drop_conns_total [of "map snd (conns p)"] Some by (auto simp: close_peer_def get_peer_by_id_def)
qed (simp add: close_peer_def get_peer_by_id_def)

lemma close_peers_total:
  "peers_ok m \<Longrightarrow> \<exists>es. close_peers ks m = Inr (es, m\<lparr>peer_map := filter (\<lambda>(k, p). k \<notin> set ks) (peer_map m)\<rparr>)"
proof (induction ks arbitrary: m)
  case (Cons k ks)
  let ?m1 = "m\<lparr>peer_map := AList.delete k (peer_map m)\<rparr>"
  obtain es where es: "close_peer k m = Inr (es, ?m1)"
    using close_peer_total [OF Cons.prems] by blast
  obtain es' where es': "close_peers ks ?m1 = Inr (es', ?m1\<lparr>peer_map := filter (\<lambda>(k, p). k \<notin> set ks) (peer_map ?m1)\<rparr>)"
    using Cons.IH [OF delete_peer_ok [OF Cons.prems]] by blast
  have "filter (\<lambda>(j, p). j \<notin> set ks) (AList.delete k (peer_map m)) = filter (\<lambda>(j, p). j \<notin> set (k # ks)) (peer_map m)"
    by (auto simp: AList.delete_eq intro!: filter_cong)
  then show ?case
    using es es' by simp
qed (simp add: case_prod_unfold)

text \<open>Cleaning keeps exactly the peers with an open connection.\<close>

lemma clean_peer_total:
  assumes "peers_ok m"
  shows "\<exists>es m'. clean_peer_without_conn m = Inr (es, m') \<and> peers_ok m' \<and> list_peers m' = filter (has_open m) (list_peers m) \<and>
    alive_conns m' = alive_conns m \<and> map_my_peer_id m' = map_my_peer_id m"
proof -
  obtain m1 where m1: "peers_to_remove (list_peers m) m = Inr (filter (\<lambda>k. \<not> has_open m k) (list_peers m), m1)" "same_conns m m1"
    using peers_to_remove_total [OF assms] by blast
  have ok1: "peers_ok m1"
    using same_conns_ok [OF m1(2)] assms by simp
  let ?rm = "filter (\<lambda>k. \<not> has_open m k) (list_peers m)"
  let ?m2 = "m1\<lparr>peer_map := filter (\<lambda>(k, p). k \<notin> set ?rm) (peer_map m1)\<rparr>"
  obtain es where es: "close_peers ?rm m1 = Inr (es, ?m2)"
    using close_peers_total [OF ok1] by blast
  have keys: "list_peers m1 = list_peers m"
    using m1(2) list_peers_view [of m1] list_peers_view [of m] by (simp add: same_conns_def)
  have "list_peers ?m2 = filter (\<lambda>k. k \<notin> set ?rm) (list_peers m1)"
    by (simp add: list_peers_def filter_map case_prod_unfold comp_def)
  also have "\<dots> = filter (has_open m) (list_peers m)"
    unfolding keys by (rule filter_cong) auto
  finally have "list_peers ?m2 = filter (has_open m) (list_peers m)" .
  moreover have "peers_ok ?m2"
    using ok1 by (auto simp: peers_ok_def list_all_iff distinct_map inj_on_def)
  ultimately show ?thesis
    using m1 es by (auto simp: clean_peer_without_conn_def same_conns_def)
qed

section \<open>Reachable maps\<close>

text \<open>
  A map after any sequence of its operations and of the turns of its peers' tasks; \<open>ws\<close> are the
  waiters of connections that have not closed. A new connection has a peer and an id no waiter has.
\<close>

inductive peer_map_reach :: "PeerId \<Rightarrow> (PeerId \<times> PeerConnId) list \<Rightarrow> PeerMap \<Rightarrow> bool" for my where
  reach_new: "peer_map_reach my [] (PeerMap_new my)"
| reach_add: "peer_map_reach my ws m \<Longrightarrow> pc_info c = Some i \<Longrightarrow> pc_conn_id c \<notin> snd ` set ws \<Longrightarrow>
    add_new_peer_conn c m = Inr (es, m') \<Longrightarrow> peer_map_reach my ((hs_my_peer_id i, pc_conn_id c) # ws) m'"
| reach_waiter: "peer_map_reach my ws m \<Longrightarrow> k \<in> set ws \<Longrightarrow> alive_conn_closes k m = Inr m' \<Longrightarrow> peer_map_reach my (remove1 k ws) m'"
| reach_closes: "peer_map_reach my ws m \<Longrightarrow> map_of (peer_map m) p = Some peer \<Longrightarrow>
    peer_map_reach my ws (put_peer p (conn_closes cid peer) m)"
| reach_event: "peer_map_reach my ws m \<Longrightarrow> map_of (peer_map m) p = Some peer \<Longrightarrow> close_event_turn peer = Inr (es, peer') \<Longrightarrow>
    peer_map_reach my ws (put_peer p peer' m)"
| reach_default: "peer_map_reach my ws m \<Longrightarrow> map_of (peer_map m) p = Some peer \<Longrightarrow>
    peer_map_reach my ws (put_peer p (default_conn_clear_turn peer) m)"
| reach_send: "peer_map_reach my ws m \<Longrightarrow> send_msg_directly sink msg dst m = (r, m') \<Longrightarrow> peer_map_reach my ws m'"
| reach_list: "peer_map_reach my ws m \<Longrightarrow> list_peers_with_conn m = Inr (ps, m') \<Longrightarrow> peer_map_reach my ws m'"
| reach_clean: "peer_map_reach my ws m \<Longrightarrow> clean_peer_without_conn m = Inr (es, m') \<Longrightarrow> peer_map_reach my ws m'"
| reach_close_conn: "peer_map_reach my ws m \<Longrightarrow> map_close_peer_conn p cid m = (r, m') \<Longrightarrow> peer_map_reach my ws m'"
| reach_route: "peer_map_reach my ws m \<Longrightarrow> peer_map_reach my ws (add_route r m)"

definition waiters_ok :: "(PeerId \<times> PeerConnId) list \<Rightarrow> PeerMap \<Rightarrow> bool" where
  "waiters_ok ws m \<longleftrightarrow> distinct ws \<and> distinct (map fst (alive_conns m)) \<and> fst ` set (alive_conns m) = set ws"

lemma put_peer_alive [simp]: "waiters_ok ws (put_peer k p m) = waiters_ok ws m"
  by (simp add: waiters_ok_def put_peer_def)

lemma peer_add_conn_ok:
  assumes "peer_ok p" and "pc_info c = Some i" and "hs_my_peer_id i = peer_node_id p"
  shows "\<exists>es p'. peer_add_conn c p = Inr (es, p') \<and> peer_ok p' \<and> peer_node_id p' = peer_node_id p"
proof -
  let ?p' = "p\<lparr>conns := AList.update (pc_conn_id c) c (conns p)\<rparr>"
  have "peer_ok ?p'"
    using assms update_set_subset [of "pc_conn_id c" c "conns p"]
    by (auto simp: peer_ok_def list_all_iff distinct_update)
  then show ?thesis
    using get_conn_info_total [OF assms(2)] by (auto simp: peer_add_conn_def)
qed

lemma add_conn_total:
  assumes ok: "peers_ok m" and i: "pc_info c = Some i"
  shows "\<exists>es m' ci. add_new_peer_conn c m = Inr (es, m') \<and> peers_ok m' \<and>
    alive_conns m' = AList.update (hs_my_peer_id i, pc_conn_id c) ci (alive_conns m)"
proof -
  let ?p = "hs_my_peer_id i"
  obtain ci where ci: "get_conn_info c = Inr ci" "ci_peer_id ci = ?p"
    using get_conn_info_total [OF i] by blast
  let ?m = "m\<lparr>alive_conns := AList.update (?p, pc_conn_id c) ci (alive_conns m)\<rparr>"
  have pid: "get_peer_id c = Inr ?p"
    by (simp add: get_peer_id_def i)
  have ok1: "peers_ok ?m"
    using ok by (simp add: peers_ok_def)
  show ?thesis
  proof (cases "map_of (peer_map m) ?p")
    case None
    have "peer_ok (Peer_new ?p)" "peer_node_id (Peer_new ?p) = ?p"
      by (simp_all add: Peer_new_def peer_ok_def)
    then obtain es p' where p': "peer_add_conn c (Peer_new ?p) = Inr (es, p')" "peer_ok p'" "peer_node_id p' = ?p"
      using peer_add_conn_ok [OF _ i] by metis
    have "peers_ok (put_peer (peer_node_id p') p' ?m)"
      by (rule put_peer_ok [OF ok1 p'(2) refl])
    then show ?thesis
      using None ci p' by (auto simp: add_new_peer_conn_def maintain_alive_conns_def add_conn_no_entry_def add_conn_commit_def pid
          add_new_peer_def put_peer_def)
  next
    case (Some peer)
    have peer: "peer_ok peer" "peer_node_id peer = ?p"
      using peers_ok_peer [OF ok Some] by simp_all
    then obtain es p' where p': "peer_add_conn c peer = Inr (es, p')" "peer_ok p'" "peer_node_id p' = ?p"
      using peer_add_conn_ok [OF _ i] by metis
    have "peers_ok (put_peer ?p p' ?m)"
      by (rule put_peer_ok [OF ok1 p'(2)]) (simp add: p'(3))
    then show ?thesis
      using Some ci p' by (auto simp: add_new_peer_conn_def maintain_alive_conns_def add_conn_no_entry_def add_conn_commit_def pid put_peer_def)
  qed
qed

lemma conn_closes_ok: "peer_ok p \<Longrightarrow> peer_ok (conn_closes cid p)"
  by (auto simp: peer_ok_def conn_closes_def list_all_iff notify_close_def case_prod_unfold comp_def)

lemma close_event_total:
  assumes "peer_ok p"
  shows "\<exists>es p'. close_event_turn p = Inr (es, p') \<and> peer_ok p' \<and> peer_node_id p' = peer_node_id p"
proof (cases "close_events p")
  case (Cons cid rest)
  show ?thesis
  proof (cases "map_of (conns p) cid")
    case None
    then show ?thesis
      using Cons assms by (simp add: close_event_turn_def peer_ok_def)
  next
    case (Some c)
    obtain ci where "get_conn_info c = Inr ci"
      using peer_okD(2) [OF assms map_of_SomeD [OF Some]] get_conn_info_total by blast
    then show ?thesis
      using Cons Some assms by (auto simp: close_event_turn_def peer_ok_def list_all_iff AList.delete_eq distinct_map inj_on_def)
  qed
qed (use assms in \<open>simp add: close_event_turn_def\<close>)

lemma send_directly_same:
  assumes ok: "peers_ok m" and run: "send_msg_directly sink msg dst m = (r, m')"
  shows "same_conns m m'"
proof (cases "dst = map_my_peer_id m \<or> get_peer_by_id dst m = None")
  case False
  then obtain peer where peer: "map_of (peer_map m) dst = Some peer"
    by (auto simp: get_peer_by_id_def)
  obtain r' peer' where s: "peer_send_msg sink msg peer = (r', peer')"
    by (cases "peer_send_msg sink msg peer")
  have "peer_node_id (snd (select_conn peer)) = peer_node_id peer" "conns (snd (select_conn peer)) = conns peer"
    by (auto simp: select_conn_def Let_def split: option.splits)
  then have "peer_node_id peer' = peer_node_id peer" "conns peer' = conns peer"
    using s by (auto simp: peer_send_msg_def split: prod.splits option.splits)
  then show ?thesis
    using run False s put_same_conns [OF peer, of peer'] peer by (auto simp: send_msg_directly_def get_peer_by_id_def split: sum.splits)
qed (use run in \<open>auto simp: send_msg_directly_def split: if_splits\<close>)

lemma close_conn_same:
  assumes "map_close_peer_conn p cid m = (r, m')"
  shows "same_conns m m'"
proof (cases "map_of (peer_map m) p")
  case (Some peer)
  have "peer_node_id (snd (peer_close_conn cid peer)) = peer_node_id peer" "conns (snd (peer_close_conn cid peer)) = conns peer"
    by (simp_all add: peer_close_conn_def)
  then show ?thesis
    using assms Some put_same_conns [OF Some, of "snd (peer_close_conn cid peer)"]
    by (auto simp: map_close_peer_conn_def get_peer_by_id_def case_prod_unfold Let_def)
qed (use assms in \<open>simp add: map_close_peer_conn_def get_peer_by_id_def\<close>)

lemma waiters_view: "alive_conns m' = alive_conns m \<Longrightarrow> waiters_ok ws m' = waiters_ok ws m"
  by (simp add: waiters_ok_def)

lemma keys_update: "fst ` set (AList.update k v xs) = insert k (fst ` set xs)"
  by (induction xs) auto

lemma keys_delete: "fst ` set (AList.delete k xs) = fst ` set xs - {k}"
  by (induction xs) auto

lemma waiters_add:
  assumes "waiters_ok ws m" and "cid \<notin> snd ` set ws" and "alive_conns m' = AList.update (p, cid) ci (alive_conns m)"
  shows "waiters_ok ((p, cid) # ws) m'"
proof -
  have "(p, cid) \<notin> set ws"
    using assms(2) by force
  then show ?thesis
    using assms(1) unfolding waiters_ok_def assms(3) by (simp add: keys_update distinct_update)
qed

lemma same_conns_inv: "same_conns m m' \<Longrightarrow> peers_ok m \<and> waiters_ok ws m \<Longrightarrow> peers_ok m' \<and> waiters_ok ws m'"
  by (simp add: same_conns_ok) (simp add: same_conns_def waiters_ok_def)

lemma reach_inv: "peer_map_reach my ws m \<Longrightarrow> peers_ok m \<and> waiters_ok ws m"
proof (induction rule: peer_map_reach.induct)
  case reach_new
  show ?case
    by (simp add: PeerMap_new_def peers_ok_def waiters_ok_def)
next
  case (reach_add ws m c i es m')
  obtain ci where "peers_ok m'" "alive_conns m' = AList.update (hs_my_peer_id i, pc_conn_id c) ci (alive_conns m)"
    using add_conn_total [of m c i] reach_add by auto
  then show ?case
    using reach_add waiters_add by blast
next
  case (reach_waiter ws m k m')
  then have "m' = m\<lparr>alive_conns := AList.delete k (alive_conns m)\<rparr>"
    by (auto simp: alive_conn_closes_def rbind_eq_Inr_iff)
  then show ?case
    using reach_waiter by (auto simp: waiters_ok_def peers_ok_def keys_delete distinct_delete)
next
  case (reach_closes ws m p peer cid)
  then have "peer_ok (conn_closes cid peer)" "p = peer_node_id (conn_closes cid peer)"
    using peers_ok_peer [of m p peer] conn_closes_ok by (auto simp: conn_closes_def)
  then show ?case
    using reach_closes put_peer_ok by auto
next
  case (reach_event ws m p peer es peer')
  then have "peer_ok peer'" "p = peer_node_id peer'"
    using peers_ok_peer [of m p peer] close_event_total [of peer] by auto
  then show ?case
    using reach_event put_peer_ok by auto
next
  case (reach_default ws m p peer)
  then have "peer_ok (default_conn_clear_turn peer)" "p = peer_node_id (default_conn_clear_turn peer)"
    using peers_ok_peer [of m p peer] by (auto simp: default_conn_clear_turn_def peer_ok_def)
  then show ?case
    using reach_default put_peer_ok by auto
next
  case (reach_send ws m sink msg dst r m')
  then have "same_conns m m'"
    using send_directly_same by blast
  then show ?case
    by (rule same_conns_inv) (use reach_send in blast)
next
  case (reach_list ws m ps m')
  then have "same_conns m m'"
    using peers_with_conn_total [of m "list_peers m"] by (auto simp: list_peers_with_conn_def)
  then show ?case
    by (rule same_conns_inv) (use reach_list in blast)
next
  case (reach_clean ws m es m')
  then show ?case
    using clean_peer_total [of m] waiters_view [of m' m ws] by auto
next
  case (reach_close_conn ws m p cid r m')
  then have "same_conns m m'"
    using close_conn_same by blast
  then show ?case
    by (rule same_conns_inv) (use reach_close_conn in blast)
next
  case (reach_route ws m r)
  then show ?case
    by (simp add: add_route_def peers_ok_def waiters_ok_def)
qed


definition demo_conn :: PeerConn where
  "demo_conn = (PeerConn_new 9 1)\<lparr>pc_info := Some (hs_request demo_identity (replicate 32 7) 5)\<rparr>"

lemma demo_conn_simps [simp]:
  "pc_conn_id demo_conn = 9" "pc_info demo_conn = Some (hs_request demo_identity (replicate 32 7) 5)" "\<not> pc_closed demo_conn"
  by (simp_all add: demo_conn_def PeerConn_new_def)

definition demo_map :: PeerMap where
  "demo_map = snd (projr (add_new_peer_conn demo_conn (PeerMap_new 1)))"

lemma demo_map_added: "\<exists>es. add_new_peer_conn demo_conn (PeerMap_new 1) = Inr (es, demo_map)"
  by (simp add: demo_map_def add_new_peer_conn_def maintain_alive_conns_def get_conn_info_def add_conn_no_entry_def get_peer_id_def
      PeerMap_new_def add_conn_commit_def peer_add_conn_def add_new_peer_def Let_def)

lemma demo_map_reach: "peer_map_reach 1 [(5, 9)] demo_map"
  using reach_add [OF reach_new, of demo_conn "hs_request demo_identity (replicate 32 7) 5"] demo_map_added by auto


text \<open>
  C39: Adding a connection can panic. The peer of a new connection is looked up, found, and looked up
  again; when the connections it had are all closed and the cleaning of the map falls between the
  two lookups, the second one fails.
\<close>

theorem add_conn_cleaned_panics:
  assumes "peers_ok m" and "pc_info c = Some i" and "map_of (peer_map m) (hs_my_peer_id i) = Some peer" and "\<not> open_conns peer"
  shows "add_conn_no_entry c m = Inr False \<and>
    (\<exists>es m'. clean_peer_without_conn m = Inr (es, m') \<and> add_conn_commit False c m' = Inl UnwrapNone)"
proof -
  obtain es m' where m': "clean_peer_without_conn m = Inr (es, m')" "list_peers m' = filter (has_open m) (list_peers m)"
    using clean_peer_total [OF assms(1)] by blast
  have "hs_my_peer_id i \<notin> set (list_peers m')"
    using assms(3,4) m'(2) by (simp add: has_open_def)
  then have "map_of (peer_map m') (hs_my_peer_id i) = None"
    by (simp add: map_of_eq_None_iff list_peers_def)
  then show ?thesis
    using m'(1) assms(2,3) by (simp add: add_conn_no_entry_def add_conn_commit_def get_peer_id_def)
qed

theorem add_conn_cleaned_panics_witness:
  "\<exists>es m'. clean_peer_without_conn (put_peer 5 (Peer_new 5) (PeerMap_new 1)) = Inr (es, m') \<and> add_conn_commit False demo_conn m' = Inl UnwrapNone"
  using add_conn_cleaned_panics [of "put_peer 5 (Peer_new 5) (PeerMap_new 1)" demo_conn]
  by (simp add: put_peer_def PeerMap_new_def Peer_new_def peers_ok_def peer_ok_def open_conns_def)

end
