(* ===== verification/Foreign_Network.thy ===== *)
theory Foreign_Network
  imports Peer_Map Token_Bucket
begin

text \<open>
  Networks of other owners, for which a node relays: \<open>src/easytier/src/peers/foreign_network_manager.rs\<close>.
  Each has an entry with a peer map and a route of its own; the manager keeps the entries by name,
  the networks of each peer, and the times of the last changes. Whether a name matches a pattern of
  the whitelist is the wildmatch crate's and a parameter; so is the order in which a set is gone
  through. Events of an entry's peers are processed one by one, in a turn each.
\<close>

section \<open>Entries\<close>

record foreign_counters =
  forward_bytes :: u64
  forward_packets :: u64
  fc_rx_bytes :: u64
  fc_rx_packets :: u64

record ForeignNetworkEntry =
  fe_my_peer_id :: PeerId
  fe_network :: NetworkIdentity
  fe_peer_map :: PeerMap
  fe_relay_data :: bool
  fe_bps_limiter :: TokenBucket
  fe_counters :: foreign_counters

text \<open>A new entry; \<open>limiter\<close> is the bucket registered under the network's name, \<open>cnt\<close> its counters.\<close>

definition ForeignNetworkEntry_new :: "NetworkIdentity \<Rightarrow> PeerId \<Rightarrow> bool \<Rightarrow> TokenBucket \<Rightarrow> foreign_counters \<Rightarrow> ForeignNetworkEntry" where
  "ForeignNetworkEntry_new network my relay_data limiter cnt =
     \<lparr>fe_my_peer_id = my, fe_network = network, fe_peer_map = PeerMap_new my, fe_relay_data = relay_data,
      fe_bps_limiter = limiter, fe_counters = cnt\<rparr>"

definition prepare_route :: "route_obj \<Rightarrow> ForeignNetworkEntry \<Rightarrow> ForeignNetworkEntry" where
  "prepare_route r e = e\<lparr>fe_peer_map := add_route r (fe_peer_map e)\<rparr>"

text \<open>The neighbours the entry's route is given: the other owners of the network and its own peers.\<close>

definition entry_list_peers :: "(NetworkIdentity \<Rightarrow> PeerId list) \<Rightarrow> ForeignNetworkEntry \<Rightarrow> (PeerId list \<times> ForeignNetworkEntry) may_panic" where
  "entry_list_peers list_global_foreign_peer e =
     rbind (list_peers_with_conn (fe_peer_map e)) (\<lambda>(l, m).
       Inr (filter (\<lambda>x. x \<noteq> fe_my_peer_id e) (list_global_foreign_peer (fe_network e) @ l), e\<lparr>fe_peer_map := m\<rparr>))"

text \<open>Where a packet of the network goes: to the RPC handler, to a peer, or wrapped to the peer manager.\<close>

datatype foreign_effect = ToForeignRpc ZCPacket | Relayed sent | ToPeerManager ZCPacket

definition is_rpc_type :: "u8 \<Rightarrow> bool" where
  "is_rpc_type t \<longleftrightarrow> t = PacketType_u8 TaRpc \<or> t = PacketType_u8 RpcReq \<or> t = PacketType_u8 RpcResp"

definition is_data_type :: "u8 \<Rightarrow> bool" where
  "is_data_type t \<longleftrightarrow> t = PacketType_u8 Data \<or> t = PacketType_u8 KcpSrc \<or> t = PacketType_u8 KcpDst"

definition relay_allowed :: "PeerManagerHeader \<Rightarrow> ForeignNetworkEntry \<Rightarrow> bool \<times> ForeignNetworkEntry" where
  "relay_allowed hdr e =
     (if is_data_type (hdr_packet_type hdr) then
        if \<not> fe_relay_data e then (False, e)
        else let (ok, b) = try_consume (ucast (pm_len hdr)) (fe_bps_limiter e) in (ok, e\<lparr>fe_bps_limiter := b\<rparr>)
      else (True, e))"

definition entry_recv_packet ::
  "bool \<Rightarrow> (nat \<Rightarrow> u8) \<Rightarrow> sinks \<Rightarrow> ZCPacket \<Rightarrow> ForeignNetworkEntry \<Rightarrow> (foreign_effect list \<times> ForeignNetworkEntry) may_panic" where
  "entry_recv_packet chk garbage sink p e =
     rbind (peer_manager_header p) (\<lambda>h.
       case h of
         None \<Rightarrow> Inr ([], e)
       | Some hdr \<Rightarrow>
           if to_peer_id hdr = fe_my_peer_id e then
             if is_rpc_type (hdr_packet_type hdr) then
               let n = fe_counters e in
               Inr ([ToForeignRpc p], e\<lparr>fe_counters := n\<lparr>fc_rx_bytes := fc_rx_bytes n + of_nat (buf_len p), fc_rx_packets := fc_rx_packets n + 1\<rparr>\<rparr>)
             else Inr ([], e)
           else
             let (allowed, e) = relay_allowed hdr e in
             if \<not> allowed then Inr ([], e)
             else
               let n = fe_counters e;
                   e = e\<lparr>fe_counters := n\<lparr>forward_bytes := forward_bytes n + of_nat (buf_len p), forward_packets := forward_packets n + 1\<rparr>\<rparr>;
                   gateway = get_gateway_peer_id (to_peer_id hdr) LeastHop (fe_peer_map e);
                   wrap = rbind (new_for_foreign_network chk garbage (str_bytes (network_name (fe_network e))) (to_peer_id hdr) p)
                            (\<lambda>fp. rbind (fill_peer_manager_hdr chk (fe_my_peer_id e)
                                     (case gateway of Some g \<Rightarrow> g | None \<Rightarrow> to_peer_id hdr) (PacketType_u8 ForeignNetworkPacket) fp)
                              (\<lambda>fp. Inr ([ToPeerManager fp], e)))
               in case gateway of
                    None \<Rightarrow> wrap
                  | Some g \<Rightarrow>
                      if has_peer g (fe_peer_map e) then
                        (case send_msg_directly sink p g (fe_peer_map e) of
                           (Inl err, m) \<Rightarrow> Inr ([], e\<lparr>fe_peer_map := m\<rparr>)
                         | (Inr s, m) \<Rightarrow> Inr ([Relayed s], e\<lparr>fe_peer_map := m\<rparr>))
                      else wrap)"

section \<open>The manager\<close>

record ForeignNetworkManagerData =
  network_peer_maps :: "(string \<times> ForeignNetworkEntry) list"
  peer_network_map :: "(PeerId \<times> string set) list"
  network_peer_last_update :: "(string \<times> time) list"

definition ForeignNetworkManager_new :: ForeignNetworkManagerData where
  "ForeignNetworkManager_new = \<lparr>network_peer_maps = [], peer_network_map = [], network_peer_last_update = []\<rparr>"

definition put_entry :: "string \<Rightarrow> ForeignNetworkEntry \<Rightarrow> ForeignNetworkManagerData \<Rightarrow> ForeignNetworkManagerData" where
  "put_entry name e d = d\<lparr>network_peer_maps := AList.update name e (network_peer_maps d)\<rparr>"

definition get_peer_network :: "PeerId \<Rightarrow> ForeignNetworkManagerData \<Rightarrow> string set option" where
  "get_peer_network p d = map_of (peer_network_map d) p"

definition get_network_entry :: "string \<Rightarrow> ForeignNetworkManagerData \<Rightarrow> ForeignNetworkEntry option" where
  "get_network_entry name d = map_of (network_peer_maps d) name"

definition foreign_remove_peer :: "PeerId \<Rightarrow> string \<Rightarrow> ForeignNetworkManagerData \<Rightarrow> ForeignNetworkManagerData" where
  "foreign_remove_peer p name d =
     (let d = (case map_of (peer_network_map d) p of
                 None \<Rightarrow> d
               | Some ns \<Rightarrow> d\<lparr>peer_network_map := if ns - {name} = {} then AList.delete p (peer_network_map d)
                                                else AList.update p (ns - {name}) (peer_network_map d)\<rparr>)
      in case get_network_entry name d of
           Some e \<Rightarrow>
             if peer_map (fe_peer_map e) = []
             then d\<lparr>network_peer_maps := AList.delete name (network_peer_maps d),
                    network_peer_last_update := AList.delete name (network_peer_last_update d)\<rparr>
             else d
         | None \<Rightarrow> d)"

definition clear_no_conn_peer :: "string \<Rightarrow> ForeignNetworkManagerData \<Rightarrow> (GlobalCtxEvent list \<times> ForeignNetworkManagerData) may_panic" where
  "clear_no_conn_peer name d =
     (case get_network_entry name d of
        None \<Rightarrow> Inr ([], d)
      | Some e \<Rightarrow> rbind (clean_peer_without_conn (fe_peer_map e)) (\<lambda>(es, m). Inr (es, put_entry name (e\<lparr>fe_peer_map := m\<rparr>) d)))"

definition remove_network :: "string \<Rightarrow> ForeignNetworkManagerData \<Rightarrow> ForeignNetworkManagerData" where
  "remove_network name d =
     d\<lparr>peer_network_map := filter (\<lambda>(p, ns). ns \<noteq> {}) (map (\<lambda>(p, ns). (p, ns - {name})) (peer_network_map d)),
       network_peer_maps := AList.delete name (network_peer_maps d),
       network_peer_last_update := AList.delete name (network_peer_last_update d)\<rparr>"

text \<open>The first result is the entry, the second whether it was made.\<close>

definition get_or_insert_entry ::
  "time \<Rightarrow> route_obj \<Rightarrow> TokenBucket \<Rightarrow> foreign_counters \<Rightarrow> NetworkIdentity \<Rightarrow> PeerId \<Rightarrow> PeerId \<Rightarrow> bool \<Rightarrow> ForeignNetworkManagerData \<Rightarrow>
     ForeignNetworkEntry \<times> bool \<times> ForeignNetworkManagerData" where
  "get_or_insert_entry now r limiter cnt network my dst relay_data d =
     (let name = network_name network;
          (entry, new_added) = (case get_network_entry name d of
             Some e \<Rightarrow> (e, False) | None \<Rightarrow> (prepare_route r (ForeignNetworkEntry_new network my relay_data limiter cnt), True));
          d = put_entry name entry d;
          ns = (case map_of (peer_network_map d) dst of Some ns \<Rightarrow> ns | None \<Rightarrow> {});
          d = d\<lparr>peer_network_map := AList.update dst (insert name ns) (peer_network_map d)\<rparr>;
          d = d\<lparr>network_peer_last_update := AList.update name now (network_peer_last_update d)\<rparr>
      in (entry, new_added, d))"

fun split_spaces :: "string \<Rightarrow> string list" where
  "split_spaces [] = [[]]"
| "split_spaces (c # cs) =
     (if c = CHR 0x20 then [] # split_spaces cs
      else case split_spaces cs of [] \<Rightarrow> [[c]] | w # ws \<Rightarrow> (c # w) # ws)"

definition check_network_in_whitelist :: "(string \<Rightarrow> string \<Rightarrow> bool) \<Rightarrow> string \<Rightarrow> string \<Rightarrow> bool" where
  "check_network_in_whitelist wildmatch relay_network_whitelist name =
     list_ex (\<lambda>wl. wildmatch wl name) (split_spaces relay_network_whitelist)"

text \<open>What the manager reads of its surroundings when a connection is added.\<close>

record foreign_env =
  fv_finish :: "bytes \<Rightarrow> u64"
  fv_wildmatch :: "string \<Rightarrow> string \<Rightarrow> bool"
  fv_relay_network_whitelist :: string
  fv_relay_all_peer_rpc :: bool
  fv_max_direct_conns :: nat
  fv_route :: "string \<Rightarrow> route_obj"
  fv_limiter :: "string \<Rightarrow> TokenBucket"
  fv_counters :: "string \<Rightarrow> foreign_counters"

definition foreign_add_peer_conn ::
  "foreign_env \<Rightarrow> time \<Rightarrow> PeerConn \<Rightarrow> ForeignNetworkManagerData \<Rightarrow> ((Error + unit) \<times> GlobalCtxEvent list \<times> ForeignNetworkManagerData) may_panic" where
  "foreign_add_peer_conn v now c d =
     rbind (get_network_identity c) (\<lambda>ident.
       let name = network_name ident;
           ok = check_network_in_whitelist (fv_wildmatch v) (fv_relay_network_whitelist v) name in
       if \<not> ok \<and> \<not> fv_relay_all_peer_rpc v then Inr (Inl AnyhowError, [], d)
       else
         rbind (get_peer_id c) (\<lambda>pid.
           let (entry, new_added, d) =
             get_or_insert_entry now (fv_route v name) (fv_limiter v name) (fv_counters v name) ident (pc_my_peer_id c) pid ok d in
           rbind (NetworkIdentity_eq (fv_finish v) (fe_network entry) ident) (\<lambda>same.
             if \<not> same \<or> fe_my_peer_id entry \<noteq> pc_my_peer_id c then
               Inr (Inl AnyhowError, [], if new_added then remove_network (network_name (fe_network entry)) d else d)
             else if \<not> new_added \<and> (case get_peer_by_id pid (fe_peer_map entry) of
                 Some peer \<Rightarrow> fv_max_direct_conns v \<le> card (get_directly_connections peer) | None \<Rightarrow> False)
             then Inr (Inl AnyhowError, [], d)
             else
               rbind (add_new_peer_conn c (fe_peer_map entry)) (\<lambda>(es, m).
                 Inr (Inr (), es, put_entry name (entry\<lparr>fe_peer_map := m\<rparr>) d)))))"

text \<open>One event of the network \<open>name\<close>; when the handler's channel ends, \<open>remove_network\<close> is its last action.\<close>

fun foreign_event_turn ::
  "time \<Rightarrow> string \<Rightarrow> GlobalCtxEvent \<Rightarrow> ForeignNetworkManagerData \<Rightarrow> (GlobalCtxEvent list \<times> ForeignNetworkManagerData) may_panic" where
  "foreign_event_turn now name (PeerRemoved p) d =
     (let d = foreign_remove_peer p name d
      in Inr ([], d\<lparr>network_peer_last_update := AList.update name now (network_peer_last_update d)\<rparr>))"
| "foreign_event_turn now name (PeerConnRemoved i) d = clear_no_conn_peer name d"
| "foreign_event_turn now name (PeerAdded p) d =
     Inr ([], d\<lparr>network_peer_last_update := AList.update name now (network_peer_last_update d)\<rparr>)"
| "foreign_event_turn now name (PeerConnAdded i) d = Inr ([], d)"

definition get_network_peer_id :: "string \<Rightarrow> ForeignNetworkManagerData \<Rightarrow> PeerId option" where
  "get_network_peer_id name d = map_option fe_my_peer_id (get_network_entry name d)"

definition get_foreign_network_last_update :: "string \<Rightarrow> ForeignNetworkManagerData \<Rightarrow> time option" where
  "get_foreign_network_last_update name d = map_of (network_peer_last_update d) name"

record ForeignNetworkEntryPb =
  pb_network_secret_digest :: bytes
  pb_my_peer_id_for_this_network :: PeerId
  pb_peers :: "(PeerId \<times> ApiPeerConnInfo list) list"

fun list_entry_peers :: "PeerId list \<Rightarrow> PeerMap \<Rightarrow> ((PeerId \<times> ApiPeerConnInfo list) list \<times> PeerMap) may_panic" where
  "list_entry_peers [] m = Inr ([], m)"
| "list_entry_peers (p # ps) m =
     rbind (map_list_peer_conns p m) (\<lambda>(is, m).
     rbind (list_entry_peers ps m) (\<lambda>(qs, m). Inr ((p, case is of Some is \<Rightarrow> is | None \<Rightarrow> []) # qs, m)))"

fun list_networks ::
  "string list \<Rightarrow> ForeignNetworkManagerData \<Rightarrow> ((string \<times> ForeignNetworkEntryPb) list \<times> ForeignNetworkManagerData) may_panic" where
  "list_networks [] d = Inr ([], d)"
| "list_networks (name # names) d =
     (case get_network_entry name d of
        None \<Rightarrow> list_networks names d
      | Some e \<Rightarrow>
          rbind (list_entry_peers (list_peers (fe_peer_map e)) (fe_peer_map e)) (\<lambda>(ps, m).
          rbind (list_networks names (put_entry name (e\<lparr>fe_peer_map := m\<rparr>) d)) (\<lambda>(rs, d).
            Inr ((name, \<lparr>pb_network_secret_digest = (case network_secret_digest (fe_network e) of Some x \<Rightarrow> x | None \<Rightarrow> replicate 32 0),
                         pb_my_peer_id_for_this_network = fe_my_peer_id e, pb_peers = ps\<rparr>) # rs, d))))"

definition list_foreign_networks ::
  "ForeignNetworkManagerData \<Rightarrow> ((string \<times> ForeignNetworkEntryPb) list \<times> ForeignNetworkManagerData) may_panic" where
  "list_foreign_networks d = list_networks (map fst (network_peer_maps d)) d"

definition send_msg_to_peer ::
  "sinks \<Rightarrow> string \<Rightarrow> PeerId \<Rightarrow> ZCPacket \<Rightarrow> ForeignNetworkManagerData \<Rightarrow> (Error + sent) \<times> ForeignNetworkManagerData" where
  "send_msg_to_peer sink name dst msg d =
     (case get_network_entry name d of
        None \<Rightarrow> (Inl RouteError, d)
      | Some e \<Rightarrow> (let (r, m) = map_send_msg sink msg dst LeastHop (fe_peer_map e) in (r, put_entry name (e\<lparr>fe_peer_map := m\<rparr>) d)))"

fun close_in_networks :: "PeerId \<Rightarrow> PeerConnId \<Rightarrow> string list \<Rightarrow> ForeignNetworkManagerData \<Rightarrow> (Error + unit) \<times> ForeignNetworkManagerData" where
  "close_in_networks p cid [] d = (Inl NotFound, d)"
| "close_in_networks p cid (name # names) d =
     (case get_network_entry name d of
        None \<Rightarrow> close_in_networks p cid names d
      | Some e \<Rightarrow>
          (let (r, m) = map_close_peer_conn p cid (fe_peer_map e); d = put_entry name (e\<lparr>fe_peer_map := m\<rparr>) d
           in if r = Inl NotFound then close_in_networks p cid names d else (r, d)))"

definition foreign_close_peer_conn ::
  "(string set \<Rightarrow> string list) \<Rightarrow> PeerId \<Rightarrow> PeerConnId \<Rightarrow> ForeignNetworkManagerData \<Rightarrow> (Error + unit) \<times> ForeignNetworkManagerData" where
  "foreign_close_peer_conn order p cid d =
     close_in_networks p cid (order (case get_peer_network p d of Some ns \<Rightarrow> ns | None \<Rightarrow> {})) d"

section \<open>Connections of a map\<close>

definition conn_in :: "PeerMap \<Rightarrow> PeerId \<Rightarrow> PeerConnId \<Rightarrow> PeerConn \<Rightarrow> bool" where
  "conn_in m p cid c \<longleftrightarrow> (\<exists>peer. (p, peer) \<in> set (peer_map m) \<and> (cid, c) \<in> set (conns peer))"

lemma conn_in_view: "conn_in m p cid c \<longleftrightarrow> (\<exists>i cs. (p, i, cs) \<in> set (conns_view m) \<and> (cid, c) \<in> set cs)"
  by (force simp: conn_in_def conns_view_def)

lemma same_conns_in: "same_conns m m' \<Longrightarrow> conn_in m' = conn_in m"
  by (intro ext) (simp add: conn_in_view same_conns_def)

lemma add_conn_in:
  assumes "peers_ok m" and "add_new_peer_conn c m = Inr (es, m')"
  shows "map_my_peer_id m' = map_my_peer_id m" and "conn_in m' p cid d \<Longrightarrow> conn_in m p cid d \<or> d = c"
proof -
  obtain i where i: "pc_info c = Some i"
    using assms(2) by (cases "pc_info c") (auto simp: add_new_peer_conn_def maintain_alive_conns_def get_conn_info_def)
  let ?q = "hs_my_peer_id i"
  have put: "(q, peer') \<in> set (AList.update ?q peer (peer_map m)) \<Longrightarrow> (q, peer') \<in> set (peer_map m) \<or> peer' = peer \<and> q = ?q" for q peer peer'
    using update_set_subset [of ?q peer "peer_map m"] by blast
  have cput: "(k, x) \<in> set (AList.update (pc_conn_id c) c cs) \<Longrightarrow> (k, x) \<in> set cs \<or> x = c" for k x cs
    using update_set_subset [of "pc_conn_id c" c cs] by blast
  have "map_my_peer_id m' = map_my_peer_id m \<and> (conn_in m' p cid d \<longrightarrow> conn_in m p cid d \<or> d = c)"
  proof (cases "map_of (peer_map m) ?q")
    case None
    then show ?thesis
      using assms(2) put cput [of _ _ "[]"]
      by (fastforce simp: add_new_peer_conn_def maintain_alive_conns_def get_conn_info_def i add_conn_no_entry_def get_peer_id_def
          add_conn_commit_def peer_add_conn_def Peer_new_def add_new_peer_def put_peer_def conn_in_def)
  next
    case (Some peer)
    note in_map = map_of_SomeD [OF Some]
    show ?thesis
      using assms(2) Some put cput [of _ _ "conns peer"] in_map
      by (fastforce simp: add_new_peer_conn_def maintain_alive_conns_def get_conn_info_def i add_conn_no_entry_def get_peer_id_def
          add_conn_commit_def peer_add_conn_def put_peer_def conn_in_def)
  qed
  then show "map_my_peer_id m' = map_my_peer_id m" and "conn_in m' p cid d \<Longrightarrow> conn_in m p cid d \<or> d = c"
    by simp_all
qed

lemma clean_conn_in:
  assumes "peers_ok m" and "clean_peer_without_conn m = Inr (es, m')"
  shows "conn_in m' p cid c \<Longrightarrow> conn_in m p cid c"
proof -
  obtain m1 where m1: "peers_to_remove (list_peers m) m = Inr (filter (\<lambda>k. \<not> has_open m k) (list_peers m), m1)" "same_conns m m1"
    using peers_to_remove_total [OF assms(1)] by blast
  have "peers_ok m1"
    using same_conns_ok [OF m1(2)] assms(1) by simp
  from close_peers_total [OF this, of "filter (\<lambda>k. \<not> has_open m k) (list_peers m)"]
  have "set (peer_map m') \<subseteq> set (peer_map m1)"
    using assms(2) m1(1) by (auto simp: clean_peer_without_conn_def)
  then have "conn_in m' p cid c \<Longrightarrow> conn_in m1 p cid c"
    by (auto simp: conn_in_def)
  then show "conn_in m' p cid c \<Longrightarrow> conn_in m p cid c"
    unfolding same_conns_in [OF m1(2)] .
qed

lemma send_directly_sent:
  assumes "peers_ok m" and "send_msg_directly sink msg dst m = (Inr (SentTo q cid p), m')"
  shows "q = dst \<and> p = msg \<and> sink cid msg \<and> (\<exists>c. conn_in m dst cid c)"
proof -
  obtain peer where peer: "map_of (peer_map m) dst = Some peer" and ne: "dst \<noteq> map_my_peer_id m"
    using assms(2) by (auto simp: send_msg_directly_def get_peer_by_id_def split: if_splits option.splits)
  obtain r peer' where s: "peer_send_msg sink msg peer = (r, peer')"
    by (cases "peer_send_msg sink msg peer")
  have "r = Inr cid" and q: "q = dst" "p = msg"
    using assms(2) peer ne s by (auto simp: send_msg_directly_def get_peer_by_id_def split: sum.splits)
  then obtain c where c: "fst (select_conn peer) = Some c" "cid = pc_conn_id c" "sink cid msg"
    using s by (auto simp: peer_send_msg_def split: prod.splits option.splits if_splits)
  have "(cid, c) \<in> set (conns peer)"
    using select_conn_spec [of peer] peers_ok_peer [OF assms(1) peer] c by (auto split: prod.splits)
  then show ?thesis
    using q c(3) map_of_SomeD [OF peer] by (auto simp: conn_in_def)
qed

section \<open>Networks do not mix\<close>

definition member_of :: "(bytes \<Rightarrow> u64) \<Rightarrow> NetworkIdentity \<Rightarrow> PeerConn \<Rightarrow> bool" where
  "member_of finish network c \<longleftrightarrow> (\<exists>i. get_network_identity c = Inr i \<and> NetworkIdentity_eq finish network i = Inr True)"

definition entry_ok :: "(bytes \<Rightarrow> u64) \<Rightarrow> string \<Rightarrow> ForeignNetworkEntry \<Rightarrow> bool" where
  "entry_ok finish name e \<longleftrightarrow> network_name (fe_network e) = name \<and> map_my_peer_id (fe_peer_map e) = fe_my_peer_id e \<and>
     peers_ok (fe_peer_map e) \<and>
     (\<forall>p cid c. conn_in (fe_peer_map e) p cid c \<longrightarrow> pc_my_peer_id c = fe_my_peer_id e \<and> member_of finish (fe_network e) c)"

definition manager_ok :: "(bytes \<Rightarrow> u64) \<Rightarrow> ForeignNetworkManagerData \<Rightarrow> bool" where
  "manager_ok finish d \<longleftrightarrow> (\<forall>name e. get_network_entry name d = Some e \<longrightarrow> entry_ok finish name e)"

text \<open>Changes of a peer map that bring no connection: closing, cleaning, sending, listing.\<close>

definition fewer_conns :: "PeerMap \<Rightarrow> PeerMap \<Rightarrow> bool" where
  "fewer_conns m m' \<longleftrightarrow> peers_ok m' \<and> map_my_peer_id m' = map_my_peer_id m \<and>
     (\<forall>p cid c'. conn_in m' p cid c' \<longrightarrow>
        (\<exists>c. conn_in m p cid c \<and> pc_info c' = pc_info c \<and> pc_my_peer_id c' = pc_my_peer_id c))"

inductive foreign_reach :: "foreign_env \<Rightarrow> ForeignNetworkManagerData \<Rightarrow> bool" for v where
  foreign_new: "foreign_reach v ForeignNetworkManager_new"
| foreign_add: "foreign_reach v d \<Longrightarrow> foreign_add_peer_conn v now c d = Inr (r, es, d') \<Longrightarrow> foreign_reach v d'"
| foreign_event: "foreign_reach v d \<Longrightarrow> foreign_event_turn now name ev d = Inr (es, d') \<Longrightarrow> foreign_reach v d'"
| foreign_exit: "foreign_reach v d \<Longrightarrow> foreign_reach v (remove_network name d)"
| foreign_packet: "foreign_reach v d \<Longrightarrow> get_network_entry name d = Some e \<Longrightarrow>
    entry_recv_packet chk garbage sink p e = Inr (fx, e') \<Longrightarrow> foreign_reach v (put_entry name e' d)"
| foreign_send: "foreign_reach v d \<Longrightarrow> send_msg_to_peer sink name dst msg d = (r, d') \<Longrightarrow> foreign_reach v d'"
| foreign_peers: "foreign_reach v d \<Longrightarrow> get_network_entry name d = Some e \<Longrightarrow> fewer_conns (fe_peer_map e) m' \<Longrightarrow>
    foreign_reach v (put_entry name (e\<lparr>fe_peer_map := m'\<rparr>) d)"

lemma get_put_entry: "get_network_entry n (put_entry name e d) = (if n = name then Some e else get_network_entry n d)"
  by (simp add: get_network_entry_def put_entry_def update_conv')

lemma put_entry_ok: "manager_ok finish d \<Longrightarrow> entry_ok finish name e \<Longrightarrow> manager_ok finish (put_entry name e d)"
  by (simp add: manager_ok_def get_put_entry)

lemma same_fewer: "peers_ok m \<Longrightarrow> same_conns m m' \<Longrightarrow> fewer_conns m m'"
  by (auto simp: fewer_conns_def same_conns_ok same_conns_in) (simp add: same_conns_def)

lemma member_of_cong: "pc_info c' = pc_info c \<Longrightarrow> member_of finish n c' = member_of finish n c"
  by (simp add: member_of_def get_network_identity_def)

lemma fewer_entry_ok:
  assumes "entry_ok finish name e" and "fewer_conns (fe_peer_map e) m'" and "fe_network e' = fe_network e"
    and "fe_my_peer_id e' = fe_my_peer_id e" and "fe_peer_map e' = m'"
  shows "entry_ok finish name e'"
  using assms member_of_cong unfolding entry_ok_def fewer_conns_def by metis

lemma map_send_same:
  "peers_ok m \<Longrightarrow> map_send_msg sink msg dst policy m = (r, m') \<Longrightarrow> same_conns m m'"
  by (auto simp: map_send_msg_def split: option.splits intro: send_directly_same)

lemma entry_recv_ok:
  assumes ok: "entry_ok finish name e" and run: "entry_recv_packet chk garbage sink p e = Inr (fx, e')"
  shows "entry_ok finish name e' \<and>
    (\<forall>q cid p'. Relayed (SentTo q cid p') \<in> set fx \<longrightarrow> p' = p \<and> sink cid p \<and> (\<exists>c. conn_in (fe_peer_map e) q cid c))"
proof -
  have m: "peers_ok (fe_peer_map e)"
    using ok by (simp add: entry_ok_def)
  have keep: "entry_ok finish name x" if "fe_network x = fe_network e" "fe_my_peer_id x = fe_my_peer_id e" "same_conns (fe_peer_map e) (fe_peer_map x)" for x
    by (rule fewer_entry_ok [OF ok same_fewer [OF m that(3)] that(1,2) refl])
  obtain h where h: "peer_manager_header p = Inr h"
    using run by (cases "peer_manager_header p") (auto simp: entry_recv_packet_def)
  show ?thesis
  proof (cases h)
    case None
    then show ?thesis
      using run h ok by (simp add: entry_recv_packet_def)
  next
    case (Some hdr)
    show ?thesis
    proof (cases "to_peer_id hdr = fe_my_peer_id e")
      case True
      then show ?thesis
        using run h Some keep ok by (auto simp: entry_recv_packet_def Let_def split: if_splits)
    next
      case False
      obtain allowed e1 where e1: "relay_allowed hdr e = (allowed, e1)"
        by (cases "relay_allowed hdr e")
      have e1': "fe_network e1 = fe_network e" "fe_my_peer_id e1 = fe_my_peer_id e" "fe_peer_map e1 = fe_peer_map e"
        using e1 by (auto simp: relay_allowed_def case_prod_unfold Let_def split: if_splits)
      show ?thesis
      proof (cases "allowed")
        case False
        then show ?thesis
          using run h Some \<open>to_peer_id hdr \<noteq> fe_my_peer_id e\<close> e1 e1' keep by (auto simp: entry_recv_packet_def)
      next
        case True
        note eq = run [unfolded entry_recv_packet_def h Some, simplified, unfolded e1 Let_def, simplified]
        show ?thesis
        proof (cases "\<exists>g. get_gateway_peer_id (to_peer_id hdr) LeastHop (fe_peer_map e) = Some g \<and> has_peer g (fe_peer_map e)")
          case False
          then show ?thesis
            using eq \<open>to_peer_id hdr \<noteq> fe_my_peer_id e\<close> True e1' keep
            by (auto simp: rbind_eq_Inr_iff split: option.splits if_splits)
        next
          case True
          then obtain g where g: "get_gateway_peer_id (to_peer_id hdr) LeastHop (fe_peer_map e) = Some g" "has_peer g (fe_peer_map e)"
            by blast
          obtain r m' where s: "send_msg_directly sink p g (fe_peer_map e) = (r, m')"
            by (cases "send_msg_directly sink p g (fe_peer_map e)")
          note same = send_directly_same [OF m s]
          show ?thesis
            using eq \<open>to_peer_id hdr \<noteq> fe_my_peer_id e\<close> \<open>allowed\<close> e1' keep same g s send_directly_sent [OF m, of sink p g]
            by (auto split: sum.splits)
        qed
      qed
    qed
  qed
qed

lemma delete_entries_ok:
  "manager_ok finish d \<Longrightarrow> (\<And>n e. get_network_entry n d' = Some e \<Longrightarrow> get_network_entry n d = Some e) \<Longrightarrow> manager_ok finish d'"
  unfolding manager_ok_def by blast

lemma remove_network_entries: "get_network_entry n (remove_network name d) = Some e \<Longrightarrow> get_network_entry n d = Some e"
  by (auto simp: get_network_entry_def remove_network_def delete_conv' split: if_splits)

lemma remove_peer_entries: "get_network_entry n (foreign_remove_peer p name d) = Some e \<Longrightarrow> get_network_entry n d = Some e"
  by (auto simp: get_network_entry_def foreign_remove_peer_def delete_conv' Let_def split: if_splits option.splits)

lemma NetworkIdentity_eq_refl: "NetworkIdentity_eq finish a b = Inr s \<Longrightarrow> network_name a = network_name b \<or> \<not> s"
  by (auto simp: NetworkIdentity_eq_def with_only_digest_def rbind_eq_Inr_iff split: option.splits)

lemma fresh_entry_ok:
  "entry_ok finish (network_name ident) (prepare_route r (ForeignNetworkEntry_new ident my relay limiter cnt))"
  by (simp add: entry_ok_def prepare_route_def ForeignNetworkEntry_new_def PeerMap_new_def add_route_def peers_ok_def conn_in_def)

lemma get_or_insert_ok:
  assumes "manager_ok finish d" and "get_or_insert_entry now r limiter cnt ident my dst relay d = (e, new, d')"
  shows "entry_ok finish (network_name ident) e \<and> manager_ok finish d' \<and> get_network_entry (network_name ident) d' = Some e"
proof -
  let ?n = "network_name ident"
  have e: "entry_ok finish ?n e"
    using assms fresh_entry_ok by (auto simp: get_or_insert_entry_def Let_def manager_ok_def split: option.splits)
  have "get_network_entry n d' = get_network_entry n (put_entry ?n e d)" for n
    using assms(2) by (auto simp: get_or_insert_entry_def Let_def get_network_entry_def put_entry_def split: option.splits)
  then show ?thesis
    using e put_entry_ok [OF assms(1) e] by (simp add: manager_ok_def get_put_entry)
qed

lemma remove_network_ok: "manager_ok finish d \<Longrightarrow> manager_ok finish (remove_network name d)"
  by (erule delete_entries_ok) (rule remove_network_entries)

lemma remove_peer_ok: "manager_ok finish d \<Longrightarrow> manager_ok finish (foreign_remove_peer p name d)"
  by (erule delete_entries_ok) (rule remove_peer_entries)

lemma manager_ok_cong: "(\<And>n. get_network_entry n d' = get_network_entry n d) \<Longrightarrow> manager_ok finish d' = manager_ok finish d"
  by (simp add: manager_ok_def)

lemma foreign_add_eq:
  assumes "get_network_identity c = Inr ident"
    and "check_network_in_whitelist (fv_wildmatch v) (fv_relay_network_whitelist v) (network_name ident) = white"
    and "white \<or> fv_relay_all_peer_rpc v" and "get_peer_id c = Inr pid"
    and "get_or_insert_entry now (fv_route v (network_name ident)) (fv_limiter v (network_name ident)) (fv_counters v (network_name ident))
           ident (pc_my_peer_id c) pid white d = (e, new, d1)"
    and "NetworkIdentity_eq (fv_finish v) (fe_network e) ident = Inr same"
  shows "foreign_add_peer_conn v now c d =
    (if \<not> same \<or> fe_my_peer_id e \<noteq> pc_my_peer_id c then
       Inr (Inl AnyhowError, [], if new then remove_network (network_name (fe_network e)) d1 else d1)
     else if \<not> new \<and> (case get_peer_by_id pid (fe_peer_map e) of
         Some peer \<Rightarrow> fv_max_direct_conns v \<le> card (get_directly_connections peer) | None \<Rightarrow> False)
     then Inr (Inl AnyhowError, [], d1)
     else rbind (add_new_peer_conn c (fe_peer_map e)) (\<lambda>(es, m). Inr (Inr (), es, put_entry (network_name ident) (e\<lparr>fe_peer_map := m\<rparr>) d1)))"
proof -
  have "\<not> (\<not> white \<and> \<not> fv_relay_all_peer_rpc v)"
    using assms(3) by blast
  then show ?thesis
    unfolding foreign_add_peer_conn_def Let_def assms(1) rbind_Inr assms(2,4-6) prod.case by (simp only: if_False)
qed

lemma foreign_add_ok:
  assumes ok: "manager_ok (fv_finish v) d" and run: "foreign_add_peer_conn v now c d = Inr (r, es, d')"
  shows "manager_ok (fv_finish v) d'"
proof -
  obtain ident where ident: "get_network_identity c = Inr ident"
    using run by (auto simp: foreign_add_peer_conn_def rbind_eq_Inr_iff)
  let ?n = "network_name ident"
  define white where "white = check_network_in_whitelist (fv_wildmatch v) (fv_relay_network_whitelist v) ?n"
  show ?thesis
  proof (cases "\<not> white \<and> \<not> fv_relay_all_peer_rpc v")
    case True
    then show ?thesis
      using run ident ok by (simp add: foreign_add_peer_conn_def Let_def white_def)
  next
    case False
    obtain pid where pid: "get_peer_id c = Inr pid"
      using run ident False by (cases "get_peer_id c") (auto simp: foreign_add_peer_conn_def Let_def white_def)
    obtain e new d1 where gi: "get_or_insert_entry now (fv_route v ?n) (fv_limiter v ?n) (fv_counters v ?n) ident (pc_my_peer_id c) pid white d = (e, new, d1)"
      by (cases "get_or_insert_entry now (fv_route v ?n) (fv_limiter v ?n) (fv_counters v ?n) ident (pc_my_peer_id c) pid white d")
    note d1 = get_or_insert_ok [OF ok gi]
    obtain same where same: "NetworkIdentity_eq (fv_finish v) (fe_network e) ident = Inr same"
      using run ident False pid gi
      by (cases "NetworkIdentity_eq (fv_finish v) (fe_network e) ident") (auto simp: foreign_add_peer_conn_def Let_def simp flip: white_def)
    have "white \<or> fv_relay_all_peer_rpc v"
      using False by blast
    note eq = run [unfolded foreign_add_eq [OF ident white_def [symmetric] this pid gi same]]
    show ?thesis
    proof (cases "same \<and> fe_my_peer_id e = pc_my_peer_id c \<and> (new \<or> (case get_peer_by_id pid (fe_peer_map e) of
          Some peer \<Rightarrow> \<not> fv_max_direct_conns v \<le> card (get_directly_connections peer) | None \<Rightarrow> True))")
      case True
      then obtain es' m where m: "add_new_peer_conn c (fe_peer_map e) = Inr (es', m)" and d': "d' = put_entry ?n (e\<lparr>fe_peer_map := m\<rparr>) d1"
        using eq by (auto simp: rbind_eq_Inr_iff split: option.splits if_splits)
      have pe: "peers_ok (fe_peer_map e)"
        using d1 by (simp add: entry_ok_def)
      obtain i where "pc_info c = Some i"
        using ident by (auto simp: get_network_identity_def rbind_eq_Inr_iff unwrap_eq_Inr_iff)
      then have "peers_ok m"
        using add_conn_total [OF pe] m by fastforce
      moreover have "member_of (fv_finish v) (fe_network e) c"
        using True same ident by (auto simp: member_of_def)
      ultimately have "entry_ok (fv_finish v) ?n (e\<lparr>fe_peer_map := m\<rparr>)"
        using d1 True add_conn_in [OF pe m] by (fastforce simp: entry_ok_def)
      then show ?thesis
        using d' d1 put_entry_ok by blast
    next
      case no: False
      then have "d' = d1 \<or> d' = remove_network (network_name (fe_network e)) d1"
        using eq by (auto split: option.splits if_splits)
      then show ?thesis
        using d1 remove_network_ok by blast
    qed
  qed
qed

lemma foreign_event_ok:
  assumes ok: "manager_ok finish d" and run: "foreign_event_turn now name ev d = Inr (es, d')"
  shows "manager_ok finish d'"
proof (cases ev)
  case (PeerRemoved p)
  then have "get_network_entry n d' = get_network_entry n (foreign_remove_peer p name d)" for n
    using run by (auto simp: get_network_entry_def Let_def)
  from manager_ok_cong [OF this] show ?thesis
    using remove_peer_ok [OF ok] by simp
next
  case (PeerConnRemoved i)
  show ?thesis
  proof (cases "get_network_entry name d")
    case None
    then show ?thesis
      using run PeerConnRemoved ok by (simp add: clear_no_conn_peer_def)
  next
    case (Some e)
    have e: "entry_ok finish name e"
      using ok Some by (simp add: manager_ok_def)
    then have pe: "peers_ok (fe_peer_map e)"
      by (simp add: entry_ok_def)
    obtain es' m where m: "clean_peer_without_conn (fe_peer_map e) = Inr (es', m)" "peers_ok m" "map_my_peer_id m = map_my_peer_id (fe_peer_map e)"
      using clean_peer_total [OF pe] by blast
    have "fewer_conns (fe_peer_map e) m"
      using m clean_conn_in [OF pe m(1)] unfolding fewer_conns_def by blast
    then have "entry_ok finish name (e\<lparr>fe_peer_map := m\<rparr>)"
      by (rule fewer_entry_ok [OF e]) simp_all
    then show ?thesis
      using run PeerConnRemoved Some m(1) put_entry_ok [OF ok] by (auto simp: clear_no_conn_peer_def)
  qed
qed (use run ok in \<open>auto simp: manager_ok_def get_network_entry_def\<close>)

lemma foreign_reach_ok: "foreign_reach v d \<Longrightarrow> manager_ok (fv_finish v) d"
proof (induction rule: foreign_reach.induct)
  case foreign_new
  show ?case
    by (simp add: manager_ok_def get_network_entry_def ForeignNetworkManager_new_def)
next
  case (foreign_add d now c r es d')
  then show ?case
    using foreign_add_ok by blast
next
  case (foreign_event d now name ev es d')
  then show ?case
    using foreign_event_ok by blast
next
  case (foreign_exit d name)
  then show ?case
    using remove_network_ok by blast
next
  case (foreign_packet d name e chk garbage sink p fx e')
  then show ?case
    using put_entry_ok [OF _ entry_recv_ok [THEN conjunct1]] unfolding manager_ok_def by blast
next
  case (foreign_send d sink name dst msg r d')
  show ?case
  proof (cases "get_network_entry name d")
    case (Some e)
    obtain r' m where s: "map_send_msg sink msg dst LeastHop (fe_peer_map e) = (r', m)"
      by (cases "map_send_msg sink msg dst LeastHop (fe_peer_map e)")
    have e: "entry_ok (fv_finish v) name e"
      using foreign_send Some by (simp add: manager_ok_def)
    then have "peers_ok (fe_peer_map e)"
      by (simp add: entry_ok_def)
    then have "entry_ok (fv_finish v) name (e\<lparr>fe_peer_map := m\<rparr>)"
      by (intro fewer_entry_ok [OF e same_fewer [OF _ map_send_same [OF _ s]]]) simp_all
    then show ?thesis
      using foreign_send Some s put_entry_ok by (auto simp: send_msg_to_peer_def)
  qed (use foreign_send in \<open>simp add: send_msg_to_peer_def\<close>)
next
  case (foreign_peers d name e m')
  then have "entry_ok (fv_finish v) name (e\<lparr>fe_peer_map := m'\<rparr>)"
    using fewer_entry_ok [of "fv_finish v" name e m' "e\<lparr>fe_peer_map := m'\<rparr>"] by (auto simp: manager_ok_def)
  then show ?case
    using foreign_peers put_entry_ok by blast
qed


section \<open>What is left behind\<close>

text \<open>
  A connection with the right name and the wrong secret is refused, but its peer stays registered
  under the network; nothing removes it again, since no peer is removed.
\<close>

lemma refused_peer_lingers:
  assumes "get_network_entry (network_name ident) d = Some e" and "get_network_identity c = Inr ident" and "get_peer_id c = Inr pid"
    and "check_network_in_whitelist (fv_wildmatch v) (fv_relay_network_whitelist v) (network_name ident)"
    and "NetworkIdentity_eq (fv_finish v) (fe_network e) ident = Inr False"
  shows "\<exists>d' ns. foreign_add_peer_conn v now c d = Inr (Inl AnyhowError, [], d') \<and>
    get_peer_network pid d' = Some ns \<and> network_name ident \<in> ns \<and> get_network_entry (network_name ident) d' = Some e"
proof -
  let ?n = "network_name ident"
  obtain d1 where d1: "get_or_insert_entry now (fv_route v ?n) (fv_limiter v ?n) (fv_counters v ?n) ident (pc_my_peer_id c) pid True d = (e, False, d1)"
      "\<exists>ns. get_peer_network pid d1 = Some ns \<and> ?n \<in> ns" "get_network_entry ?n d1 = Some e"
    using assms(1) by (auto simp: get_or_insert_entry_def get_peer_network_def get_network_entry_def put_entry_def update_conv' Let_def)
  have "foreign_add_peer_conn v now c d = Inr (Inl AnyhowError, [], d1)"
    using foreign_add_eq [OF assms(2) _ _ assms(3) d1(1) assms(5)] assms(4) by simp
  then show ?thesis
    using d1(2,3) by auto
qed

text \<open>When the last peer of a network is removed, so is the network, but its time of change is stored again.\<close>

lemma last_update_lingers:
  assumes "get_network_entry name d = Some e" and "peer_map (fe_peer_map e) = []"
  shows "\<exists>es d'. foreign_event_turn now name (PeerRemoved p) d = Inr (es, d') \<and> get_network_entry name d' = None \<and>
    get_foreign_network_last_update name d' = Some now"
  using assms
  by (auto simp: foreign_remove_peer_def get_network_entry_def get_foreign_network_last_update_def update_conv' delete_conv' Let_def split: option.split)

section \<open>A network with one peer\<close>

definition demo_route :: route_obj where
  "demo_route = \<lparr>route_next_hop = (\<lambda>_ _. None), route_peer_by_ipv4 = (\<lambda>_. None), route_peer_by_ipv6 = (\<lambda>_. None), route_peer_info = (\<lambda>_. None),
     route_origin_my_peer_id = (\<lambda>_ _. None), route_own_foreign_network = (\<lambda>_. []), route_list = []\<rparr>"

definition demo_env :: foreign_env where
  "demo_env = \<lparr>fv_finish = (\<lambda>_. 0), fv_wildmatch = (\<lambda>_ _. True), fv_relay_network_whitelist = [], fv_relay_all_peer_rpc = False,
     fv_max_direct_conns = 3, fv_route = (\<lambda>_. demo_route), fv_limiter = (\<lambda>_. TokenBucket_new 1000 1000 10),
     fv_counters = (\<lambda>_. \<lparr>forward_bytes = 0, forward_packets = 0, fc_rx_bytes = 0, fc_rx_packets = 0\<rparr>)\<rparr>"

definition demo_entry :: ForeignNetworkEntry where
  "demo_entry = prepare_route demo_route (ForeignNetworkEntry_new
     \<lparr>network_name = ''n'', network_secret = Some [], network_secret_digest = Some (replicate 32 7)\<rparr> 1 True (TokenBucket_new 1000 1000 10)
     \<lparr>forward_bytes = 0, forward_packets = 0, fc_rx_bytes = 0, fc_rx_packets = 0\<rparr>)"

lemma demo_entry_added:
  "\<exists>es m d'. add_new_peer_conn demo_conn (fe_peer_map demo_entry) = Inr (es, m) \<and>
     foreign_add_peer_conn demo_env 0 demo_conn ForeignNetworkManager_new = Inr (Inr (), es, d') \<and>
     get_network_entry ''n'' d' = Some (demo_entry\<lparr>fe_peer_map := m\<rparr>) \<and> map_of (peer_map m) 5 = Some \<lparr>peer_node_id = 5, conns = [(9, demo_conn)], default_conn_id = 0, close_events = []\<rparr> \<and>
     map_my_peer_id m = 1"
proof -
  let ?i = "\<lparr>network_name = ''n'', network_secret = Some [], network_secret_digest = Some (replicate 32 7)\<rparr>"
  have ident: "get_network_identity demo_conn = Inr ?i" and pid: "get_peer_id demo_conn = Inr 5" and my: "pc_my_peer_id demo_conn = 1"
    by (simp_all add: get_network_identity_def get_peer_id_def demo_identity_def demo_conn_def PeerConn_new_def)
  obtain d1 where gi: "get_or_insert_entry 0 (fv_route demo_env ''n'') (fv_limiter demo_env ''n'') (fv_counters demo_env ''n'') ?i (pc_my_peer_id demo_conn) 5 True
      ForeignNetworkManager_new = (demo_entry, True, d1)"
    by (simp add: get_or_insert_entry_def get_network_entry_def ForeignNetworkManager_new_def demo_entry_def demo_env_def my Let_def)
  obtain es m where m: "add_new_peer_conn demo_conn (fe_peer_map demo_entry) = Inr (es, m)"
      "map_of (peer_map m) 5 = Some \<lparr>peer_node_id = 5, conns = [(9, demo_conn)], default_conn_id = 0, close_events = []\<rparr>" "map_my_peer_id m = 1"
    by (simp add: demo_entry_def prepare_route_def ForeignNetworkEntry_new_def PeerMap_new_def add_route_def add_new_peer_conn_def
        maintain_alive_conns_def get_conn_info_def add_conn_no_entry_def pid add_conn_commit_def peer_add_conn_def Peer_new_def
        add_new_peer_def put_peer_def Let_def)
  have white: "check_network_in_whitelist (fv_wildmatch demo_env) (fv_relay_network_whitelist demo_env) ''n'' = True"
    by (simp add: check_network_in_whitelist_def demo_env_def)
  have same: "NetworkIdentity_eq (fv_finish demo_env) (fe_network demo_entry) ?i = Inr True"
    by (simp add: NetworkIdentity_eq_def with_only_digest_def demo_entry_def prepare_route_def ForeignNetworkEntry_new_def)
  have "fe_my_peer_id demo_entry = 1"
    by (simp add: demo_entry_def prepare_route_def ForeignNetworkEntry_new_def)
  then have "foreign_add_peer_conn demo_env 0 demo_conn ForeignNetworkManager_new = Inr (Inr (), es, put_entry ''n'' (demo_entry\<lparr>fe_peer_map := m\<rparr>) d1)"
    using foreign_add_eq [OF ident, of demo_env True 5 0 ForeignNetworkManager_new demo_entry True d1 True] white pid gi same m my by simp
  then show ?thesis
    using m by (auto simp: get_put_entry)
qed

definition demo_data_packet :: ZCPacket where
  "demo_data_packet = mk_packet DummyTunnel [] \<lparr>from_peer_id = 6, to_peer_id = 5, hdr_packet_type = 1, flags = 0, forward_counter = 1,
     reserved = 0, pm_len = 3\<rparr> [1, 2, 3]"


end
