(* ===== verification/Spec2Isabelle.thy ===== *)
theory Spec2Isabelle
  imports Compressor Encrypt Rpc_Server Ip_Reassembler Acl_Whitelist Acl_Filter Ospf_Groups Ospf_Address
    Ospf_Bitmap Ospf_Initiator Peer_Center Foreign_Network
begin

text \<open>
  Verification of the core of EasyTier, a peer-to-peer virtual network (the Rust crate under
  \<open>src/easytier/src\<close>).

  \<^bold>\<open>The program.\<close> A node keeps tunnels to neighbours and moves packets over them. A packet is a byte
  buffer with a tunnel header and a peer manager header (\<open>tunnel/packet_def.rs\<close>); on its way it may
  be compressed (\<open>common/compressor.rs\<close>), encrypted (\<open>peers/encrypt/\<close>) and wrapped for a foreign
  network. Nodes call each other by RPC, whose messages are cut into pieces that travel in such
  packets (\<open>proto/rpc_impl/\<close>). By RPC, neighbours synchronise what they know of peers, connections
  and foreign networks (\<open>peers/peer_ospf_route.rs\<close>); from these tables every node computes the next
  hop to each peer (\<open>peers/graph_algo.rs\<close>) and the peer behind each address; the costs of links are
  latencies that one peer collects for all (\<open>peer_center/\<close>). Packets of the virtual
  network pass an access control (\<open>common/acl_processor.rs\<close>) with rate limits
  (\<open>common/token_bucket.rs\<close>); IP datagrams that leave through a proxy are reassembled and fragmented
  (\<open>gateway/ip_reassembler.rs\<close>).

  \<^bold>\<open>Conventions\<close> (\<open>Rust_Prelude\<close>). A function that may panic returns \<open>panic + 'a\<close>; arithmetic that
  can leave its width takes the flag \<open>chk\<close>, true for builds with overflow checks, and theorems hold
  for both builds. Integers keep their width as words; \<open>usize\<close> is a natural number with its bound
  written out. Concurrent maps are association lists, their guards make each access one step. The
  versions of the routing tables wrap as in release builds. Time is a number of nanoseconds given
  to each step. Third-party code is a parameter: the protobuf, zstd and cipher functions, the keyed
  hash, CIDR parsing and matching, petgraph's search, which of several equal entries a binary heap
  pops. What is assumed of it is a named predicate, instantiated in the witnesses.

  \<^bold>\<open>Theories.\<close>
  \<^item> \<open>Packet_Def\<close>, \<open>Compressor\<close>, \<open>Encrypt\<close>: the headers byte by byte and every operation of \<open>ZCPacket\<close>;
    conversion between tunnel types, wrapping for foreign networks, compression and each cipher
    preserve the packet.
  \<^item> \<open>Keyed_Sessions\<close>: an interface for tables of partial messages that are fed piece by piece and
    swept by age, with the law that a complete message comes out exactly once. It is instantiated by
    the RPC server (\<open>Rpc_Packet\<close>, \<open>Rpc_Server\<close>) and by the IP reassembler (\<open>Ip_Reassembler\<close>).
  \<^item> \<open>Token_Bucket\<close>: the lock-free bucket as a step relation of threads that interleave at atomic
    operations; it refines the sequential bucket, and the rate is bounded.
  \<^item> \<open>Acl_Rules\<close>, \<open>Acl_Processor\<close>, \<open>Acl_Whitelist\<close>: configuration, matching, cache, connection
    tracking, rate limits and the whitelist builder; in every reachable state a decision is the one
    of the configured rules.
  \<^item> \<open>Acl_Filter\<close>: the filter that puts packets before the rules and exchanges the rules at run time;
    its verdict in every reachable state, and the balance of its counters.
  \<^item> \<open>Graph_Algo\<close>: the shortest-path search as a partial function; that it returns is proved.
  \<^item> \<open>Versioned_Store\<close>: an interface for tables in which the newest version wins, with convergence.
    \<open>Ospf_Info\<close> has the messages and the synchronised tables, \<open>Ospf_Convergence\<close> instantiates the
    interface for all three of them, \<open>Ospf_Groups\<close> shows which group memberships are believed.
  \<^item> \<open>Ospf_Route\<close>, \<open>Ospf_Next_Hop\<close>, \<open>Ospf_Address\<close>: the routing tables; next hops lie on best paths
    under both policies, addresses lead to the nearest announcer (an interface \<open>address_slot\<close> for
    the four address tables).
  \<^item> \<open>Ospf_Session\<close>, \<open>Ospf_Service\<close>: sessions with neighbours and the service around the tables;
    \<open>Ospf_Bitmap\<close> shows that the connection bitmap is carried faithfully, \<open>Ospf_Rounds\<close> what a round
    of synchronisation sends and records, \<open>Ospf_Delivery\<close> what both ends have after it,
    \<open>Ospf_Initiator\<close> which sessions the node initiates.
  \<^item> \<open>Peer_Center\<close>: the collection of latencies at one peer, its digest, the copies of the other peers
    and the link costs the routing takes from them.
  \<^item> \<open>Conn_Ping\<close>: the latency window, the traffic counters and the pings of a connection; when a
    connection is given up. \<open>Peer_Conn\<close> has the handshake and the sorting of received packets,
    \<open>Peer_Map\<close> the peers, their connections, and the map that finds them and their gateways.
    \<open>Foreign_Network\<close> has the networks a node relays for without being a member, each with a map of
    peers of its own; they do not mix.

  \<^bold>\<open>Loops.\<close> Loops over data are structural recursions or folds. The search loop is a
  \<open>partial_function\<close> in the option monad, and \<open>dijkstra_first_hop_correct\<close> shows that it returns on
  every finite graph; the fragmenting loop terminates by its remaining length. No fuel is used.

  \<^bold>\<open>Not modelled.\<close> Socket I/O, operating system calls and the spawning of tasks (tunnels, connectors,
  hole punching, proxies, the virtual network device, launchers); configuration files and command
  line, read by libraries; log and debug output; DNS and STUN, which are exchanges with external
  servers; the management RPC services, which only forward. The loops that wait for timers or
  channels are represented by the step each turn takes.

  \<^bold>\<open>Plan.\<close> Next: the ping statistics of a connection, the peer maps and the foreign networks.
\<close>

end
